(* ===== verification/Prelude.thy ===== *)
theory Prelude
  imports Main "HOL-Library.Word" "HOL-Library.Monad_Syntax"
begin

text \<open>
  What every theory of this development shares: the machine types, the error values, the
  result type with its bind, big-endian integers, Rust string slices as their UTF-8 bytes, and
  the byte-slice writer the wire formats are laid out with.

  Conventions. A Rust \<open>&[u8]\<close>, \<open>[u8; N]\<close> or \<open>Vec<u8>\<close> is a list of 8-bit words; a fixed
  length is a length condition. A Rust \<open>&str\<close> or \<open>String\<close> is the list of its UTF-8 bytes, so
  \<open>length\<close> is \<open>str::len\<close>. A \<open>usize\<close> length or index is a natural number: every such value
  is the length of an object in memory or is bounded by one. \<open>u32\<close> and \<open>u64\<close> fields keep their
  width. \<open>Result<T>\<close> is the sum \<open>error + 'a\<close>.
\<close>

section \<open>Types\<close>

type_synonym u8 = "8 word"
type_synonym u16 = "16 word"
type_synonym u32 = "32 word"
type_synonym u64 = "64 word"
type_synonym bytes = "u8 list"
type_synonym rstr = bytes

text \<open>
  The variants of \<open>rusty_esp_core::error::Error\<close> the sources name; \<open>OtherError\<close> stands for
  any variant they only pass on. \<open>Panic\<close> is no variant of it: it is the model's value for a
  Rust panic (a slice out of range, a failed \<open>expect\<close>), so that "does not panic" can be stated.
\<close>

datatype error =
    BufferTooSmall nat
  | Corrupt
  | InvalidFormat
  | Unsupported
  | Crypto
  | Denied
  | Busy
  | Hardware
  | InvalidGeometry
  | OtherError nat
  | Panic

type_synonym 'a result = "error + 'a"

named_theorems result_simps \<open>evaluation of the result combinators\<close>

section \<open>The result monad\<close>

text \<open>Rust's \<open>?\<close>: an error is returned at once, a value goes on.\<close>

definition bind_res :: "'e + 'a \<Rightarrow> ('a \<Rightarrow> 'e + 'b) \<Rightarrow> 'e + 'b" where
  "bind_res m f = (case m of Inl e \<Rightarrow> Inl e | Inr x \<Rightarrow> f x)"

lemma bind_res_simps [simp]:
  "bind_res (Inl e) f = Inl e"
  "bind_res (Inr x) f = f x"
  by (simp_all add: bind_res_def)

lemma bind_res_eq_Inr: "bind_res m f = Inr y \<longleftrightarrow> (\<exists>x. m = Inr x \<and> f x = Inr y)"
  by (cases m) simp_all

lemma bind_res_eq_Inl: "bind_res m f = Inl e \<longleftrightarrow> m = Inl e \<or> (\<exists>x. m = Inr x \<and> f x = Inl e)"
  by (cases m) simp_all

lemma bind_res_split:
  "P (bind_res m f) \<longleftrightarrow> (\<forall>e. m = Inl e \<longrightarrow> P (Inl e)) \<and> (\<forall>x. m = Inr x \<longrightarrow> P (f x))"
  by (cases m) simp_all

lemma bind_res_cong [fundef_cong]:
  "m = m' \<Longrightarrow> (\<And>x. m' = Inr x \<Longrightarrow> f x = f' x) \<Longrightarrow> bind_res m f = bind_res m' f'"
  by (cases m') simp_all

text \<open>\<open>Option::ok_or\<close> and \<open>Result::map_err(|_| e)\<close>.\<close>

definition ok_or :: "'a option \<Rightarrow> 'e \<Rightarrow> 'e + 'a" where
  "ok_or m e = (case m of None \<Rightarrow> Inl e | Some x \<Rightarrow> Inr x)"

lemma ok_or_simps [simp]:
  "ok_or None e = Inl e"
  "ok_or (Some x) e = Inr x"
  by (simp_all add: ok_or_def)

lemma ok_or_eq_Inr [simp]: "ok_or m e = Inr x \<longleftrightarrow> m = Some x"
  by (cases m) simp_all

lemma ok_or_eq_Inl: "ok_or m e = Inl e' \<longleftrightarrow> m = None \<and> e' = e"
  by (cases m) auto

text \<open>A guard: \<open>if !b { return Err(e) }\<close>.\<close>

definition ensure :: "bool \<Rightarrow> 'e \<Rightarrow> 'e + unit" where
  "ensure b e = (if b then Inr () else Inl e)"

lemma ensure_simps [simp]:
  "ensure True e = Inr ()"
  "ensure False e = Inl e"
  "ensure b e = Inr u \<longleftrightarrow> b"
  by (simp_all add: ensure_def)

lemma ensure_eq_Inl: "ensure b e = Inl e' \<longleftrightarrow> \<not> b \<and> e' = e"
  by (auto simp: ensure_def)

lemmas result_iffs = bind_res_eq_Inr bind_res_eq_Inl ok_or_eq_Inl ensure_eq_Inl

section \<open>Big-endian integers\<close>

text \<open>\<open>be_bytes n v\<close> is the low \<open>n\<close> bytes of \<open>v\<close>, most significant first.\<close>

fun be_bytes :: "nat \<Rightarrow> nat \<Rightarrow> bytes" where
  "be_bytes 0 v = []"
| "be_bytes (Suc n) v = be_bytes n (v div 256) @ [of_nat v]"

definition from_be :: "bytes \<Rightarrow> nat" where
  "from_be bs = foldl (\<lambda>a b. a * 256 + unat b) 0 bs"

lemma length_be_bytes [simp]: "length (be_bytes n v) = n"
  by (induction n v rule: be_bytes.induct) simp_all

lemma be_bytes_numeral:
  "be_bytes (numeral k) v = be_bytes (pred_numeral k) (v div 256) @ [of_nat v]"
  by (simp only: numeral_eq_Suc be_bytes.simps)

lemma from_be_Nil [simp]: "from_be [] = 0"
  by (simp add: from_be_def)

lemma from_be_snoc [simp]: "from_be (bs @ [b]) = from_be bs * 256 + unat b"
  by (simp add: from_be_def)

lemma unat_u8_of_nat: "unat (of_nat v :: u8) = v mod 256"
  by (simp add: unat_of_nat)

lemma from_be_be_bytes: "from_be (be_bytes n v) = v mod 256 ^ n"
proof (induction n v rule: be_bytes.induct)
  case (1 v)
  then show ?case by simp
next
  case (2 n v)
  then show ?case
    by (simp add: unat_u8_of_nat mod_mult2_eq)
qed

lemma be_bytes_from_be: "be_bytes (length bs) (from_be bs) = bs"
proof (induction bs rule: rev_induct)
  case Nil
  then show ?case by simp
next
  case (snoc b bs)
  have "(from_be bs * 256 + unat b) div 256 = from_be bs"
    using unsigned_less [of b, where 'a = nat] by simp
  moreover have "(of_nat (from_be bs * 256 + unat b) :: u8) = b"
  proof -
    have "(256 :: u8) = 0" by simp
    then show ?thesis by (simp only: of_nat_add of_nat_mult of_nat_numeral) simp
  qed
  ultimately show ?case using snoc.IH by simp
qed

lemma from_be_less: "from_be bs < 256 ^ length bs"
  by (metis be_bytes_from_be from_be_be_bytes mod_less_divisor zero_less_power zero_less_numeral)

lemma be_bytes_inj:
  "be_bytes n v = be_bytes n w \<Longrightarrow> v < 256 ^ n \<Longrightarrow> w < 256 ^ n \<Longrightarrow> v = w"
  by (metis from_be_be_bytes mod_less)

text \<open>\<open>to_be_bytes\<close> and \<open>from_be_bytes\<close> of the fixed widths.\<close>

definition u16_to_be :: "u16 \<Rightarrow> bytes" where "u16_to_be w = be_bytes 2 (unat w)"
definition u32_to_be :: "u32 \<Rightarrow> bytes" where "u32_to_be w = be_bytes 4 (unat w)"
definition u64_to_be :: "u64 \<Rightarrow> bytes" where "u64_to_be w = be_bytes 8 (unat w)"
definition u16_from_be :: "bytes \<Rightarrow> u16" where "u16_from_be bs = of_nat (from_be bs)"
definition u32_from_be :: "bytes \<Rightarrow> u32" where "u32_from_be bs = of_nat (from_be bs)"
definition u64_from_be :: "bytes \<Rightarrow> u64" where "u64_from_be bs = of_nat (from_be bs)"

lemma length_to_be [simp]:
  "length (u16_to_be a) = 2" "length (u32_to_be b) = 4" "length (u64_to_be c) = 8"
  by (simp_all add: u16_to_be_def u32_to_be_def u64_to_be_def)

lemma unat_u32_less: "unat (x :: u32) < 256 ^ 4"
  using unsigned_less [of x, where 'a = nat] by simp

lemma unat_u64_less: "unat (x :: u64) < 256 ^ 8"
  using unsigned_less [of x, where 'a = nat] by simp

lemma unat_u16_less: "unat (x :: u16) < 256 ^ 2"
  using unsigned_less [of x, where 'a = nat] by simp

lemma from_to_be [simp]:
  "u16_from_be (u16_to_be a) = a"
  "u32_from_be (u32_to_be b) = b"
  "u64_from_be (u64_to_be c) = c"
  using unat_u16_less [of a] unat_u32_less [of b] unat_u64_less [of c]
  by (simp_all add: u16_from_be_def u16_to_be_def u32_from_be_def u32_to_be_def
      u64_from_be_def u64_to_be_def from_be_be_bytes)

lemma to_from_be:
  "length x = 2 \<Longrightarrow> u16_to_be (u16_from_be x) = x"
  "length y = 4 \<Longrightarrow> u32_to_be (u32_from_be y) = y"
  "length z = 8 \<Longrightarrow> u64_to_be (u64_from_be z) = z"
  using from_be_less [of x] from_be_less [of y] from_be_less [of z]
    be_bytes_from_be [of x] be_bytes_from_be [of y] be_bytes_from_be [of z]
  by (simp_all add: u16_from_be_def u16_to_be_def u32_from_be_def u32_to_be_def
      u64_from_be_def u64_to_be_def unat_of_nat)

lemma to_be_inj [simp]:
  "u16_to_be a = u16_to_be a' \<longleftrightarrow> a = a'"
  "u32_to_be b = u32_to_be b' \<longleftrightarrow> b = b'"
  "u64_to_be c = u64_to_be c' \<longleftrightarrow> c = c'"
  by (metis from_to_be(1), metis from_to_be(2), metis from_to_be(3))

text \<open>\<open>len as u16\<close> keeps the low 16 bits; \<open>u16::try_from\<close> refuses what does not fit.\<close>

definition len_as_u16 :: "bytes \<Rightarrow> u16" where
  "len_as_u16 s = of_nat (length s)"

lemma unat_len_as_u16: "length s < 65536 \<Longrightarrow> unat (len_as_u16 s) = length s"
  by (simp add: len_as_u16_def unat_of_nat)

section \<open>Byte strings\<close>

text \<open>A string literal of the source as its bytes.\<close>

definition ascii :: "string \<Rightarrow> bytes" where
  "ascii s = map of_char s"

lemma length_ascii [simp]: "length (ascii s) = length s"
  by (simp add: ascii_def)

lemma of_char_u8_inj: "of_char c = (of_char d :: u8) \<Longrightarrow> c = d"
proof -
  assume "of_char c = (of_char d :: u8)"
  then have "(of_nat (of_char c) :: u8) = of_nat (of_char d)"
    by (simp only: of_nat_of_char)
  then have "(of_char c :: nat) mod 256 = of_char d mod 256"
    by (metis unat_u8_of_nat)
  then have "(of_char c :: nat) = of_char d" by simp
  then show "c = d" by simp
qed

lemma ascii_eq_iff [simp]: "ascii s = ascii t \<longleftrightarrow> s = t"
proof
  assume "ascii s = ascii t"
  then show "s = t"
    by (auto simp: ascii_def intro: map_injective injI of_char_u8_inj)
qed simp

text \<open>\<open>str::strip_prefix\<close>, \<open>slice::starts_with\<close>, \<open>str::split_once\<close> and \<open>str::split\<close> on one
  ASCII character. In UTF-8 an ASCII byte is never part of a longer character, so the search
  over the bytes finds what the search over the characters finds.\<close>

definition starts_with :: "bytes \<Rightarrow> bytes \<Rightarrow> bool" where
  "starts_with s p \<longleftrightarrow> take (length p) s = p"

definition strip_prefix :: "bytes \<Rightarrow> bytes \<Rightarrow> bytes option" where
  "strip_prefix p s = (if starts_with s p then Some (drop (length p) s) else None)"

fun split_once :: "u8 \<Rightarrow> bytes \<Rightarrow> (bytes \<times> bytes) option" where
  "split_once c [] = None"
| "split_once c (x # xs) =
     (if x = c then Some ([], xs)
      else map_option (\<lambda>(a, b). (x # a, b)) (split_once c xs))"

fun split_on :: "u8 \<Rightarrow> bytes \<Rightarrow> bytes list" where
  "split_on c [] = [[]]"
| "split_on c (x # xs) =
     (if x = c then [] # split_on c xs
      else case split_on c xs of [] \<Rightarrow> [[x]] | p # ps \<Rightarrow> (x # p) # ps)"

lemma starts_with_append [simp]: "starts_with (p @ s) p"
  by (simp add: starts_with_def)

lemma starts_with_iff: "starts_with s p \<longleftrightarrow> (\<exists>r. s = p @ r)"
  by (metis append_eq_conv_conj starts_with_def starts_with_append)

lemma strip_prefix_append [simp]: "strip_prefix p (p @ s) = Some s"
  by (simp add: strip_prefix_def)

lemma strip_prefix_eq_Some: "strip_prefix p s = Some r \<longleftrightarrow> s = p @ r"
  by (auto simp: strip_prefix_def starts_with_def split: if_splits)
    (metis append_take_drop_id)

lemma split_once_None: "split_once c s = None \<longleftrightarrow> c \<notin> set s"
  by (induction s) auto

lemma split_once_Some: "split_once c s = Some (a, b) \<longleftrightarrow> s = a @ c # b \<and> c \<notin> set a"
proof (induction s arbitrary: a)
  case Nil
  then show ?case by simp
next
  case (Cons x xs)
  then show ?case by (cases a) auto
qed

lemma split_on_no_sep: "c \<notin> set s \<Longrightarrow> split_on c s = [s]"
  by (induction s) auto

lemma split_on_append: "c \<notin> set a \<Longrightarrow> split_on c (a @ c # b) = a # split_on c b"
  by (induction a) auto

section \<open>UTF-8\<close>

text \<open>
  \<open>core::str::from_utf8\<close>: the well-formed sequences of the Unicode standard, as the Rust
  standard library documents them (no overlong forms, no surrogates, nothing above U+10FFFF).
\<close>

definition utf8_cont :: "u8 \<Rightarrow> bool" where
  "utf8_cont b \<longleftrightarrow> 0x80 \<le> b \<and> b \<le> 0xBF"

definition utf8_second3 :: "u8 \<Rightarrow> u8 \<Rightarrow> bool" where
  "utf8_second3 a b \<longleftrightarrow>
     (if a = 0xE0 then 0xA0 \<le> b \<and> b \<le> 0xBF
      else if a = 0xED then 0x80 \<le> b \<and> b \<le> 0x9F
      else utf8_cont b)"

definition utf8_second4 :: "u8 \<Rightarrow> u8 \<Rightarrow> bool" where
  "utf8_second4 a b \<longleftrightarrow>
     (if a = 0xF0 then 0x90 \<le> b \<and> b \<le> 0xBF
      else if a = 0xF4 then 0x80 \<le> b \<and> b \<le> 0x8F
      else utf8_cont b)"

fun utf8_valid :: "bytes \<Rightarrow> bool" where
  "utf8_valid [] = True"
| "utf8_valid (a # r) =
     (if a < 0x80 then utf8_valid r
      else if 0xC2 \<le> a \<and> a \<le> 0xDF then
        (case r of b # r' \<Rightarrow> utf8_cont b \<and> utf8_valid r' | _ \<Rightarrow> False)
      else if 0xE0 \<le> a \<and> a \<le> 0xEF then
        (case r of b # c # r' \<Rightarrow> utf8_second3 a b \<and> utf8_cont c \<and> utf8_valid r' | _ \<Rightarrow> False)
      else if 0xF0 \<le> a \<and> a \<le> 0xF4 then
        (case r of b # c # d # r' \<Rightarrow>
           utf8_second4 a b \<and> utf8_cont c \<and> utf8_cont d \<and> utf8_valid r' | _ \<Rightarrow> False)
      else False)"

definition from_utf8 :: "bytes \<Rightarrow> rstr option" where
  "from_utf8 bs = (if utf8_valid bs then Some bs else None)"

lemma from_utf8_eq_Some [simp]: "from_utf8 bs = Some s \<longleftrightarrow> utf8_valid bs \<and> s = bs"
  by (auto simp: from_utf8_def)

declare utf8_valid.simps(2) [simp del]

lemma utf8_valid_ascii_Cons [simp]: "a < 0x80 \<Longrightarrow> utf8_valid (a # r) = utf8_valid r"
  by (simp add: utf8_valid.simps(2))

lemma utf8_valid_ascii_bytes: "\<forall>b \<in> set bs. b < 0x80 \<Longrightarrow> utf8_valid bs"
  by (induction bs) simp_all

lemma utf8_valid_append: "utf8_valid a \<Longrightarrow> utf8_valid b \<Longrightarrow> utf8_valid (a @ b)"
proof (induction a rule: length_induct)
  case (1 xs)
  note prems = "1.prems" and IH = "1.IH" [rule_format, OF _ _ "1.prems"(2)]
  show ?case
  proof (cases xs)
    case Nil
    with prems show ?thesis by simp
  next
    case (Cons a r)
    consider (one) "a < 0x80" | (two) "\<not> a < 0x80" "0xC2 \<le> a \<and> a \<le> 0xDF"
      | (three) "\<not> a < 0x80" "\<not> (0xC2 \<le> a \<and> a \<le> 0xDF)" "0xE0 \<le> a \<and> a \<le> 0xEF"
      | (four) "\<not> a < 0x80" "\<not> (0xC2 \<le> a \<and> a \<le> 0xDF)" "\<not> (0xE0 \<le> a \<and> a \<le> 0xEF)"
      by blast
    then show ?thesis
    proof cases
      case one
      with Cons prems show ?thesis by (simp add: IH)
    next
      case two
      with Cons prems(1) obtain x r' where r: "r = x # r'" "utf8_cont x" "utf8_valid r'"
        by (auto simp: utf8_valid.simps(2) [of a] split: list.splits)
      have "utf8_valid (r' @ b)" by (rule IH) (simp_all add: Cons r)
      with two r Cons show ?thesis by (simp add: utf8_valid.simps(2) [of a])
    next
      case three
      with Cons prems(1) obtain x y r' where
        r: "r = x # y # r'" "utf8_second3 a x" "utf8_cont y" "utf8_valid r'"
        by (auto simp: utf8_valid.simps(2) [of a] split: list.splits)
      have "utf8_valid (r' @ b)" by (rule IH) (simp_all add: Cons r)
      with three r Cons show ?thesis by (auto simp: utf8_valid.simps(2) [of a])
    next
      case four
      with Cons prems(1) have a: "0xF0 \<le> a \<and> a \<le> 0xF4"
        by (simp add: utf8_valid.simps(2) [of a] split: if_splits)
      with four Cons prems(1) obtain x y z r' where r: "r = x # y # z # r'"
        "utf8_second4 a x" "utf8_cont y" "utf8_cont z" "utf8_valid r'"
        by (auto simp: utf8_valid.simps(2) [of a] split: list.splits)
      have "utf8_valid (r' @ b)" by (rule IH) (simp_all add: Cons r)
      with four a r Cons show ?thesis by (auto simp: utf8_valid.simps(2) [of a])
    qed
  qed
qed

section \<open>A writer over a caller's buffer\<close>

text \<open>
  \<open>adoption.rs\<close>, \<open>struct Writer\<close>: the buffer and the position. \<open>Writer::bytes\<close> indexes
  \<open>out[pos..pos + len]\<close>, which panics when the range leaves the buffer: \<open>None\<close>.
\<close>

record writer =
  w_out :: bytes
  w_pos :: nat

definition w_bytes :: "writer \<Rightarrow> bytes \<Rightarrow> writer option" where
  "w_bytes w b =
     (if w_pos w + length b \<le> length (w_out w)
      then Some (w\<lparr>w_out := take (w_pos w) (w_out w) @ b @ drop (w_pos w + length b) (w_out w),
                   w_pos := w_pos w + length b\<rparr>)
      else None)"

definition w_str16 :: "writer \<Rightarrow> rstr \<Rightarrow> writer option" where
  "w_str16 w s =
     do { w \<leftarrow> w_bytes w (u16_to_be (len_as_u16 s)); w_bytes w s }"

fun w_strs :: "writer \<Rightarrow> rstr list \<Rightarrow> writer option" where
  "w_strs w [] = Some w"
| "w_strs w (s # ss) = do { w \<leftarrow> w_str16 w s; w_strs w ss }"

text \<open>A writer that has written \<open>p\<close> and has \<open>r\<close> left of the buffer.\<close>

definition mk_writer :: "bytes \<Rightarrow> bytes \<Rightarrow> writer" where
  "mk_writer p r = \<lparr>w_out = p @ r, w_pos = length p\<rparr>"

definition str16 :: "rstr \<Rightarrow> bytes" where
  "str16 s = u16_to_be (len_as_u16 s) @ s"

lemma length_str16 [simp]: "length (str16 s) = 2 + length s"
  by (simp add: str16_def)

text \<open>A length prefix that fits makes a field self-delimiting.\<close>

lemma str16_append_inj:
  "str16 a @ x = str16 b @ y \<Longrightarrow> length a < 65536 \<Longrightarrow> length b < 65536 \<Longrightarrow> a = b \<and> x = y"
proof -
  assume eq: "str16 a @ x = str16 b @ y" and l: "length a < 65536" "length b < 65536"
  from eq have "u16_to_be (len_as_u16 a) = u16_to_be (len_as_u16 b)" and rest: "a @ x = b @ y"
    by (simp_all add: str16_def)
  then have "unat (len_as_u16 a) = unat (len_as_u16 b)" by simp
  then have "length a = length b" using l by (simp add: unat_len_as_u16)
  with rest show ?thesis by simp
qed

lemma mk_writer_init: "\<lparr>w_out = out, w_pos = 0\<rparr> = mk_writer [] out"
  by (simp add: mk_writer_def)

lemma mk_writer_sel [simp]:
  "w_out (mk_writer p r) = p @ r" "w_pos (mk_writer p r) = length p"
  by (simp_all add: mk_writer_def)

lemma w_bytes_mk [simp]:
  "length b \<le> length r \<Longrightarrow> w_bytes (mk_writer p r) b = Some (mk_writer (p @ b) (drop (length b) r))"
  by (simp add: w_bytes_def mk_writer_def)

lemma w_str16_mk [simp]:
  "2 + length s \<le> length r \<Longrightarrow>
     w_str16 (mk_writer p r) s = Some (mk_writer (p @ str16 s) (drop (2 + length s) r))"
  by (simp add: w_str16_def str16_def add.commute)

lemma w_strs_mk:
  "length (concat (map str16 ss)) \<le> length r \<Longrightarrow>
     w_strs (mk_writer p r) ss =
       Some (mk_writer (p @ concat (map str16 ss)) (drop (length (concat (map str16 ss))) r))"
  by (induction ss arbitrary: p r) (simp_all add: add.commute add.left_commute)

end
