(* ===== verification/Cap.thy ===== *)
theory Cap
  imports Prelude
begin

text \<open>
  \<open>crates/rusty_esp_mid-core/src/cap.rs\<close>: capability strings \<open>component:action[@scope]\<close>,
  their parser and the matching of held grants against a need. The abstract reading of a
  capability is the set of requests it covers; matching is set inclusion.
\<close>

section \<open>The capability and its parser\<close>

record cap =
  component :: rstr
  action :: rstr
  scope :: "rstr option"

abbreviation COLON :: u8 where "COLON \<equiv> 0x3A"
abbreviation AT :: u8 where "AT \<equiv> 0x40"

definition clean :: "rstr \<Rightarrow> bool" where
  "clean p \<longleftrightarrow> p \<noteq> [] \<and> COLON \<notin> set p \<and> AT \<notin> set p"

definition parse :: "rstr \<Rightarrow> cap option" where
  "parse s =
     do {
       (comp, rest) \<leftarrow> split_once COLON s;
       let (act, sc) =
         (case split_once AT rest of Some (a, sc) \<Rightarrow> (a, Some sc) | None \<Rightarrow> (rest, None));
       if \<not> clean comp \<or> \<not> clean act \<or> \<not> (case sc of None \<Rightarrow> True | Some p \<Rightarrow> clean p)
       then None
       else Some \<lparr>component = comp, action = act, scope = sc\<rparr>
     }"

section \<open>Matching\<close>

definition satisfies :: "cap \<Rightarrow> cap \<Rightarrow> bool" where
  "satisfies g n \<longleftrightarrow>
     component g = component n \<and> action g = action n \<and> (scope g = None \<or> scope g = scope n)"

definition grant_satisfies :: "rstr \<Rightarrow> rstr \<Rightarrow> bool" where
  "grant_satisfies grant needed =
     (case (parse grant, parse needed) of
        (Some g, Some n) \<Rightarrow> satisfies g n
      | _ \<Rightarrow> False)"

definition any_satisfies :: "rstr list \<Rightarrow> rstr \<Rightarrow> bool" where
  "any_satisfies grants needed =
     (case parse needed of
        None \<Rightarrow> False
      | Some n \<Rightarrow> list_ex (\<lambda>g. satisfies g n) (List.map_filter parse grants))"

section \<open>Printing, and the round trip\<close>

text \<open>The canonical text of a capability, and the capabilities that have one.\<close>

definition cap_format :: "cap \<Rightarrow> rstr" where
  "cap_format c =
     component c @ COLON # action c @ (case scope c of None \<Rightarrow> [] | Some sc \<Rightarrow> AT # sc)"

definition wf_cap :: "cap \<Rightarrow> bool" where
  "wf_cap c \<longleftrightarrow>
     clean (component c) \<and> clean (action c) \<and> (case scope c of None \<Rightarrow> True | Some sc \<Rightarrow> clean sc)"

lemma split_once_first: "c \<notin> set a \<Longrightarrow> split_once c (a @ c # b) = Some (a, b)"
  by (simp add: split_once_Some)

lemma parse_format: "wf_cap c \<Longrightarrow> parse (cap_format c) = Some c"
  by (cases "scope c")
    (auto simp: parse_def cap_format_def wf_cap_def clean_def split_once_first
       split_once_None [THEN iffD2])

lemma parse_Some: "parse s = Some c \<Longrightarrow> wf_cap c \<and> s = cap_format c"
proof -
  assume p: "parse s = Some c"
  then obtain comp rest where s: "split_once COLON s = Some (comp, rest)"
    by (cases "split_once COLON s") (auto simp: parse_def)
  show ?thesis
  proof (cases "split_once AT rest")
    case None
    with p s show ?thesis
      by (auto simp: parse_def wf_cap_def cap_format_def split_once_Some split: if_splits)
  next
    case (Some q)
    then obtain a sc where "split_once AT rest = Some (a, sc)" by (cases q) simp
    with p s show ?thesis
      by (auto simp: parse_def wf_cap_def cap_format_def split_once_Some split: if_splits)
  qed
qed

lemma parse_clean_parts:
  "parse s = Some c \<Longrightarrow> clean (component c) \<and> clean (action c)"
  using parse_Some [of s c] by (simp add: wf_cap_def)

section \<open>The abstract reading: the requests a capability covers\<close>

definition covers :: "cap \<Rightarrow> (rstr \<times> rstr \<times> rstr option) set" where
  "covers c = {(component c, action c, sc) | sc. scope c = None \<or> sc = scope c}"

lemma satisfies_iff_covers: "satisfies g n \<longleftrightarrow> covers n \<subseteq> covers g"
proof
  show "satisfies g n \<Longrightarrow> covers n \<subseteq> covers g"
    by (auto simp: satisfies_def covers_def)
next
  assume sub: "covers n \<subseteq> covers g"
  have mem: "(component n, action n, scope n) \<in> covers n"
    by (simp add: covers_def)
  show "satisfies g n"
  proof (cases "scope n")
    case (Some sc)
    from mem sub have "(component n, action n, scope n) \<in> covers g" by blast
    then show ?thesis by (auto simp: satisfies_def covers_def)
  next
    case None
    obtain z where z: "Some z \<noteq> scope g"
      by (metis list.discI option.inject)
    have "(component n, action n, Some z) \<in> covers n"
      using None by (simp add: covers_def)
    with sub have "(component n, action n, Some z) \<in> covers g" by blast
    with z show ?thesis by (auto simp: satisfies_def covers_def)
  qed
qed

section \<open>The interface other components rely on\<close>

text \<open>
  What \<open>Adoption::grants\<close> needs of the matching: it is a preorder on parsed capabilities, so
  whatever is granted, every narrower request is granted too.
\<close>

locale grant_order =
  fixes parse_cap :: "rstr \<Rightarrow> 'c option"
    and sat :: "'c \<Rightarrow> 'c \<Rightarrow> bool"
  assumes sat_refl: "parse_cap s = Some c \<Longrightarrow> sat c c"
    and sat_trans: "sat a b \<Longrightarrow> sat b c \<Longrightarrow> sat a c"
begin

definition granted :: "rstr list \<Rightarrow> rstr \<Rightarrow> bool" where
  "granted grants needed \<longleftrightarrow>
     (\<exists>n. parse_cap needed = Some n \<and> (\<exists>s \<in> set grants. \<exists>g. parse_cap s = Some g \<and> sat g n))"

lemma granted_member:
  "s \<in> set grants \<Longrightarrow> parse_cap s = Some c \<Longrightarrow> granted grants s"
  unfolding granted_def using sat_refl by blast

lemma granted_narrower:
  assumes "granted grants a" "parse_cap a = Some ca" "parse_cap b = Some cb" "sat ca cb"
  shows "granted grants b"
  using assms sat_trans unfolding granted_def by (metis option.inject)

lemma granted_mono: "set xs \<subseteq> set ys \<Longrightarrow> granted xs n \<Longrightarrow> granted ys n"
  unfolding granted_def by blast

end

lemma satisfies_refl [simp]: "satisfies c c"
  by (simp add: satisfies_def)

lemma satisfies_trans: "satisfies a b \<Longrightarrow> satisfies b c \<Longrightarrow> satisfies a c"
  by (auto simp: satisfies_def)

lemma satisfies_antisym: "satisfies a b \<Longrightarrow> satisfies b a \<Longrightarrow> a = b"
  by (auto simp: satisfies_def)

interpretation matching: grant_order parse satisfies
  by unfold_locales (auto intro: satisfies_trans)

lemma any_satisfies_iff:
  "any_satisfies grants needed \<longleftrightarrow> (\<exists>g \<in> set grants. grant_satisfies g needed)"
proof (cases "parse needed")
  case None
  then show ?thesis
    by (auto simp: any_satisfies_def grant_satisfies_def split: option.splits)
next
  case (Some n)
  have "list_ex (\<lambda>g. satisfies g n) (List.map_filter parse grants) \<longleftrightarrow>
      (\<exists>g \<in> set grants. \<exists>c. parse g = Some c \<and> satisfies c n)"
    by (induction grants) (auto simp: List.map_filter_simps split: option.splits)
  with Some show ?thesis
    by (auto simp: any_satisfies_def grant_satisfies_def split: option.splits)
qed

lemma any_satisfies_granted: "any_satisfies grants needed = matching.granted grants needed"
  unfolding any_satisfies_iff matching.granted_def grant_satisfies_def
  by (cases "parse needed") (force split: option.splits)+

end
