(* ===== verification/Signer.thy ===== *)
theory Signer
  imports Prelude
begin

text \<open>
  \<open>crates/rusty_esp_mid-core/src/signer.rs\<close> and the hash of \<open>lib.rs\<close>. The primitives come from
  crates that are not part of this repository's core (\<open>sha2\<close>, \<open>ecdsa\<close>, \<open>p256\<close>): they are the
  fields of the record \<open>prims\<close>, an argument of every definition that signs, verifies or hashes.
  \<open>prims_ok\<close> states the documented behaviour the code relies on.
\<close>

section \<open>The primitives\<close>

record ('sk, 'vk, 'sig) prims =
  sha256 :: "bytes \<Rightarrow> bytes"                  \<comment> \<open>\<open>sha2::Sha256\<close> over the concatenated updates\<close>
  scalar_from_repr :: "bytes \<Rightarrow> 'sk option"   \<comment> \<open>\<open>NonZeroScalar::from_repr\<close>\<close>
  scalar_to_repr :: "'sk \<Rightarrow> bytes"
  public_of :: "'sk \<Rightarrow> 'vk"                   \<comment> \<open>\<open>PublicKey::from_secret_scalar\<close>\<close>
  sec1_decode :: "bytes \<Rightarrow> 'vk option"        \<comment> \<open>\<open>VerifyingKey::from_sec1_bytes\<close>\<close>
  sec1_compressed :: "'vk \<Rightarrow> bytes"           \<comment> \<open>\<open>to_encoded_point(true)\<close>\<close>
  sec1_uncompressed :: "'vk \<Rightarrow> bytes"         \<comment> \<open>\<open>to_encoded_point(false)\<close>\<close>
  sig_from_slice :: "bytes \<Rightarrow> 'sig option"    \<comment> \<open>\<open>Signature::from_slice\<close>\<close>
  sig_to_bytes :: "'sig \<Rightarrow> bytes"
  normalize_s :: "'sig \<Rightarrow> 'sig option"        \<comment> \<open>\<open>Some\<close> of the low-s twin when \<open>s\<close> is high\<close>
  ecdsa_verify :: "'vk \<Rightarrow> bytes \<Rightarrow> 'sig \<Rightarrow> bool"
  ecdsa_sign :: "'sk \<Rightarrow> bytes \<Rightarrow> 'sig"        \<comment> \<open>RFC 6979 over SHA-256, no extra data\<close>
  ecdh :: "'sk \<Rightarrow> 'vk \<Rightarrow> bytes"

definition low_s :: "('sk, 'vk, 'sig) prims \<Rightarrow> 'sig \<Rightarrow> 'sig" where
  "low_s P s = (case normalize_s P s of None \<Rightarrow> s | Some s' \<Rightarrow> s')"

definition prims_ok :: "('sk, 'vk, 'sig) prims \<Rightarrow> bool" where
  "prims_ok P \<longleftrightarrow>
     (\<forall>m. length (sha256 P m) = 32) \<and>
     (\<forall>b k. scalar_from_repr P b = Some k \<longrightarrow> scalar_to_repr P k = b) \<and>
     (\<forall>k. length (scalar_to_repr P k) = 32 \<and> scalar_from_repr P (scalar_to_repr P k) = Some k) \<and>
     (\<forall>vk. sec1_decode P (sec1_compressed P vk) = Some vk \<and> length (sec1_compressed P vk) = 33
        \<and> sec1_compressed P vk ! 0 \<in> {2, 3}) \<and>
     (\<forall>vk. sec1_decode P (sec1_uncompressed P vk) = Some vk \<and> length (sec1_uncompressed P vk) = 65) \<and>
     (\<forall>b s. sig_from_slice P b = Some s \<longrightarrow> sig_to_bytes P s = b) \<and>
     (\<forall>s. length (sig_to_bytes P s) = 64 \<and> sig_from_slice P (sig_to_bytes P s) = Some s) \<and>
     (\<forall>s s'. normalize_s P s = Some s' \<longrightarrow> normalize_s P s' = None) \<and>
     (\<forall>vk h s s'. normalize_s P s = Some s' \<longrightarrow> ecdsa_verify P vk h s \<longrightarrow> ecdsa_verify P vk h s') \<and>
     (\<forall>k h. length h = 32 \<longrightarrow> ecdsa_verify P (public_of P k) h (ecdsa_sign P k h)) \<and>
     (\<forall>a b. ecdh P a (public_of P b) = ecdh P b (public_of P a) \<and> length (ecdh P a (public_of P b)) = 32)"

lemma prims_okD:
  assumes "prims_ok P"
  shows "length (sha256 P m) = 32"
    and "scalar_from_repr P b = Some k \<Longrightarrow> scalar_to_repr P k = b"
    and "length (scalar_to_repr P k) = 32"
    and "scalar_from_repr P (scalar_to_repr P k) = Some k"
    and "sec1_decode P (sec1_compressed P vk) = Some vk"
    and "length (sec1_compressed P vk) = 33"
    and "sec1_compressed P vk ! 0 \<in> {2, 3}"
    and "sec1_decode P (sec1_uncompressed P vk) = Some vk"
    and "length (sec1_uncompressed P vk) = 65"
    and "sig_from_slice P b = Some s \<Longrightarrow> sig_to_bytes P s = b"
    and "length (sig_to_bytes P s) = 64"
    and "sig_from_slice P (sig_to_bytes P s) = Some s"
    and "normalize_s P s = Some s' \<Longrightarrow> normalize_s P s' = None"
    and "normalize_s P s = Some s' \<Longrightarrow> ecdsa_verify P vk h s \<Longrightarrow> ecdsa_verify P vk h s'"
    and "length h = 32 \<Longrightarrow> ecdsa_verify P (public_of P k) h (ecdsa_sign P k h)"
    and "ecdh P a (public_of P c) = ecdh P c (public_of P a)"
    and "length (ecdh P a (public_of P c)) = 32"
  using assms unfolding prims_ok_def by - (elim conjE, metis)+

section \<open>The verifier\<close>

definition verify_prehash ::
  "('sk, 'vk, 'sig) prims \<Rightarrow> bytes \<Rightarrow> bytes \<Rightarrow> bytes \<Rightarrow> unit result" where
  "verify_prehash P pubkey_sec1 prehash signature =
     bind_res (ok_or (sec1_decode P pubkey_sec1) Crypto) (\<lambda>key.
     bind_res (ok_or (sig_from_slice P signature) Crypto) (\<lambda>sig.
       if normalize_s P sig \<noteq> None then Inl Crypto
       else if ecdsa_verify P key prehash sig then Inr () else Inl Crypto))"

lemma verify_prehash_Inr:
  "verify_prehash P pk h sg = Inr u \<longleftrightarrow>
     (\<exists>vk s. sec1_decode P pk = Some vk \<and> sig_from_slice P sg = Some s \<and>
        normalize_s P s = None \<and> ecdsa_verify P vk h s)"
  by (auto simp: verify_prehash_def bind_res_eq_Inr)

lemma verify_prehash_error: "verify_prehash P pk h sg = Inl e \<Longrightarrow> e = Crypto"
  by (auto simp: verify_prehash_def result_iffs split: if_splits)

text \<open>Two accepted signatures with one low-s form are the same bytes.\<close>

lemma verify_not_malleable:
  assumes "prims_ok P" "verify_prehash P pk h sg = Inr ()" "verify_prehash P pk' h' sg' = Inr ()"
    and "map_option (low_s P) (sig_from_slice P sg) = map_option (low_s P) (sig_from_slice P sg')"
  shows "sg = sg'"
proof -
  from assms(2,3) obtain s s' where
    s: "sig_from_slice P sg = Some s" "normalize_s P s = None"
    and s': "sig_from_slice P sg' = Some s'" "normalize_s P s' = None"
    by (auto simp: verify_prehash_Inr)
  with assms(4) have "s = s'" by (simp add: low_s_def)
  with s s' prims_okD(10) [OF assms(1)] show ?thesis by metis
qed

text \<open>The high-s twin of a signature is refused.\<close>

lemma verify_refuses_high_s:
  "sig_from_slice P sg = Some s \<Longrightarrow> normalize_s P s \<noteq> None \<Longrightarrow>
     verify_prehash P pk h sg = Inl Crypto"
  by (auto simp: verify_prehash_def ok_or_def split: option.splits)

section \<open>The signing seam\<close>

text \<open>
  \<open>mid_signer::DeviceSigner\<close>: the two methods the sources call. The locale is the promise every
  signing path rests on: 64 bytes that the family's own verifier accepts under the signer's key.
\<close>

record signer =
  sg_device_id :: rstr
  sg_sign_prehash :: "bytes \<Rightarrow> bytes"

locale device_signer =
  fixes P :: "('sk, 'vk, 'sig) prims"
    and S :: signer
    and pk :: bytes
  assumes hash_length: "length (sha256 P m) = 32"
    and sign_length: "length (sg_sign_prehash S h) = 64"
    and sign_verifies: "length h = 32 \<Longrightarrow> verify_prehash P pk h (sg_sign_prehash S h) = Inr ()"
begin

lemma sign_hash_verifies:
  "verify_prehash P pk (sha256 P m) (sg_sign_prehash S (sha256 P m)) = Inr ()"
  by (simp add: hash_length sign_verifies)

lemma sign_is_low_s:
  assumes "length h = 32"
  shows "\<exists>s. sig_from_slice P (sg_sign_prehash S h) = Some s \<and> normalize_s P s = None"
  using sign_verifies [OF assms] by (auto simp: verify_prehash_Inr)

end

end
