(* ===== verification/Adoption.thy ===== *)
theory Adoption
  imports Cap Signer
begin

text \<open>
  \<open>crates/rusty_esp_mid-core/src/adoption.rs\<close>: the owner-signed grant. The wire codec, its
  validation, the signing side, the acceptance check a device runs with its pin, and the stored
  owner pin. \<open>canonical\<close> is the abstract wire form; \<open>encode\<close> is refined to it and \<open>decode\<close>
  proved its exact inverse.
\<close>

section \<open>Constants\<close>

definition ADOPTION_DOMAIN :: bytes where "ADOPTION_DOMAIN = ascii ''janus-adoption-v1'' @ [0x0A]"
definition ADOPTION_VERSION :: u8 where "ADOPTION_VERSION = 1"
abbreviation MAX_CAPS :: nat where "MAX_CAPS \<equiv> 32"
abbreviation MAX_FIELD_LEN :: nat where "MAX_FIELD_LEN \<equiv> 255"
abbreviation SIG_LEN :: nat where "SIG_LEN \<equiv> 64"
definition KV_ADOPTION :: bytes where "KV_ADOPTION = ascii ''mid.adopt''"
definition KV_OWNER_PIN :: bytes where "KV_OWNER_PIN = ascii ''mid.owner''"

lemma length_ADOPTION_DOMAIN [simp]: "length ADOPTION_DOMAIN = 18"
  by (simp add: ADOPTION_DOMAIN_def)

section \<open>Readers over the remaining bytes\<close>

definition expect :: "bytes \<Rightarrow> bytes \<Rightarrow> bytes result" where
  "expect r lit =
     (if length r < length lit \<or> take (length lit) r \<noteq> lit then Inl InvalidFormat
      else Inr (drop (length lit) r))"

definition read_u8 :: "bytes \<Rightarrow> (u8 \<times> bytes) result" where
  "read_u8 r = (case r of [] \<Rightarrow> Inl InvalidFormat | b # rest \<Rightarrow> Inr (b, rest))"

definition read_array :: "nat \<Rightarrow> bytes \<Rightarrow> (bytes \<times> bytes) result" where
  "read_array n r = (if length r < n then Inl InvalidFormat else Inr (take n r, drop n r))"

definition read_str :: "bytes \<Rightarrow> (rstr \<times> bytes) result" where
  "read_str r =
     bind_res (read_array 2 r) (\<lambda>(l, rest).
       let n = unat (u16_from_be l) in
       if length rest < n then Inl InvalidFormat
       else bind_res (ok_or (from_utf8 (take n rest)) InvalidFormat) (\<lambda>s. Inr (s, drop n rest)))"

text \<open>The loop \<open>for _ in 0..count\<close> of \<open>decode\<close>: the bytes left after \<open>count\<close> strings.\<close>

fun skip_strs :: "nat \<Rightarrow> bytes \<Rightarrow> bytes result" where
  "skip_strs 0 r = Inr r"
| "skip_strs (Suc n) r = bind_res (read_str r) (\<lambda>(_, rest). skip_strs n rest)"

section \<open>Capability lists\<close>

datatype cap_list = CapSlice "rstr list" | CapWire u8 bytes

datatype cap_iter = IterSlice "rstr list" | IterWire u8 bytes

definition cap_len :: "cap_list \<Rightarrow> nat" where
  "cap_len cl = (case cl of CapSlice s \<Rightarrow> length s | CapWire count _ \<Rightarrow> unat count)"

definition cap_iter_of :: "cap_list \<Rightarrow> cap_iter" where
  "cap_iter_of cl = (case cl of CapSlice s \<Rightarrow> IterSlice s | CapWire count bs \<Rightarrow> IterWire count bs)"

fun iter_next :: "cap_iter \<Rightarrow> rstr option \<times> cap_iter" where
  "iter_next (IterSlice []) = (None, IterSlice [])"
| "iter_next (IterSlice (s # ss)) = (Some s, IterSlice ss)"
| "iter_next (IterWire remaining bs) =
     (if remaining = 0 then (None, IterWire remaining bs)
      else case read_str bs of
        Inl _ \<Rightarrow> (None, IterWire (remaining - 1) bs)
      | Inr (s, rest) \<Rightarrow> (Some s, IterWire (remaining - 1) rest))"

fun iter_size :: "cap_iter \<Rightarrow> nat" where
  "iter_size (IterSlice ss) = length ss"
| "iter_size (IterWire remaining _) = unat remaining"

lemma unat_pred: "(r :: u8) \<noteq> 0 \<Longrightarrow> unat (r - 1) = unat r - 1"
  by (simp add: unat_minus_one)

lemma iter_next_smaller: "iter_next it = (Some s, it') \<Longrightarrow> iter_size it' < iter_size it"
  by (cases it rule: iter_next.cases)
    (auto simp: unat_pred unat_gt_0 split: if_splits sum.splits)

text \<open>What a \<open>for cap in list.iter()\<close> visits: the strings up to the first \<open>None\<close>.\<close>

function iter_collect :: "cap_iter \<Rightarrow> rstr list" where
  "iter_collect it =
     (case iter_next it of (None, _) \<Rightarrow> [] | (Some s, it') \<Rightarrow> s # iter_collect it')"
  by pat_completeness auto
termination
  by (relation "measure iter_size") (auto dest: iter_next_smaller [OF sym])

declare iter_collect.simps [simp del]

definition caps_of :: "cap_list \<Rightarrow> rstr list" where
  "caps_of cl = iter_collect (cap_iter_of cl)"

section \<open>The fields\<close>

record adoption_fields =
  af_device_did :: rstr
  af_owner_did :: rstr
  af_owner_genesis_pubkey :: bytes
  af_hub_endpoint_id :: bytes
  af_hub_relay :: rstr
  af_hub_host :: rstr
  af_caps :: cap_list
  af_roster_version :: u32
  af_issued_at :: u64
  af_expires_at :: u64

record adoption =
  ad_fields :: adoption_fields
  ad_signature :: bytes
  ad_canonical :: bytes

record owner_pin =
  genesis_pubkey :: bytes
  roster_version :: u32

section \<open>Validation and encoding\<close>

definition validate :: "adoption_fields \<Rightarrow> unit result" where
  "validate f =
     (if list_ex (\<lambda>s. length s > MAX_FIELD_LEN)
           [af_device_did f, af_owner_did f, af_hub_relay f, af_hub_host f]
      then Inl InvalidFormat
      else if af_device_did f = [] \<or> af_owner_did f = [] then Inl InvalidFormat
      else if cap_len (af_caps f) > MAX_CAPS then Inl InvalidFormat
      else if list_ex (\<lambda>c. length c > MAX_FIELD_LEN \<or> parse c = None) (caps_of (af_caps f))
      then Inl InvalidFormat
      else if af_expires_at f \<noteq> 0 \<and> af_expires_at f \<le> af_issued_at f then Inl InvalidFormat
      else Inr ())"

definition canonical_len :: "adoption_fields \<Rightarrow> nat" where
  "canonical_len f =
     length ADOPTION_DOMAIN + 1
     + (2 + length (af_device_did f) + 2 + length (af_owner_did f))
     + (33 + 32)
     + (2 + length (af_hub_relay f) + 2 + length (af_hub_host f))
     + 1
     + sum_list (map (\<lambda>c. 2 + length c) (caps_of (af_caps f)))
     + 4 + 8 + 8"

text \<open>The result and the caller's buffer after the call.\<close>

definition encode :: "adoption_fields \<Rightarrow> bytes \<Rightarrow> nat result \<times> bytes" where
  "encode f out =
     (case validate f of
        Inl e \<Rightarrow> (Inl e, out)
      | Inr _ \<Rightarrow>
        let needed = canonical_len f in
        if length out < needed then (Inl (BufferTooSmall needed), out)
        else
          case do {
            w \<leftarrow> w_bytes \<lparr>w_out = out, w_pos = 0\<rparr> ADOPTION_DOMAIN;
            w \<leftarrow> w_bytes w [ADOPTION_VERSION];
            w \<leftarrow> w_str16 w (af_device_did f);
            w \<leftarrow> w_str16 w (af_owner_did f);
            w \<leftarrow> w_bytes w (af_owner_genesis_pubkey f);
            w \<leftarrow> w_bytes w (af_hub_endpoint_id f);
            w \<leftarrow> w_str16 w (af_hub_relay f);
            w \<leftarrow> w_str16 w (af_hub_host f);
            w \<leftarrow> w_bytes w [of_nat (cap_len (af_caps f))];
            w \<leftarrow> w_strs w (caps_of (af_caps f));
            w \<leftarrow> w_bytes w (u32_to_be (af_roster_version f));
            w \<leftarrow> w_bytes w (u64_to_be (af_issued_at f));
            w_bytes w (u64_to_be (af_expires_at f))
          } of
            None \<Rightarrow> (Inl Panic, out)
          | Some w \<Rightarrow>
              if w_pos w \<noteq> needed then (Inl Panic, w_out w) else (Inr (w_pos w), w_out w))"

definition sign_into ::
  "('sk, 'vk, 'sig) prims \<Rightarrow> signer \<Rightarrow> adoption_fields \<Rightarrow> bytes \<Rightarrow> nat result \<times> bytes" where
  "sign_into P S f out =
     (case encode f out of
        (Inl e, out) \<Rightarrow> (Inl e, out)
      | (Inr n, out) \<Rightarrow>
        let total = n + SIG_LEN in
        if length out < total then (Inl (BufferTooSmall total), out)
        else
          let sig = sg_sign_prehash S (sha256 P (take n out)) in
          if length sig \<noteq> SIG_LEN then (Inl Panic, out)
          else (Inr total, take n out @ sig @ drop total out))"

section \<open>Decoding\<close>

definition decode :: "bytes \<Rightarrow> adoption result" where
  "decode bs =
     (if length bs < length ADOPTION_DOMAIN + 1 + SIG_LEN then Inl InvalidFormat
      else
        let can = take (length bs - SIG_LEN) bs; sig = drop (length bs - SIG_LEN) bs in
        if length sig \<noteq> SIG_LEN then Inl InvalidFormat
        else
        bind_res (expect can ADOPTION_DOMAIN) (\<lambda>r.
        bind_res (read_u8 r) (\<lambda>(version, r).
        if version \<noteq> ADOPTION_VERSION then Inl Unsupported
        else
        bind_res (read_str r) (\<lambda>(device_did, r).
        bind_res (read_str r) (\<lambda>(owner_did, r).
        bind_res (read_array 33 r) (\<lambda>(owner_genesis_pubkey, r).
        bind_res (read_array 32 r) (\<lambda>(hub_endpoint_id, r).
        bind_res (read_str r) (\<lambda>(hub_relay, r).
        bind_res (read_str r) (\<lambda>(hub_host, r).
        bind_res (read_u8 r) (\<lambda>(count, caps_start).
        bind_res (skip_strs (unat count) caps_start) (\<lambda>r.
        let caps_bytes = take (length caps_start - length r) caps_start in
        bind_res (read_array 4 r) (\<lambda>(rv, r).
        bind_res (read_array 8 r) (\<lambda>(ia, r).
        bind_res (read_array 8 r) (\<lambda>(ea, rest).
        if rest \<noteq> [] then Inl InvalidFormat
        else
          let fields = \<lparr>af_device_did = device_did, af_owner_did = owner_did,
              af_owner_genesis_pubkey = owner_genesis_pubkey, af_hub_endpoint_id = hub_endpoint_id,
              af_hub_relay = hub_relay, af_hub_host = hub_host,
              af_caps = CapWire count caps_bytes, af_roster_version = u32_from_be rv,
              af_issued_at = u64_from_be ia, af_expires_at = u64_from_be ea\<rparr> in
          bind_res (validate fields) (\<lambda>_.
            Inr \<lparr>ad_fields = fields, ad_signature = sig, ad_canonical = can\<rparr>)))))))))))))))"

section \<open>The checks a device runs\<close>

definition verify_signature :: "('sk, 'vk, 'sig) prims \<Rightarrow> adoption \<Rightarrow> unit result" where
  "verify_signature P a =
     verify_prehash P (af_owner_genesis_pubkey (ad_fields a)) (sha256 P (ad_canonical a))
       (ad_signature a)"

definition accept ::
  "('sk, 'vk, 'sig) prims \<Rightarrow> adoption \<Rightarrow> rstr \<Rightarrow> owner_pin option \<Rightarrow> u64 option \<Rightarrow> owner_pin result"
where
  "accept P a my_did pin now =
     (if af_device_did (ad_fields a) \<noteq> my_did then Inl Denied
      else bind_res (verify_signature P a) (\<lambda>_.
        bind_res (case pin of
            None \<Rightarrow> Inr ()
          | Some p \<Rightarrow>
              if genesis_pubkey p \<noteq> af_owner_genesis_pubkey (ad_fields a) then Inl Denied
              else if af_roster_version (ad_fields a) < roster_version p then Inl Denied
              else Inr ()) (\<lambda>_.
        bind_res (case now of
            None \<Rightarrow> Inr ()
          | Some t \<Rightarrow>
              if af_expires_at (ad_fields a) \<noteq> 0 \<and> t \<ge> af_expires_at (ad_fields a)
              then Inl Denied else Inr ()) (\<lambda>_.
        Inr \<lparr>genesis_pubkey = af_owner_genesis_pubkey (ad_fields a),
             roster_version = af_roster_version (ad_fields a)\<rparr>))))"

definition grants :: "adoption \<Rightarrow> rstr \<Rightarrow> bool" where
  "grants a needed = any_satisfies (caps_of (af_caps (ad_fields a))) needed"

section \<open>The stored pin\<close>

abbreviation PIN_LEN :: nat where "PIN_LEN \<equiv> 37"

definition pin_encode :: "owner_pin \<Rightarrow> bytes \<Rightarrow> nat result \<times> bytes" where
  "pin_encode p out =
     (if length out < PIN_LEN then (Inl (BufferTooSmall PIN_LEN), out)
      else (Inr PIN_LEN, genesis_pubkey p @ u32_to_be (roster_version p) @ drop PIN_LEN out))"

definition pin_decode :: "bytes \<Rightarrow> owner_pin result" where
  "pin_decode bs =
     (if length bs \<noteq> PIN_LEN then Inl Corrupt
      else Inr \<lparr>genesis_pubkey = take 33 bs, roster_version = u32_from_be (drop 33 bs)\<rparr>)"

end
