(* ===== verification/Adoption_Wire.thy ===== *)
theory Adoption_Wire
  imports Adoption
begin

text \<open>
  The wire codec of \<open>adoption.rs\<close>: its abstract form \<open>canonical\<close>, the refinement of \<open>encode\<close>
  and \<open>sign_into\<close> to it, and \<open>decode\<close> as its inverse in both directions.
\<close>

section \<open>The readers invert the writers\<close>

lemma read_u8_Cons [simp]: "read_u8 (b # r) = Inr (b, r)"
  by (simp add: read_u8_def)

lemma read_u8_Inr: "read_u8 r = Inr (b, rest) \<longleftrightarrow> r = b # rest"
  by (auto simp: read_u8_def split: list.splits)

lemma read_array_append [simp]: "length a = n \<Longrightarrow> read_array n (a @ r) = Inr (a, r)"
  by (simp add: read_array_def)

lemma read_array_all [simp]: "length a = n \<Longrightarrow> read_array n a = Inr (a, [])"
  by (simp add: read_array_def)

lemma read_array_Inr: "read_array n r = Inr (a, rest) \<longleftrightarrow> r = a @ rest \<and> length a = n"
  by (auto simp: read_array_def)

lemma expect_append [simp]: "expect (lit @ r) lit = Inr r"
  by (simp add: expect_def)

lemma expect_Inr: "expect r lit = Inr rest \<longleftrightarrow> r = lit @ rest"
  by (auto simp: expect_def) (metis append_take_drop_id)

lemma read_str_str16:
  "utf8_valid s \<Longrightarrow> length s < 65536 \<Longrightarrow> read_str (str16 s @ r) = Inr (s, r)"
  by (simp add: read_str_def str16_def unat_len_as_u16 from_utf8_def)

lemma read_str_Inr:
  "read_str r = Inr (s, rest) \<longleftrightarrow> r = str16 s @ rest \<and> utf8_valid s \<and> length s < 65536"
proof
  assume "read_str r = Inr (s, rest)"
  then obtain l tl where l: "r = l @ tl" "length l = 2"
    and n: "unat (u16_from_be l) \<le> length tl"
    and s: "s = take (unat (u16_from_be l)) tl" "utf8_valid s"
    and rest: "rest = drop (unat (u16_from_be l)) tl"
    by (auto simp: read_str_def result_iffs read_array_Inr Let_def split: if_splits)
  have len: "length s = unat (u16_from_be l)" using s(1) n by simp
  then have small: "length s < 65536" using unat_u16_less [of "u16_from_be l"] by simp
  have "len_as_u16 s = u16_from_be l" by (simp add: len_as_u16_def len)
  then have "l = u16_to_be (len_as_u16 s)" using to_from_be(1) [OF l(2)] by simp
  then show "r = str16 s @ rest \<and> utf8_valid s \<and> length s < 65536"
    using l(1) s rest small by (simp add: str16_def)
qed (auto simp: read_str_str16)

lemma read_errors:
  "read_u8 r = Inl e \<Longrightarrow> e = InvalidFormat"
  "read_array n r = Inl e \<Longrightarrow> e = InvalidFormat"
  "read_str r = Inl e \<Longrightarrow> e = InvalidFormat"
  "expect r lit = Inl e \<Longrightarrow> e = InvalidFormat"
  "skip_strs n r = Inl e \<Longrightarrow> e = InvalidFormat"
proof -
  show "read_u8 r = Inl e \<Longrightarrow> e = InvalidFormat"
    by (auto simp: read_u8_def split: list.splits)
  show arr: "read_array n r = Inl e \<Longrightarrow> e = InvalidFormat" for n and r :: bytes
    by (auto simp: read_array_def split: if_splits)
  show str: "read_str r = Inl e \<Longrightarrow> e = InvalidFormat" for r
    by (auto simp: read_str_def result_iffs Let_def split: if_splits dest: arr)
  show "expect r lit = Inl e \<Longrightarrow> e = InvalidFormat"
    by (auto simp: expect_def split: if_splits)
  show "skip_strs n r = Inl e \<Longrightarrow> e = InvalidFormat"
    by (induction n r rule: skip_strs.induct) (auto simp: bind_res_eq_Inl dest: str)
qed

section \<open>Capability lists on the wire\<close>

abbreviation wire_strs :: "rstr list \<Rightarrow> bytes" where
  "wire_strs ss \<equiv> concat (map str16 ss)"

lemma length_wire_strs: "length (wire_strs ss) = sum_list (map (\<lambda>c. 2 + length c) ss)"
  by (induction ss) simp_all

lemma iter_collect_slice [simp]: "iter_collect (IterSlice ss) = ss"
  by (induction ss) (simp_all add: iter_collect.simps)

lemma caps_of_slice [simp]: "caps_of (CapSlice ss) = ss"
  by (simp add: caps_of_def cap_iter_of_def)

lemma iter_collect_wire:
  assumes "\<forall>s \<in> set ss. utf8_valid s \<and> length s < 65536" "length ss = unat n"
  shows "iter_collect (IterWire n (wire_strs ss @ r)) = ss"
  using assms
proof (induction ss arbitrary: n)
  case Nil
  then show ?case by (simp add: iter_collect.simps unat_eq_zero)
next
  case (Cons s ss)
  then have n0: "n \<noteq> 0" by auto
  with Cons.prems have "length ss = unat (n - 1)" by (simp add: unat_pred)
  with Cons n0 show ?case
    by (subst iter_collect.simps) (simp add: read_str_str16)
qed

lemma caps_of_wire:
  assumes "\<forall>s \<in> set ss. utf8_valid s \<and> length s < 65536" "length ss = unat n"
  shows "caps_of (CapWire n (wire_strs ss)) = ss"
  using iter_collect_wire [OF assms, of "[]"] by (simp add: caps_of_def cap_iter_of_def)

lemma skip_strs_wire:
  assumes "\<forall>s \<in> set ss. utf8_valid s \<and> length s < 65536"
  shows "skip_strs (length ss) (wire_strs ss @ r) = Inr r"
  using assms by (induction ss) (simp_all add: read_str_str16)

lemma skip_strs_Inr:
  "skip_strs n b = Inr r \<Longrightarrow>
     \<exists>ss. length ss = n \<and> b = wire_strs ss @ r \<and> (\<forall>s \<in> set ss. utf8_valid s \<and> length s < 65536)"
proof (induction n arbitrary: b)
  case 0
  then show ?case by simp
next
  case (Suc n)
  then obtain s rest where s: "b = str16 s @ rest" "utf8_valid s" "length s < 65536"
    and rest: "skip_strs n rest = Inr r"
    by (auto simp: bind_res_eq_Inr read_str_Inr)
  from Suc.IH [OF rest] obtain ss where "length ss = n" "rest = wire_strs ss @ r"
    "\<forall>s \<in> set ss. utf8_valid s \<and> length s < 65536" by blast
  with s show ?case by (intro exI [of _ "s # ss"]) simp
qed

section \<open>The abstract wire form\<close>

definition canonical :: "adoption_fields \<Rightarrow> bytes" where
  "canonical f =
     ADOPTION_DOMAIN @ [ADOPTION_VERSION] @ str16 (af_device_did f) @ str16 (af_owner_did f)
     @ af_owner_genesis_pubkey f @ af_hub_endpoint_id f
     @ str16 (af_hub_relay f) @ str16 (af_hub_host f)
     @ [of_nat (cap_len (af_caps f))] @ wire_strs (caps_of (af_caps f))
     @ u32_to_be (af_roster_version f) @ u64_to_be (af_issued_at f) @ u64_to_be (af_expires_at f)"

text \<open>The fixed array lengths of the struct's type.\<close>

definition arrays_ok :: "adoption_fields \<Rightarrow> bool" where
  "arrays_ok f \<longleftrightarrow> length (af_owner_genesis_pubkey f) = 33 \<and> length (af_hub_endpoint_id f) = 32"

text \<open>The type of the fields in full: every \<open>&str\<close> is UTF-8, and a \<open>CapList::Wire\<close> holds exactly
  the \<open>count\<close> strings its bytes encode ("already validated").\<close>

definition fields_wf :: "adoption_fields \<Rightarrow> bool" where
  "fields_wf f \<longleftrightarrow>
     arrays_ok f \<and>
     utf8_valid (af_device_did f) \<and> utf8_valid (af_owner_did f) \<and>
     utf8_valid (af_hub_relay f) \<and> utf8_valid (af_hub_host f) \<and>
     (\<forall>c \<in> set (caps_of (af_caps f)). utf8_valid c) \<and>
     cap_len (af_caps f) = length (caps_of (af_caps f)) \<and>
     (\<forall>n bs. af_caps f = CapWire n bs \<longrightarrow> bs = wire_strs (caps_of (af_caps f)))"

lemma length_canonical: "arrays_ok f \<Longrightarrow> length (canonical f) = canonical_len f"
  by (simp add: canonical_def canonical_len_def arrays_ok_def length_wire_strs)

lemma validate_Inr:
  "validate f = Inr u \<longleftrightarrow>
     length (af_device_did f) \<le> MAX_FIELD_LEN \<and> length (af_owner_did f) \<le> MAX_FIELD_LEN \<and>
     length (af_hub_relay f) \<le> MAX_FIELD_LEN \<and> length (af_hub_host f) \<le> MAX_FIELD_LEN \<and>
     af_device_did f \<noteq> [] \<and> af_owner_did f \<noteq> [] \<and>
     cap_len (af_caps f) \<le> MAX_CAPS \<and>
     (\<forall>c \<in> set (caps_of (af_caps f)). length c \<le> MAX_FIELD_LEN \<and> parse c \<noteq> None) \<and>
     (af_expires_at f = 0 \<or> af_issued_at f < af_expires_at f)"
  by (auto simp: validate_def list_ex_iff not_le not_less)

lemma validate_error: "validate f = Inl e \<Longrightarrow> e = InvalidFormat"
  by (auto simp: validate_def split: if_splits)

section \<open>Encoding refines the wire form\<close>

lemma encode_valid:
  assumes "arrays_ok f" "validate f = Inr ()"
  shows "encode f out =
    (if length out < canonical_len f then (Inl (BufferTooSmall (canonical_len f)), out)
     else (Inr (canonical_len f), canonical f @ drop (canonical_len f) out))"
proof (cases "length out < canonical_len f")
  case True
  with assms show ?thesis by (simp add: encode_def)
next
  case False
  note len = False [unfolded canonical_len_def, folded length_wire_strs, simplified]
  have can: "canonical_len f = length (canonical f)"
    using assms(1) by (simp add: length_canonical)
  show ?thesis
    using assms False len
    by (simp add: encode_def mk_writer_init w_strs_mk arrays_ok_def)
      (simp add: can canonical_def arrays_ok_def add_ac)
qed

lemma encode_invalid: "validate f = Inl e \<Longrightarrow> encode f out = (Inl e, out)"
  by (simp add: encode_def)

lemma encode_cases:
  assumes "arrays_ok f"
  shows "encode f out =
    (case validate f of
       Inl e \<Rightarrow> (Inl e, out)
     | Inr _ \<Rightarrow>
         if length out < canonical_len f then (Inl (BufferTooSmall (canonical_len f)), out)
         else (Inr (canonical_len f), canonical f @ drop (canonical_len f) out))"
  using assms by (cases "validate f") (simp_all add: encode_invalid encode_valid)

lemma sign_into_valid:
  assumes "arrays_ok f" "validate f = Inr ()" "canonical_len f + SIG_LEN \<le> length out"
    and "length (sg_sign_prehash S (sha256 P (canonical f))) = SIG_LEN"
  shows "sign_into P S f out =
    (Inr (canonical_len f + SIG_LEN),
     canonical f @ sg_sign_prehash S (sha256 P (canonical f)) @ drop (canonical_len f + SIG_LEN) out)"
  using assms length_canonical [OF assms(1)]
  by (simp add: sign_into_def encode_valid [OF assms(1,2)] Let_def add.commute)

section \<open>Decoding inverts the wire form\<close>

definition wire_view :: "adoption_fields \<Rightarrow> adoption_fields" where
  "wire_view f = f\<lparr>af_caps := CapWire (of_nat (cap_len (af_caps f))) (wire_strs (caps_of (af_caps f)))\<rparr>"

lemma small_count: "n \<le> MAX_CAPS \<Longrightarrow> unat (of_nat n :: u8) = n"
  by (simp add: unat_u8_of_nat)

lemma caps_of_wire_view:
  assumes "fields_wf f" "validate f = Inr ()"
  shows "caps_of (af_caps (wire_view f)) = caps_of (af_caps f)"
    and "cap_len (af_caps (wire_view f)) = cap_len (af_caps f)"
proof -
  let ?n = "of_nat (cap_len (af_caps f)) :: u8"
  have n: "unat ?n = cap_len (af_caps f)"
    using assms(2) by (auto simp: validate_Inr small_count)
  have ss: "\<forall>s \<in> set (caps_of (af_caps f)). utf8_valid s \<and> length s < 65536"
    using assms by (fastforce simp: fields_wf_def validate_Inr)
  show "caps_of (af_caps (wire_view f)) = caps_of (af_caps f)"
    unfolding wire_view_def
    using assms(1) caps_of_wire [OF ss, of ?n] n by (simp add: fields_wf_def)
  show "cap_len (af_caps (wire_view f)) = cap_len (af_caps f)"
    using n by (simp add: wire_view_def cap_len_def)
qed

lemma validate_wire_view:
  assumes "fields_wf f" "validate f = Inr ()"
  shows "validate (wire_view f) = Inr ()"
  using assms caps_of_wire_view [OF assms]
  by (simp add: validate_Inr) (simp add: wire_view_def)

lemma decode_canonical:
  assumes wf: "fields_wf f" and valid: "validate f = Inr ()" and sig: "length sig = SIG_LEN"
  shows "decode (canonical f @ sig) =
    Inr \<lparr>ad_fields = wire_view f, ad_signature = sig, ad_canonical = canonical f\<rparr>"
proof -
  let ?n = "of_nat (cap_len (af_caps f)) :: u8" and ?ss = "caps_of (af_caps f)"
  have lens: "length (af_device_did f) < 65536" "length (af_owner_did f) < 65536"
    "length (af_hub_relay f) < 65536" "length (af_hub_host f) < 65536"
    and u: "utf8_valid (af_device_did f)" "utf8_valid (af_owner_did f)"
    "utf8_valid (af_hub_relay f)" "utf8_valid (af_hub_host f)"
    and arr: "length (af_owner_genesis_pubkey f) = 33" "length (af_hub_endpoint_id f) = 32"
    using wf valid by (auto simp: fields_wf_def validate_Inr arrays_ok_def)
  have ss: "\<forall>s \<in> set ?ss. utf8_valid s \<and> length s < 65536"
    using wf valid by (fastforce simp: fields_wf_def validate_Inr)
  have n: "unat ?n = length ?ss"
    using wf valid by (auto simp: validate_Inr small_count fields_wf_def)
  have view: "\<lparr>af_device_did = af_device_did f, af_owner_did = af_owner_did f,
      af_owner_genesis_pubkey = af_owner_genesis_pubkey f, af_hub_endpoint_id = af_hub_endpoint_id f,
      af_hub_relay = af_hub_relay f, af_hub_host = af_hub_host f,
      af_caps = CapWire ?n (wire_strs ?ss), af_roster_version = af_roster_version f,
      af_issued_at = af_issued_at f, af_expires_at = af_expires_at f\<rparr> = wire_view f"
    by (simp add: wire_view_def)
  have long: "19 \<le> length (canonical f)"
    by (simp add: canonical_def)
  have parts: "take (length (canonical f @ sig) - SIG_LEN) (canonical f @ sig) = canonical f"
    "drop (length (canonical f @ sig) - SIG_LEN) (canonical f @ sig) = sig"
    using sig by simp_all
  have start: "expect (canonical f) ADOPTION_DOMAIN =
      Inr (ADOPTION_VERSION # str16 (af_device_did f) @ str16 (af_owner_did f)
        @ af_owner_genesis_pubkey f @ af_hub_endpoint_id f
        @ str16 (af_hub_relay f) @ str16 (af_hub_host f) @ ?n # wire_strs ?ss
        @ u32_to_be (af_roster_version f) @ u64_to_be (af_issued_at f) @ u64_to_be (af_expires_at f))"
    by (simp add: canonical_def)
  show ?thesis
    unfolding decode_def parts Let_def start
    using sig long validate_wire_view [OF wf valid]
    by (simp add: lens u arr read_str_str16 skip_strs_wire [OF ss] n view)
qed

lemma decode_Inr:
  assumes "decode bs = Inr a"
  shows "fields_wf (ad_fields a)" and "validate (ad_fields a) = Inr ()"
    and "ad_canonical a = canonical (ad_fields a)" and "length (ad_signature a) = SIG_LEN"
    and "bs = canonical (ad_fields a) @ ad_signature a"
    and "wire_view (ad_fields a) = ad_fields a"
proof -
  let ?can = "take (length bs - SIG_LEN) bs"
  from assms obtain dev own pub ep rel host n cs r rv ia ea where
    can: "?can = ADOPTION_DOMAIN @ [ADOPTION_VERSION] @ str16 dev @ str16 own @ pub @ ep @
        str16 rel @ str16 host @ n # cs" and
    sk: "skip_strs (unat n) cs = Inr r" and r: "r = rv @ ia @ ea" and
    lens: "length pub = 33" "length ep = 32" "length rv = 4" "length ia = 8" "length ea = 8" and
    u: "utf8_valid dev" "utf8_valid own" "utf8_valid rel" "utf8_valid host" and
    f: "ad_fields a = \<lparr>af_device_did = dev, af_owner_did = own, af_owner_genesis_pubkey = pub,
        af_hub_endpoint_id = ep, af_hub_relay = rel, af_hub_host = host,
        af_caps = CapWire n (take (length cs - length r) cs), af_roster_version = u32_from_be rv,
        af_issued_at = u64_from_be ia, af_expires_at = u64_from_be ea\<rparr>" and
    v: "validate (ad_fields a) = Inr ()" and
    sig: "ad_signature a = drop (length bs - SIG_LEN) bs" "length (ad_signature a) = SIG_LEN" and
    ac: "ad_canonical a = ?can"
    by (auto simp: decode_def Let_def result_iffs expect_Inr read_u8_Inr read_str_Inr
        read_array_Inr split: if_splits)
  from skip_strs_Inr [OF sk] obtain ss where
    ss: "length ss = unat n" "cs = wire_strs ss @ r" "\<forall>s \<in> set ss. utf8_valid s \<and> length s < 65536"
    by blast
  have caps: "af_caps (ad_fields a) = CapWire n (wire_strs ss)"
    using f ss(2) by simp
  have co: "caps_of (af_caps (ad_fields a)) = ss"
    unfolding caps by (rule caps_of_wire [OF ss(3,1)])
  have cl: "cap_len (af_caps (ad_fields a)) = unat n"
    by (simp add: caps cap_len_def)
  show wf: "fields_wf (ad_fields a)"
    using f u lens co cl ss caps by (auto simp: fields_wf_def arrays_ok_def)
  show "validate (ad_fields a) = Inr ()" by (fact v)
  have "canonical (ad_fields a) = ?can"
    using f lens r ss(2) co cl can
    by (simp add: canonical_def to_from_be)
  then show c: "ad_canonical a = canonical (ad_fields a)" using ac by simp
  show "length (ad_signature a) = SIG_LEN" by (fact sig)
  show "bs = canonical (ad_fields a) @ ad_signature a"
    using c ac sig(1) by (metis append_take_drop_id)
  show "wire_view (ad_fields a) = ad_fields a"
    using caps co cl by (simp add: wire_view_def f)
qed

lemma decode_error: "decode bs = Inl e \<Longrightarrow> e = InvalidFormat \<or> e = Unsupported"
  by (auto simp: decode_def Let_def result_iffs split: if_splits
      dest: read_errors validate_error)

text \<open>One wire form, one set of fields: what a signature covers determines every field.\<close>

lemma canonical_inj:
  assumes "fields_wf f" "validate f = Inr ()" "fields_wf g" "validate g = Inr ()"
    and "canonical f = canonical g"
  shows "wire_view f = wire_view g"
proof -
  have "decode (canonical f @ replicate SIG_LEN 0) = decode (canonical g @ replicate SIG_LEN 0)"
    using assms(5) by simp
  then show ?thesis
    by (simp add: decode_canonical [OF assms(1,2)] decode_canonical [OF assms(3,4)])
qed

text \<open>No wire form is the beginning of another: a grant cut short or run on does not decode.\<close>

lemma canonical_prefix_free:
  assumes f: "fields_wf f" "validate f = Inr ()" and g: "fields_wf g" "validate g = Inr ()"
    and eq: "canonical f @ x = canonical g @ y"
  shows "canonical f = canonical g \<and> x = y"
proof -
  note lens = f g [unfolded validate_Inr]
  have l: "length (af_device_did h) < 65536 \<and> length (af_owner_did h) < 65536 \<and> length (af_hub_relay h) < 65536 \<and>
      length (af_hub_host h) < 65536" "length (af_owner_genesis_pubkey h) = 33 \<and> length (af_hub_endpoint_id h) = 32"
      "\<forall>s \<in> set (caps_of (af_caps h)). utf8_valid s \<and> length s < 65536"
      "unat (of_nat (cap_len (af_caps h)) :: u8) = length (caps_of (af_caps h))" if "h \<in> {f, g}" for h
    using that f g by (fastforce simp: fields_wf_def validate_Inr arrays_ok_def small_count)+
  let ?tail = "\<lambda>h z. u32_to_be (af_roster_version h) @ u64_to_be (af_issued_at h) @ u64_to_be (af_expires_at h) @ z"
  let ?count = "\<lambda>h. of_nat (cap_len (af_caps h)) :: u8"
  let ?caps = "\<lambda>h z. ?count h # wire_strs (caps_of (af_caps h)) @ ?tail h z"
  let ?hub = "\<lambda>h z. str16 (af_hub_relay h) @ str16 (af_hub_host h) @ ?caps h z"
  let ?keys = "\<lambda>h z. af_owner_genesis_pubkey h @ af_hub_endpoint_id h @ ?hub h z"
  have "str16 (af_device_did f) @ str16 (af_owner_did f) @ ?keys f x =
      str16 (af_device_did g) @ str16 (af_owner_did g) @ ?keys g y"
    using eq by (simp add: canonical_def)
  from str16_append_inj [OF this] l(1) have
    d: "af_device_did f = af_device_did g" "str16 (af_owner_did f) @ ?keys f x = str16 (af_owner_did g) @ ?keys g y"
    by blast+
  from str16_append_inj [OF d(2)] l(1) have o: "af_owner_did f = af_owner_did g" "?keys f x = ?keys g y" by blast+
  from o(2) l(2) [of f] l(2) [of g] have k: "af_owner_genesis_pubkey f = af_owner_genesis_pubkey g"
    "af_hub_endpoint_id f = af_hub_endpoint_id g" "?hub f x = ?hub g y" by simp_all
  from str16_append_inj [OF k(3)] l(1) have
    r: "af_hub_relay f = af_hub_relay g" "str16 (af_hub_host f) @ ?caps f x = str16 (af_hub_host g) @ ?caps g y"
    by blast+
  from str16_append_inj [OF r(2)] l(1) have h: "af_hub_host f = af_hub_host g" "?caps f x = ?caps g y" by blast+
  then have c: "?count f = ?count g" "wire_strs (caps_of (af_caps f)) @ ?tail f x = wire_strs (caps_of (af_caps g)) @ ?tail g y"
    by simp_all
  then have "length (caps_of (af_caps f)) = length (caps_of (af_caps g))"
    using l(4) [of f] l(4) [of g] by simp
  with skip_strs_wire [OF l(3) [of f], of "?tail f x"] skip_strs_wire [OF l(3) [of g], of "?tail g y"] c(2)
  have t: "?tail f x = ?tail g y" by simp
  with c(2) have w: "wire_strs (caps_of (af_caps f)) = wire_strs (caps_of (af_caps g))" by simp
  from t have "x = y" "af_roster_version f = af_roster_version g" "af_issued_at f = af_issued_at g"
    "af_expires_at f = af_expires_at g" by simp_all
  with d(1) o(1) k(1,2) r(1) h(1) c(1) w show ?thesis by (simp add: canonical_def)
qed

lemma decode_cut_short:
  assumes "decode bs = Inr a" "n < length bs"
  shows "\<exists>e. decode (take n bs) = Inl e"
proof (cases "decode (take n bs)")
  case (Inr b)
  note da = decode_Inr [OF assms(1)] and db = decode_Inr [OF Inr]
  have "canonical (ad_fields b) @ ad_signature b @ drop n bs = canonical (ad_fields a) @ ad_signature a"
    using da(5) db(5) by (metis append_assoc append_take_drop_id)
  from canonical_prefix_free [OF db(1,2) da(1,2) this] have "ad_signature b @ drop n bs = ad_signature a" by simp
  then have "length (ad_signature b) + (length bs - n) = length (ad_signature a)" by (metis length_append length_drop)
  with da(4) db(4) assms(2) show ?thesis by simp
qed blast

lemma decode_unsupported:
  assumes "decode bs = Inl Unsupported"
  obtains v where "bs ! 18 = v" "v \<noteq> ADOPTION_VERSION"
proof -
  from assms obtain v r where v: "take (length bs - SIG_LEN) bs = ADOPTION_DOMAIN @ v # r" "v \<noteq> ADOPTION_VERSION"
    by (auto simp: decode_def Let_def result_iffs expect_Inr read_u8_Inr split: if_splits
        dest: read_errors validate_error)
  have "18 < length (take (length bs - SIG_LEN) bs)" unfolding v(1) by simp
  then have "bs ! 18 = take (length bs - SIG_LEN) bs ! 18" by simp
  also have "\<dots> = v" unfolding v(1) by (simp add: nth_append)
  finally show thesis using v(2) by (intro that)
qed

end
