(* ===== verification/Adoption_Accept.thy ===== *)
theory Adoption_Accept
  imports Adoption_Wire
begin

text \<open>
  The acceptance check of \<open>adoption.rs\<close>, the stored pin's codec, and trust on first use as an
  interface: whatever takes owners under the rule "the pinned key, a roster version not older"
  can never be rebound. \<open>Adoption::accept\<close> provides it here; the settings path provides it in
  its own theory.
\<close>

section \<open>The pin's codec\<close>

lemma pin_decode_encode:
  "length (genesis_pubkey p) = 33 \<Longrightarrow>
     pin_decode (genesis_pubkey p @ u32_to_be (roster_version p)) = Inr p"
  by (simp add: pin_decode_def)

lemma pin_encode_fits:
  "length out = PIN_LEN \<Longrightarrow>
     pin_encode p out = (Inr PIN_LEN, genesis_pubkey p @ u32_to_be (roster_version p))"
  by (simp add: pin_encode_def)

lemma pin_decode_Inr:
  "pin_decode bs = Inr p \<longleftrightarrow>
     length (genesis_pubkey p) = 33 \<and> bs = genesis_pubkey p @ u32_to_be (roster_version p)"
proof
  assume "pin_decode bs = Inr p"
  then have len: "length bs = PIN_LEN"
    and p: "genesis_pubkey p = take 33 bs" "roster_version p = u32_from_be (drop 33 bs)"
    by (auto simp: pin_decode_def split: if_splits)
  have "u32_to_be (roster_version p) = drop 33 bs"
    using len p(2) to_from_be(2) [of "drop 33 bs"] by simp
  with len p(1) show "length (genesis_pubkey p) = 33 \<and>
      bs = genesis_pubkey p @ u32_to_be (roster_version p)"
    by simp
qed (auto simp: pin_decode_encode)

section \<open>What acceptance means\<close>

definition pin_allows :: "owner_pin option \<Rightarrow> bytes \<Rightarrow> u32 \<Rightarrow> bool" where
  "pin_allows pin key version \<longleftrightarrow>
     (case pin of None \<Rightarrow> True
      | Some p \<Rightarrow> genesis_pubkey p = key \<and> roster_version p \<le> version)"

definition unexpired :: "u64 \<Rightarrow> u64 option \<Rightarrow> bool" where
  "unexpired expires now \<longleftrightarrow>
     (case now of None \<Rightarrow> True | Some t \<Rightarrow> expires = 0 \<or> t < expires)"

lemma accept_Inr:
  "accept P a my_did pin now = Inr q \<longleftrightarrow>
     af_device_did (ad_fields a) = my_did \<and>
     verify_signature P a = Inr () \<and>
     pin_allows pin (af_owner_genesis_pubkey (ad_fields a)) (af_roster_version (ad_fields a)) \<and>
     unexpired (af_expires_at (ad_fields a)) now \<and>
     q = \<lparr>genesis_pubkey = af_owner_genesis_pubkey (ad_fields a),
          roster_version = af_roster_version (ad_fields a)\<rparr>"
  by (cases pin; cases now)
    (auto simp: accept_def result_iffs pin_allows_def unexpired_def not_le not_less)

lemma accept_error:
  "accept P a my_did pin now = Inl e \<Longrightarrow> e = Denied \<or> e = Crypto"
  by (cases pin; cases now)
    (auto simp: accept_def result_iffs verify_signature_def split: if_splits
       dest: verify_prehash_error)

lemma signed_accepted:
  assumes S: "device_signer P S (af_owner_genesis_pubkey f)"
    and f: "fields_wf f" "validate f = Inr ()"
    and room: "canonical_len f + SIG_LEN \<le> length out"
  obtains out' a where
    "sign_into P S f out = (Inr (canonical_len f + SIG_LEN), out')"
    "decode (take (canonical_len f + SIG_LEN) out') = Inr a"
    "ad_fields a = wire_view f"
    "verify_signature P a = Inr ()"
proof -
  let ?sig = "sg_sign_prehash S (sha256 P (canonical f))"
  let ?a = "\<lparr>ad_fields = wire_view f, ad_signature = ?sig, ad_canonical = canonical f\<rparr>"
  have sig: "length ?sig = SIG_LEN" by (rule device_signer.sign_length [OF S])
  have arr: "arrays_ok f" using f(1) by (simp add: fields_wf_def)
  note run = sign_into_valid [OF arr f(2) room sig]
  have "decode (take (canonical_len f + SIG_LEN)
      (canonical f @ ?sig @ drop (canonical_len f + SIG_LEN) out)) = Inr ?a"
    using decode_canonical [OF f sig] length_canonical [OF arr] sig by simp
  moreover have "verify_signature P ?a = Inr ()"
    using device_signer.sign_hash_verifies [OF S, of "canonical f"]
    by (simp add: verify_signature_def wire_view_def)
  ultimately show thesis using run that by (metis adoption.select_convs(1))
qed

section \<open>Trust on first use\<close>

text \<open>
  A device that stores the pin its check returns: an offer is taken, and the pin replaced, or
  refused, and nothing changes. \<open>admit e pin\<close> is the check on the offer \<open>e\<close>.
\<close>

inductive pin_step ::
  "('e \<Rightarrow> owner_pin option \<Rightarrow> owner_pin option) \<Rightarrow> owner_pin option \<Rightarrow> owner_pin option \<Rightarrow> bool"
  for admit
where
  taken: "admit e pin = Some q \<Longrightarrow> pin_step admit pin (Some q)"
| refused: "admit e pin = None \<Longrightarrow> pin_step admit pin pin"

inductive_cases pin_stepE: "pin_step admit pin pin'"

locale tofu =
  fixes admit :: "'e \<Rightarrow> owner_pin option \<Rightarrow> owner_pin option"
  assumes admit_pinned: "admit e (Some p) = Some q \<Longrightarrow>
    genesis_pubkey q = genesis_pubkey p \<and> roster_version p \<le> roster_version q"
begin

lemma step_pinned:
  assumes "pin_step admit (Some p) pin"
  shows "\<exists>q. pin = Some q \<and> genesis_pubkey q = genesis_pubkey p \<and> roster_version p \<le> roster_version q"
  using assms by (rule pin_stepE) (auto dest: admit_pinned)

text \<open>Once pinned, no sequence of offers changes the owner or lowers the version.\<close>

lemma run_pinned:
  assumes "(pin_step admit)\<^sup>*\<^sup>* (Some p) pin"
  shows "\<exists>q. pin = Some q \<and> genesis_pubkey q = genesis_pubkey p \<and> roster_version p \<le> roster_version q"
  using assms
proof (induction rule: rtranclp_induct)
  case base
  then show ?case by simp
next
  case (step y z)
  then show ?case by (metis order_trans step_pinned)
qed

end

definition offer_adoption ::
  "('sk, 'vk, 'sig) prims \<Rightarrow> rstr \<Rightarrow> bytes \<times> u64 option \<Rightarrow> owner_pin option \<Rightarrow> owner_pin option"
where
  "offer_adoption P my_did = (\<lambda>(bs, now) pin.
     case decode bs of
       Inl _ \<Rightarrow> None
     | Inr a \<Rightarrow> (case accept P a my_did pin now of Inl _ \<Rightarrow> None | Inr q \<Rightarrow> Some q))"

lemma offer_adoption_Some:
  "offer_adoption P my_did (bs, now) pin = Some q \<longleftrightarrow>
     (\<exists>a. decode bs = Inr a \<and> accept P a my_did pin now = Inr q)"
  by (auto simp: offer_adoption_def split: sum.splits)

interpretation adopt_tofu: tofu "offer_adoption P my_did" for P my_did
  by unfold_locales (auto simp: offer_adoption_Some accept_Inr pin_allows_def)

end
