(* ===== verification/Did.thy ===== *)
theory Did
  imports Signer
begin

text \<open>
  \<open>crates/rusty_esp_mid-core/src/did.rs\<close>: the self-certifying identifier
  \<open>did:mata:<base58btc of the 33-byte compressed key>\<close> and its multibase form. The \<open>bs58\<close>
  crate is a parameter: \<open>b58_encode b n\<close> is \<open>bs58::encode(b).onto(&mut buf)\<close> with
  \<open>buf.len() = n\<close> (\<open>None\<close> when it does not fit), \<open>b58_decode t n\<close> likewise for decoding.
\<close>

section \<open>The base58 codec\<close>

record bs58 =
  b58_encode :: "bytes \<Rightarrow> nat \<Rightarrow> bytes option"
  b58_decode :: "bytes \<Rightarrow> nat \<Rightarrow> bytes option"

abbreviation PUBKEY_LEN :: nat where "PUBKEY_LEN \<equiv> 33"
abbreviation MAX_BASE58_LEN :: nat where "MAX_BASE58_LEN \<equiv> 46"

text \<open>
  Base58btc as documented: the text of 33 bytes is ASCII, not empty and at most 46 characters
  long; it is written whenever it fits; and encoding and decoding are inverse to each other.
\<close>

definition bs58_ok :: "bs58 \<Rightarrow> bool" where
  "bs58_ok B \<longleftrightarrow>
     (\<forall>b. length b = PUBKEY_LEN \<longrightarrow>
        (\<exists>t. t \<noteq> [] \<and> length t \<le> MAX_BASE58_LEN \<and> (\<forall>x \<in> set t. x < 0x80) \<and>
             (\<forall>n. b58_encode B b n = (if length t \<le> n then Some t else None)) \<and>
             b58_decode B t (PUBKEY_LEN + 1) = Some b)) \<and>
     (\<forall>t b. b58_decode B t (PUBKEY_LEN + 1) = Some b \<longrightarrow> length b = PUBKEY_LEN \<longrightarrow>
        b58_encode B b (length t) = Some t)"

section \<open>The identifier\<close>

record did =
  did_pubkey :: bytes

definition DID_PREFIX :: bytes where "DID_PREFIX = ascii ''did:mata:''"
definition MULTIBASE_Z :: bytes where "MULTIBASE_Z = ascii ''z''"

definition MAX_DID_LEN :: nat where "MAX_DID_LEN = length DID_PREFIX + MAX_BASE58_LEN"
definition MAX_MULTIBASE_LEN :: nat where "MAX_MULTIBASE_LEN = 1 + MAX_BASE58_LEN"

definition from_pubkey :: "('sk, 'vk, 'sig) prims \<Rightarrow> bytes \<Rightarrow> did result" where
  "from_pubkey P pk =
     (if length pk \<noteq> PUBKEY_LEN then Inl InvalidFormat
      else if pk ! 0 \<noteq> 0x02 \<and> pk ! 0 \<noteq> 0x03 then Inl InvalidFormat
      else bind_res (ok_or (sec1_decode P pk) Crypto) (\<lambda>_.
        Inr \<lparr>did_pubkey = pk\<rparr>))"

definition from_verifying_key :: "('sk, 'vk, 'sig) prims \<Rightarrow> 'vk \<Rightarrow> did" where
  "from_verifying_key P key = \<lparr>did_pubkey = sec1_compressed P key\<rparr>"

definition write_with_prefix :: "bs58 \<Rightarrow> bytes \<Rightarrow> bytes \<Rightarrow> nat \<Rightarrow> rstr result" where
  "write_with_prefix B prefix bs n =
     (let needed_min = length prefix + 1 in
      if n < needed_min then Inl (BufferTooSmall needed_min)
      else bind_res
        (ok_or (b58_encode B bs (n - length prefix)) (BufferTooSmall (length prefix + MAX_BASE58_LEN)))
        (\<lambda>t. ok_or (from_utf8 (prefix @ t)) Corrupt))"

definition did_write :: "bs58 \<Rightarrow> did \<Rightarrow> nat \<Rightarrow> rstr result" where
  "did_write B d n = write_with_prefix B DID_PREFIX (did_pubkey d) n"

definition write_multibase :: "bs58 \<Rightarrow> did \<Rightarrow> nat \<Rightarrow> rstr result" where
  "write_multibase B d n = write_with_prefix B MULTIBASE_Z (did_pubkey d) n"

definition from_base58 :: "('sk, 'vk, 'sig) prims \<Rightarrow> bs58 \<Rightarrow> rstr \<Rightarrow> did result" where
  "from_base58 P B suffix =
     (if suffix = [] \<or> length suffix > MAX_BASE58_LEN then Inl InvalidFormat
      else bind_res (ok_or (b58_decode B suffix (PUBKEY_LEN + 1)) InvalidFormat) (\<lambda>buf.
        if length buf \<noteq> PUBKEY_LEN then Inl InvalidFormat
        else from_pubkey P (take PUBKEY_LEN buf)))"

definition did_parse :: "('sk, 'vk, 'sig) prims \<Rightarrow> bs58 \<Rightarrow> rstr \<Rightarrow> did result" where
  "did_parse P B s =
     bind_res (ok_or (strip_prefix DID_PREFIX s) InvalidFormat) (from_base58 P B)"

definition parse_multibase :: "('sk, 'vk, 'sig) prims \<Rightarrow> bs58 \<Rightarrow> rstr \<Rightarrow> did result" where
  "parse_multibase P B mb =
     bind_res (ok_or (strip_prefix MULTIBASE_Z mb) InvalidFormat) (from_base58 P B)"

text \<open>The owned strings: \<open>expect\<close> panics when the write fails.\<close>

definition to_did_string :: "bs58 \<Rightarrow> did \<Rightarrow> rstr result" where
  "to_did_string B d =
     (case did_write B d MAX_DID_LEN of Inr s \<Rightarrow> Inr s | Inl _ \<Rightarrow> Inl Panic)"

definition to_multibase_string :: "bs58 \<Rightarrow> did \<Rightarrow> rstr result" where
  "to_multibase_string B d =
     (case write_multibase B d MAX_MULTIBASE_LEN of Inr s \<Rightarrow> Inr s | Inl _ \<Rightarrow> Inl Panic)"

text \<open>\<open>Display\<close>, and \<open>Debug\<close> which calls it.\<close>

definition did_display :: "bs58 \<Rightarrow> did \<Rightarrow> rstr" where
  "did_display B d =
     (case did_write B d MAX_DID_LEN of
        Inr s \<Rightarrow> s
      | Inl _ \<Rightarrow> ascii ''did:mata:<invalid>'')"

section \<open>The type's invariant\<close>

definition valid_did :: "('sk, 'vk, 'sig) prims \<Rightarrow> did \<Rightarrow> bool" where
  "valid_did P d \<longleftrightarrow>
     length (did_pubkey d) = PUBKEY_LEN \<and> did_pubkey d ! 0 \<in> {2, 3} \<and>
     sec1_decode P (did_pubkey d) \<noteq> None"

lemma from_pubkey_Inr:
  "from_pubkey P b = Inr d \<longleftrightarrow> did_pubkey d = b \<and> valid_did P d"
  by (cases d) (auto simp: from_pubkey_def valid_did_def result_iffs split: if_splits)

lemma valid_from_verifying_key:
  assumes "prims_ok P"
  shows "valid_did P (from_verifying_key P vk)"
  using prims_okD(5-7) [OF assms, of vk] by (simp add: valid_did_def from_verifying_key_def)

lemma did_parse_valid: "did_parse P B s = Inr d \<Longrightarrow> valid_did P d"
  by (auto simp: did_parse_def from_base58_def result_iffs from_pubkey_Inr split: if_splits)

section \<open>Round trips\<close>

lemma length_did_consts [simp]:
  "length DID_PREFIX = 9" "length MULTIBASE_Z = 1" "MAX_DID_LEN = 55" "MAX_MULTIBASE_LEN = 47"
  by (simp_all add: DID_PREFIX_def MULTIBASE_Z_def MAX_DID_LEN_def MAX_MULTIBASE_LEN_def)

lemma ascii_prefixes: "\<forall>x \<in> set DID_PREFIX. x < 0x80" "\<forall>x \<in> set MULTIBASE_Z. x < 0x80"
  by (simp_all add: DID_PREFIX_def MULTIBASE_Z_def ascii_def)

text \<open>The text of a key, and what is known of it.\<close>

lemma bs58_text:
  assumes "bs58_ok B" "length b = PUBKEY_LEN"
  obtains t where "t \<noteq> []" "length t \<le> MAX_BASE58_LEN" "\<forall>x \<in> set t. x < 0x80"
    "\<And>n. b58_encode B b n = (if length t \<le> n then Some t else None)"
    "b58_decode B t (PUBKEY_LEN + 1) = Some b"
  using assms unfolding bs58_ok_def by blast

lemma write_with_prefix_text:
  assumes "\<forall>x \<in> set prefix. x < 0x80" "\<forall>x \<in> set t. x < 0x80" "t \<noteq> []"
    "\<And>n. b58_encode B b n = (if length t \<le> n then Some t else None)"
  shows "write_with_prefix B prefix b n =
    (if length prefix + length t \<le> n then Inr (prefix @ t)
     else if n < length prefix + 1 then Inl (BufferTooSmall (length prefix + 1))
     else Inl (BufferTooSmall (length prefix + MAX_BASE58_LEN)))"
proof -
  have "utf8_valid (prefix @ t)"
    using assms(1,2) by (auto intro: utf8_valid_append utf8_valid_ascii_bytes)
  then show ?thesis
    using assms(3) by (auto simp: write_with_prefix_def assms(4) from_utf8_def Suc_le_eq)
qed

lemma from_base58_text:
  assumes "valid_did P d" "t \<noteq> []" "length t \<le> MAX_BASE58_LEN"
    "b58_decode B t (PUBKEY_LEN + 1) = Some (did_pubkey d)"
  shows "from_base58 P B t = Inr d"
  using assms
  by (simp add: from_base58_def valid_did_def) (simp add: from_pubkey_Inr valid_did_def)

lemma from_base58_Inr:
  assumes "bs58_ok B" "from_base58 P B t = Inr d"
  shows "valid_did P d" and "t \<noteq> []" and "length t \<le> MAX_BASE58_LEN"
    and "b58_encode B (did_pubkey d) (length t) = Some t"
proof -
  from assms(2) obtain buf where buf: "b58_decode B t (PUBKEY_LEN + 1) = Some buf"
    "length buf = PUBKEY_LEN" "from_pubkey P buf = Inr d" and t: "t \<noteq> []" "length t \<le> MAX_BASE58_LEN"
    by (auto simp: from_base58_def result_iffs split: if_splits)
  then have d: "did_pubkey d = buf" "valid_did P d" by (simp_all add: from_pubkey_Inr)
  show "valid_did P d" "t \<noteq> []" "length t \<le> MAX_BASE58_LEN" by (fact d t)+
  from assms(1) buf(1,2) d(1) show "b58_encode B (did_pubkey d) (length t) = Some t"
    unfolding bs58_ok_def by metis
qed

text \<open>A text that decodes is the one its key encodes to.\<close>

lemma text_unique:
  assumes "b58_encode B b m = Some t" "\<And>n. b58_encode B b n = (if length u \<le> n then Some u else None)"
  shows "t = u"
  using assms by (metis option.distinct(1) option.inject)

lemma to_did_string_valid:
  assumes "bs58_ok B" "valid_did P d"
  obtains t where "to_did_string B d = Inr (DID_PREFIX @ t)" "from_base58 P B t = Inr d"
    "to_multibase_string B d = Inr (MULTIBASE_Z @ t)"
    "length t \<le> MAX_BASE58_LEN" "\<forall>x \<in> set t. x < 0x80" "t \<noteq> []"
proof -
  from assms(2) have len: "length (did_pubkey d) = PUBKEY_LEN" by (simp add: valid_did_def)
  from assms(1) len show thesis
  proof (rule bs58_text)
    fix t assume t: "t \<noteq> []" "length t \<le> MAX_BASE58_LEN" "\<forall>x \<in> set t. x < 0x80"
      "\<And>n. b58_encode B (did_pubkey d) n = (if length t \<le> n then Some t else None)"
      "b58_decode B t (PUBKEY_LEN + 1) = Some (did_pubkey d)"
    show thesis
    proof (rule that [OF _ _ _ t(2,3,1)])
      show "to_did_string B d = Inr (DID_PREFIX @ t)"
        using t(2) by (simp add: to_did_string_def did_write_def
            write_with_prefix_text [OF ascii_prefixes(1) t(3,1,4)])
      show "to_multibase_string B d = Inr (MULTIBASE_Z @ t)"
        using t(2) by (simp add: to_multibase_string_def write_multibase_def
            write_with_prefix_text [OF ascii_prefixes(2) t(3,1,4)])
      show "from_base58 P B t = Inr d"
        using assms(2) t(1,2,5) by (rule from_base58_text)
    qed
  qed
qed

lemma parse_strings:
  "from_base58 P B t = Inr d \<Longrightarrow> did_parse P B (DID_PREFIX @ t) = Inr d"
  "from_base58 P B t = Inr d \<Longrightarrow> parse_multibase P B (MULTIBASE_Z @ t) = Inr d"
  by (simp_all add: did_parse_def parse_multibase_def)

lemma parse_to_string:
  assumes "bs58_ok B" "did_parse P B s = Inr d"
  shows "to_did_string B d = Inr s"
proof -
  from assms(2) obtain u where s: "s = DID_PREFIX @ u" and u: "from_base58 P B u = Inr d"
    by (auto simp: did_parse_def result_iffs strip_prefix_eq_Some)
  note v = from_base58_Inr [OF assms(1) u]
  have len: "length (did_pubkey d) = PUBKEY_LEN" using v(1) by (simp add: valid_did_def)
  from assms(1) len show ?thesis
  proof (rule bs58_text)
    fix t assume t: "t \<noteq> []" "length t \<le> MAX_BASE58_LEN" "\<forall>x \<in> set t. x < 0x80"
      "\<And>n. b58_encode B (did_pubkey d) n = (if length t \<le> n then Some t else None)"
    have "u = t" using v(4) t(4) by (rule text_unique)
    then show ?thesis
      using t(2) s by (simp add: to_did_string_def did_write_def
          write_with_prefix_text [OF ascii_prefixes(1) t(3,1,4)])
  qed
qed

lemma parse_to_multibase:
  assumes "bs58_ok B" "parse_multibase P B s = Inr d"
  shows "to_multibase_string B d = Inr s"
proof -
  from assms(2) obtain u where s: "s = MULTIBASE_Z @ u" and u: "from_base58 P B u = Inr d"
    by (auto simp: parse_multibase_def result_iffs strip_prefix_eq_Some)
  note v = from_base58_Inr [OF assms(1) u]
  from assms(1) v(1) obtain t where t: "to_multibase_string B d = Inr (MULTIBASE_Z @ t)"
      "to_did_string B d = Inr (DID_PREFIX @ t)"
    by (rule to_did_string_valid)
  have "to_did_string B d = Inr (DID_PREFIX @ u)"
    using assms(1) parse_strings(1) [OF u] by (rule parse_to_string)
  with s t show ?thesis by simp
qed

end
