(* ===== verification/Kv.thy ===== *)
theory Kv
  imports Prelude
begin

text \<open>
  The \<open>Kv\<close> and \<open>Rng\<close> seams of \<open>rusty_esp_core::hal\<close>, which the sources call and do not
  define: here they are records of operations, arguments of every definition that uses them.

  \<open>kv_get s k cap\<close> is \<open>kv.get(key, &mut out)\<close> with \<open>out.len() = cap\<close>; where the trait answers
  the length \<open>n\<close> and leaves the value in \<open>out[..n]\<close>, the model answers the value itself.
  \<open>kv_put\<close> and \<open>kv_remove\<close> also return the store after the call, whether it succeeded or not.
  \<open>rng_fill r n\<close> is \<open>rng.fill(&mut buf)\<close> with \<open>buf.len() = n\<close>.

  The locales state the trait's contract as the callers rely on it. \<open>kv_store\<close> allows every
  call to fail; \<open>kv_reliable\<close> adds that none does for a lack of anything but buffer space.
\<close>

record 's kv =
  kv_get :: "'s \<Rightarrow> bytes \<Rightarrow> nat \<Rightarrow> bytes option result"
  kv_put :: "'s \<Rightarrow> bytes \<Rightarrow> bytes \<Rightarrow> unit result \<times> 's"
  kv_remove :: "'s \<Rightarrow> bytes \<Rightarrow> bool result \<times> 's"

type_synonym 'r rng = "'r \<Rightarrow> nat \<Rightarrow> bytes result \<times> 'r"

definition rng_ok :: "'r rng \<Rightarrow> bool" where
  "rng_ok fill \<longleftrightarrow>
     (\<forall>r n bs r'. fill r n = (Inr bs, r') \<longrightarrow> length bs = n) \<and>
     (\<forall>r n e r'. fill r n = (Inl e, r') \<longrightarrow> e \<noteq> Panic)"

lemma rng_okD:
  assumes "rng_ok fill"
  shows "fill r n = (Inr bs, r') \<Longrightarrow> length bs = n"
    and "fill r n = (Inl e, r') \<Longrightarrow> e \<noteq> Panic"
  using assms unfolding rng_ok_def by metis+

section \<open>The contract, with failures\<close>

text \<open>
  \<open>storable\<close> are the values a store returns as they were put. A failed \<open>put\<close> may have left the
  old value, the new one, or (a backend that removes before it writes) none.
\<close>

locale kv_store =
  fixes K :: "'s kv"
    and contents :: "'s \<Rightarrow> bytes \<Rightarrow> bytes option"
    and inv :: "'s \<Rightarrow> bool"
    and storable :: "bytes \<Rightarrow> bool"
  assumes get_value: "inv s \<Longrightarrow> kv_get K s k n = Inr r \<Longrightarrow>
      r = contents s k \<and> (\<forall>v. r = Some v \<longrightarrow> length v \<le> n)"
    and get_small: "inv s \<Longrightarrow> kv_get K s k n = Inl (BufferTooSmall m) \<Longrightarrow>
      \<exists>v. contents s k = Some v \<and> n < length v \<and> m = length v"
    and get_no_panic: "inv s \<Longrightarrow> kv_get K s k n \<noteq> Inl Panic"
    and put_frame: "inv s \<Longrightarrow> kv_put K s k v = (rp, s') \<Longrightarrow>
      inv s' \<and> (\<forall>j. j \<noteq> k \<longrightarrow> contents s' j = contents s j)"
    and put_value: "inv s \<Longrightarrow> storable v \<Longrightarrow> kv_put K s k v = (Inr (), s') \<Longrightarrow>
      contents s' k = Some v"
    and put_failed: "inv s \<Longrightarrow> storable v \<Longrightarrow> kv_put K s k v = (Inl e, s') \<Longrightarrow>
      contents s' k \<in> {contents s k, None, Some v} \<and> e \<noteq> Panic"
    and remove_frame: "inv s \<Longrightarrow> kv_remove K s k = (rr, s') \<Longrightarrow>
      inv s' \<and> (\<forall>j. j \<noteq> k \<longrightarrow> contents s' j = contents s j)"
    and remove_value: "inv s \<Longrightarrow> kv_remove K s k = (Inr b, s') \<Longrightarrow>
      contents s' k = None \<and> (b \<longleftrightarrow> contents s k \<noteq> None)"
    and remove_failed: "inv s \<Longrightarrow> kv_remove K s k = (Inl e, s') \<Longrightarrow>
      contents s' k \<in> {contents s k, None} \<and> e \<noteq> Panic"
begin

lemma put_contents:
  assumes "inv s" "storable v" "kv_put K s k v = (Inr (), s')"
  shows "inv s'" and "contents s' = (contents s)(k \<mapsto> v)"
proof -
  show "inv s'" using put_frame [OF assms(1,3)] by simp
  show "contents s' = (contents s)(k \<mapsto> v)"
    using put_frame [OF assms(1,3)] put_value [OF assms] by (auto simp: fun_eq_iff)
qed

lemma remove_contents:
  assumes "inv s" "kv_remove K s k = (Inr b, s')"
  shows "inv s'" and "contents s' = (contents s)(k := None)" and "b \<longleftrightarrow> contents s k \<noteq> None"
proof -
  show "inv s'" using remove_frame [OF assms] by simp
  show "contents s' = (contents s)(k := None)"
    using remove_frame [OF assms] remove_value [OF assms] by (auto simp: fun_eq_iff)
  show "b \<longleftrightarrow> contents s k \<noteq> None" using remove_value [OF assms] by simp
qed

text \<open>A failed write as an update of one key.\<close>

lemma put_failed_update:
  assumes "inv s" "storable v" "kv_put K s k v = (Inl e, s')"
  shows "inv s'" and "\<exists>x \<in> {contents s k, None, Some v}. contents s' = (contents s)(k := x)"
proof -
  show "inv s'" using put_frame [OF assms(1,3)] by simp
  have "contents s' = (contents s)(k := contents s' k)"
    using put_frame [OF assms(1,3)] by (auto simp: fun_eq_iff)
  with put_failed [OF assms]
  show "\<exists>x \<in> {contents s k, None, Some v}. contents s' = (contents s)(k := x)" by blast
qed

lemma remove_failed_update:
  assumes "inv s" "kv_remove K s k = (Inl e, s')"
  shows "inv s'" and "\<exists>x \<in> {contents s k, None}. contents s' = (contents s)(k := x)"
proof -
  show "inv s'" using remove_frame [OF assms] by simp
  have "contents s' = (contents s)(k := contents s' k)"
    using remove_frame [OF assms] by (auto simp: fun_eq_iff)
  with remove_failed [OF assms]
  show "\<exists>x \<in> {contents s k, None}. contents s' = (contents s)(k := x)" by blast
qed

end

section \<open>The contract of a store that works\<close>

locale kv_reliable = kv_store +
  assumes get_works: "inv s \<Longrightarrow> kv_get K s k n =
      (case contents s k of None \<Rightarrow> Inr None
       | Some v \<Rightarrow> if length v \<le> n then Inr (Some v) else Inl (BufferTooSmall (length v)))"
    and put_works: "inv s \<Longrightarrow> storable v \<Longrightarrow> \<exists>s'. kv_put K s k v = (Inr (), s')"
    and remove_works: "inv s \<Longrightarrow> \<exists>b s'. kv_remove K s k = (Inr b, s')"
begin

lemma put_runs:
  assumes "inv s" "storable v"
  obtains s' where "kv_put K s k v = (Inr (), s')" "inv s'" "contents s' = (contents s)(k \<mapsto> v)"
  using put_works [OF assms, of k] put_contents [OF assms] by blast

lemma remove_runs:
  assumes "inv s"
  obtains s' where "kv_remove K s k = (Inr (contents s k \<noteq> None), s')" "inv s'"
    "contents s' = (contents s)(k := None)"
proof -
  obtain b s' where r: "kv_remove K s k = (Inr b, s')"
    using remove_works [OF assms, of k] by blast
  from remove_contents [OF assms r] r that show thesis by simp
qed

end

section \<open>The contract of a store whose failed writes lose nothing\<close>

text \<open>A backend that writes beside the old value and then switches: what was there, or what was put.\<close>

locale kv_atomic = kv_store +
  assumes put_atomic: "inv s \<Longrightarrow> storable v \<Longrightarrow> kv_put K s k v = (Inl e, s') \<Longrightarrow>
      contents s' k \<in> {contents s k, Some v}"

end
