(* ===== verification/Key.thy ===== *)
theory Key
  imports Did Kv
begin

unbundle bit_operations_syntax

text \<open>
  \<open>crates/rusty_esp_mid-core/src/key.rs\<close>: the device id, the device key, its storage, the two
  caches (public key and signature) that are authenticated by an HMAC under the secret, and the
  \<open>DeviceSigner\<close> implementation.
\<close>

section \<open>The device id\<close>

abbreviation MAX_DEVICE_ID_LEN :: nat where "MAX_DEVICE_ID_LEN \<equiv> 32"
definition DEFAULT_DEVICE_ID :: rstr where "DEFAULT_DEVICE_ID = ascii ''janus''"

record device_id =
  di_bytes :: bytes
  di_len :: u8

definition is_ascii_alphanumeric :: "u8 \<Rightarrow> bool" where
  "is_ascii_alphanumeric b \<longleftrightarrow>
     (0x30 \<le> b \<and> b \<le> 0x39) \<or> (0x41 \<le> b \<and> b \<le> 0x5A) \<or> (0x61 \<le> b \<and> b \<le> 0x7A)"

definition device_id_new :: "rstr \<Rightarrow> device_id result" where
  "device_id_new s =
     (let ok = s \<noteq> [] \<and> length s \<le> MAX_DEVICE_ID_LEN \<and>
        list_all (\<lambda>b. is_ascii_alphanumeric b \<or> b = 0x5F \<or> b = 0x2E \<or> b = 0x2D) s in
      if \<not> ok then Inl InvalidFormat
      else Inr \<lparr>di_bytes = s @ replicate (MAX_DEVICE_ID_LEN - length s) 0, di_len = of_nat (length s)\<rparr>)"

text \<open>The slice is in range for every id \<open>new\<close> makes (\<open>device_id_wf\<close> below); the fields are private.\<close>

definition device_id_as_str :: "device_id \<Rightarrow> rstr" where
  "device_id_as_str d =
     (case from_utf8 (take (unat (di_len d)) (di_bytes d)) of
        Some s \<Rightarrow> s
      | None \<Rightarrow> DEFAULT_DEVICE_ID)"

definition device_id_wf :: "device_id \<Rightarrow> bool" where
  "device_id_wf d \<longleftrightarrow> length (di_bytes d) = MAX_DEVICE_ID_LEN \<and> unat (di_len d) \<le> MAX_DEVICE_ID_LEN"

lemma device_id_chars_ascii:
  "is_ascii_alphanumeric b \<or> b = 0x5F \<or> b = 0x2E \<or> b = 0x2D \<Longrightarrow> b < 0x80"
  by (auto simp: is_ascii_alphanumeric_def word_le_nat_alt word_less_nat_alt)

lemma device_id_new_Inr:
  assumes "device_id_new s = Inr d"
  shows "device_id_wf d" and "device_id_as_str d = s"
proof -
  from assms have len: "s \<noteq> []" "length s \<le> MAX_DEVICE_ID_LEN"
    and ch: "list_all (\<lambda>b. is_ascii_alphanumeric b \<or> b = 0x5F \<or> b = 0x2E \<or> b = 0x2D) s"
    and d: "d = \<lparr>di_bytes = s @ replicate (MAX_DEVICE_ID_LEN - length s) 0, di_len = of_nat (length s)\<rparr>"
    by (auto simp: device_id_new_def Let_def split: if_splits)
  have n: "unat (of_nat (length s) :: u8) = length s"
    using len by (simp add: unat_u8_of_nat)
  have "utf8_valid s"
    using ch by (intro utf8_valid_ascii_bytes) (auto simp: list_all_iff intro: device_id_chars_ascii)
  with d n len show "device_id_wf d" "device_id_as_str d = s"
    by (auto simp: device_id_wf_def device_id_as_str_def from_utf8_def)
qed

section \<open>HMAC-SHA256 and the constant-time comparison\<close>

text \<open>\<open>pad\<close> is the 64-byte block \<open>[c; 64]\<close> with the key's bytes xored in from the front.\<close>

definition hmac_pad :: "u8 \<Rightarrow> bytes \<Rightarrow> bytes" where
  "hmac_pad c key = map (\<lambda>i. if i < length key then c XOR key ! i else c) [0..<64]"

definition hmac_sha256 :: "('sk, 'vk, 'sig) prims \<Rightarrow> bytes \<Rightarrow> bytes list \<Rightarrow> bytes" where
  "hmac_sha256 P key parts =
     (let inner = sha256 P (hmac_pad 0x36 key @ concat parts) in
      sha256 P (hmac_pad 0x5C key @ inner))"

text \<open>The accumulated difference \<open>diff |= x ^ y\<close> over the zipped bytes.\<close>

fun or_diff :: "u8 \<Rightarrow> bytes \<Rightarrow> bytes \<Rightarrow> u8" where
  "or_diff d (x # xs) (y # ys) = or_diff (d OR (x XOR y)) xs ys"
| "or_diff d _ _ = d"

definition ct_eq32 :: "bytes \<Rightarrow> bytes \<Rightarrow> bool" where
  "ct_eq32 a b \<longleftrightarrow> or_diff (if length b \<noteq> 32 then 1 else 0) a b = 0"

definition PUB_DOMAIN :: bytes where "PUB_DOMAIN = ascii ''rusty_esp_mid devpub v1''"
definition SIG_DOMAIN :: bytes where "SIG_DOMAIN = ascii ''rusty_esp_mid sigcache v1''"

lemma or_eq_0_word: "(a :: 'a::len word) OR b = 0 \<longleftrightarrow> a = 0 \<and> b = 0"
  by (auto simp: bit_eq_iff bit_or_iff)

lemma xor_eq_0_word: "(a :: 'a::len word) XOR b = 0 \<longleftrightarrow> a = b"
  by (auto simp: bit_eq_iff bit_xor_iff)

lemma or_diff_0:
  "length xs = length ys \<Longrightarrow> or_diff d xs ys = 0 \<longleftrightarrow> d = 0 \<and> xs = ys"
  by (induction d xs ys rule: or_diff.induct) (auto simp: or_eq_0_word xor_eq_0_word)

lemma or_diff_start: "or_diff d xs ys = 0 \<Longrightarrow> d = 0"
  by (induction d xs ys rule: or_diff.induct) (auto simp: or_eq_0_word)

lemma ct_eq32_iff:
  assumes "length a = 32"
  shows "ct_eq32 a b \<longleftrightarrow> a = b"
proof (cases "length b = 32")
  case True
  with assms show ?thesis by (simp add: ct_eq32_def or_diff_0)
next
  case False
  with assms show ?thesis by (auto simp: ct_eq32_def dest: or_diff_start)
qed

section \<open>The key\<close>

record ('sk, 'vk) device_key =
  dk_secret :: 'sk
  dk_public :: 'vk
  dk_device_id :: device_id

definition derive :: "('sk, 'vk, 'sig) prims \<Rightarrow> bytes \<Rightarrow> ('sk \<times> 'vk) option" where
  "derive P secret =
     do { nz \<leftarrow> scalar_from_repr P secret; Some (nz, public_of P nz) }"

abbreviation GENERATE_ATTEMPTS :: nat where "GENERATE_ATTEMPTS \<equiv> 8"

fun generate_attempts ::
  "('sk, 'vk, 'sig) prims \<Rightarrow> 'r rng \<Rightarrow> device_id \<Rightarrow> nat \<Rightarrow> 'r \<Rightarrow> ('sk, 'vk) device_key result \<times> 'r"
where
  "generate_attempts P fill did 0 r = (Inl Crypto, r)"
| "generate_attempts P fill did (Suc n) r =
     (case fill r 32 of
        (Inl e, r) \<Rightarrow> (Inl e, r)
      | (Inr secret, r) \<Rightarrow>
          (case derive P secret of
             Some (k, vk) \<Rightarrow> (Inr \<lparr>dk_secret = k, dk_public = vk, dk_device_id = did\<rparr>, r)
           | None \<Rightarrow> generate_attempts P fill did n r))"

definition generate ::
  "('sk, 'vk, 'sig) prims \<Rightarrow> 'r rng \<Rightarrow> 'r \<Rightarrow> rstr \<Rightarrow> ('sk, 'vk) device_key result \<times> 'r" where
  "generate P fill r device_id =
     (case device_id_new device_id of
        Inl e \<Rightarrow> (Inl e, r)
      | Inr did \<Rightarrow> generate_attempts P fill did GENERATE_ATTEMPTS r)"

definition from_secret ::
  "('sk, 'vk, 'sig) prims \<Rightarrow> bytes \<Rightarrow> rstr \<Rightarrow> ('sk, 'vk) device_key result" where
  "from_secret P secret device_id =
     bind_res (device_id_new device_id) (\<lambda>did.
     bind_res (ok_or (derive P secret) Crypto) (\<lambda>(k, vk).
       Inr \<lparr>dk_secret = k, dk_public = vk, dk_device_id = did\<rparr>))"

definition secret_bytes :: "('sk, 'vk, 'sig) prims \<Rightarrow> ('sk, 'vk) device_key \<Rightarrow> bytes" where
  "secret_bytes P key = scalar_to_repr P (dk_secret key)"

definition key_did :: "('sk, 'vk, 'sig) prims \<Rightarrow> ('sk, 'vk) device_key \<Rightarrow> did" where
  "key_did P key = from_verifying_key P (dk_public key)"

definition pubkey_sec1_uncompressed :: "('sk, 'vk, 'sig) prims \<Rightarrow> ('sk, 'vk) device_key \<Rightarrow> bytes" where
  "pubkey_sec1_uncompressed P key = sec1_uncompressed P (dk_public key)"

text \<open>\<open>Debug\<close>: the id and the DID, never the secret.\<close>

definition device_key_debug ::
  "('sk, 'vk, 'sig) prims \<Rightarrow> bs58 \<Rightarrow> ('sk, 'vk) device_key \<Rightarrow> rstr" where
  "device_key_debug P B key =
     ascii ''DeviceKey('' @ device_id_as_str (dk_device_id key) @ ascii '', '' @
     did_display B (key_did P key) @ ascii '')''"

definition sign_prehash ::
  "('sk, 'vk, 'sig) prims \<Rightarrow> ('sk, 'vk) device_key \<Rightarrow> bytes \<Rightarrow> bytes" where
  "sign_prehash P key prehash =
     (let raw = ecdsa_sign P (dk_secret key) prehash;
          sig = (case normalize_s P raw of Some s \<Rightarrow> s | None \<Rightarrow> raw) in
      sig_to_bytes P sig)"

definition key_signer :: "('sk, 'vk, 'sig) prims \<Rightarrow> ('sk, 'vk) device_key \<Rightarrow> signer" where
  "key_signer P key =
     \<lparr>sg_device_id = device_id_as_str (dk_device_id key), sg_sign_prehash = sign_prehash P key\<rparr>"

definition shared_secret ::
  "('sk, 'vk, 'sig) prims \<Rightarrow> ('sk, 'vk) device_key \<Rightarrow> did \<Rightarrow> bytes result" where
  "shared_secret P key their =
     bind_res (ok_or (sec1_decode P (did_pubkey their)) Crypto) (\<lambda>pk.
       Inr (ecdh P (dk_secret key) pk))"

section \<open>Storage\<close>

definition KV_KEY :: bytes where "KV_KEY = ascii ''mid.devkey''"
definition KV_PUB :: bytes where "KV_PUB = ascii ''mid.devpub''"

definition load ::
  "('sk, 'vk, 'sig) prims \<Rightarrow> 's kv \<Rightarrow> 's \<Rightarrow> rstr \<Rightarrow> ('sk, 'vk) device_key option result" where
  "load P K s device_id =
     bind_res (kv_get K s KV_KEY 32) (\<lambda>got.
       case got of
         None \<Rightarrow> Inr None
       | Some secret \<Rightarrow>
           if length secret = 32
           then bind_res (from_secret P secret device_id) (\<lambda>k. Inr (Some k))
           else Inl Corrupt)"

definition store ::
  "('sk, 'vk, 'sig) prims \<Rightarrow> 's kv \<Rightarrow> 's \<Rightarrow> ('sk, 'vk) device_key \<Rightarrow> unit result \<times> 's" where
  "store P K s key = kv_put K s KV_KEY (secret_bytes P key)"

text \<open>The public-key cache entry, written best effort: a failed write is ignored.\<close>

definition pub_entry :: "('sk, 'vk, 'sig) prims \<Rightarrow> ('sk, 'vk) device_key \<Rightarrow> bytes \<Rightarrow> bytes" where
  "pub_entry P key secret =
     (let point = pubkey_sec1_uncompressed P key in
      point @ hmac_sha256 P secret [PUB_DOMAIN, point])"

definition store_pub ::
  "('sk, 'vk, 'sig) prims \<Rightarrow> 's kv \<Rightarrow> 's \<Rightarrow> ('sk, 'vk) device_key \<Rightarrow> bytes \<Rightarrow> 's" where
  "store_pub P K s key secret = snd (kv_put K s KV_PUB (pub_entry P key secret))"

text \<open>The cached public key, when the 97-byte entry is there, its tag holds and it is a point.\<close>

definition cached_public ::
  "('sk, 'vk, 'sig) prims \<Rightarrow> 's kv \<Rightarrow> 's \<Rightarrow> bytes \<Rightarrow> 'vk option" where
  "cached_public P K s secret =
     (case kv_get K s KV_PUB 97 of
        Inr (Some entry) \<Rightarrow>
          if length entry = 97 then
            let point = take 65 entry; tag = drop 65 entry;
                want = hmac_sha256 P secret [PUB_DOMAIN, point] in
            if or_diff 0 want tag = 0 then sec1_decode P point else None
          else None
      | _ \<Rightarrow> None)"

definition from_secret_cached ::
  "('sk, 'vk, 'sig) prims \<Rightarrow> 's kv \<Rightarrow> 's \<Rightarrow> bytes \<Rightarrow> rstr \<Rightarrow> ('sk, 'vk) device_key result \<times> 's" where
  "from_secret_cached P K s secret device_id =
     (case device_id_new device_id of
        Inl e \<Rightarrow> (Inl e, s)
      | Inr did \<Rightarrow>
        (case scalar_from_repr P secret of
           None \<Rightarrow> (Inl Crypto, s)
         | Some scalar \<Rightarrow>
           (case cached_public P K s secret of
              Some public \<Rightarrow> (Inr \<lparr>dk_secret = scalar, dk_public = public, dk_device_id = did\<rparr>, s)
            | None \<Rightarrow>
                let key = \<lparr>dk_secret = scalar, dk_public = public_of P scalar, dk_device_id = did\<rparr> in
                (Inr key, store_pub P K s key secret))))"

definition load_cached ::
  "('sk, 'vk, 'sig) prims \<Rightarrow> 's kv \<Rightarrow> 's \<Rightarrow> rstr \<Rightarrow> ('sk, 'vk) device_key option result \<times> 's" where
  "load_cached P K s device_id =
     (case kv_get K s KV_KEY 32 of
        Inr None \<Rightarrow> (Inr None, s)
      | Inr (Some secret) \<Rightarrow>
          if length secret = 32 then
            (case from_secret_cached P K s secret device_id of
               (Inl e, s) \<Rightarrow> (Inl e, s)
             | (Inr k, s) \<Rightarrow> (Inr (Some k), s))
          else (Inl Corrupt, s)
      | Inl e \<Rightarrow> (Inl e, s))"

text \<open>The remembered signature.\<close>

definition sign_prehash_cached ::
  "('sk, 'vk, 'sig) prims \<Rightarrow> 's kv \<Rightarrow> 's \<Rightarrow> ('sk, 'vk) device_key \<Rightarrow> bytes \<Rightarrow> bytes \<Rightarrow> bytes \<times> 's" where
  "sign_prehash_cached P K s key name prehash =
     (let secret = secret_bytes P key;
          fresh =
            (let sig = sign_prehash P key prehash; head = prehash @ sig;
                 tag = hmac_sha256 P secret [SIG_DOMAIN, head] in
             (sig, snd (kv_put K s name (head @ tag)))) in
      case kv_get K s name 128 of
        Inr (Some entry) \<Rightarrow>
          if length entry = 128 then
            let head = take 96 entry; tag = drop 96 entry in
            if ct_eq32 prehash (take 32 head) \<and> ct_eq32 (hmac_sha256 P secret [SIG_DOMAIN, head]) tag
            then (take 64 (drop 32 head), s)
            else fresh
          else fresh
      | _ \<Rightarrow> fresh)"

definition load_or_generate_cached ::
  "('sk, 'vk, 'sig) prims \<Rightarrow> 's kv \<Rightarrow> 'r rng \<Rightarrow> 's \<Rightarrow> 'r \<Rightarrow> rstr
     \<Rightarrow> ('sk, 'vk) device_key result \<times> 's \<times> 'r"
where
  "load_or_generate_cached P K fill s r device_id =
     (case load_cached P K s device_id of
        (Inl e, s) \<Rightarrow> (Inl e, s, r)
      | (Inr (Some key), s) \<Rightarrow> (Inr key, s, r)
      | (Inr None, s) \<Rightarrow>
          (case generate P fill r device_id of
             (Inl e, r) \<Rightarrow> (Inl e, s, r)
           | (Inr key, r) \<Rightarrow>
               (case store P K s key of
                  (Inl e, s) \<Rightarrow> (Inl e, s, r)
                | (Inr _, s) \<Rightarrow> (Inr key, store_pub P K s key (secret_bytes P key), r))))"

definition load_or_generate ::
  "('sk, 'vk, 'sig) prims \<Rightarrow> 's kv \<Rightarrow> 'r rng \<Rightarrow> 's \<Rightarrow> 'r \<Rightarrow> rstr
     \<Rightarrow> ('sk, 'vk) device_key result \<times> 's \<times> 'r"
where
  "load_or_generate P K fill s r device_id =
     (case load P K s device_id of
        Inl e \<Rightarrow> (Inl e, s, r)
      | Inr (Some key) \<Rightarrow> (Inr key, s, r)
      | Inr None \<Rightarrow>
          (case generate P fill r device_id of
             (Inl e, r) \<Rightarrow> (Inl e, s, r)
           | (Inr key, r) \<Rightarrow>
               (case store P K s key of
                  (Inl e, s) \<Rightarrow> (Inl e, s, r)
                | (Inr _, s) \<Rightarrow> (Inr key, s, r))))"

text \<open>The test helper: a key from the hash of a seed; \<open>expect\<close> panics when it is no scalar.\<close>

definition from_seed_for_tests ::
  "('sk, 'vk, 'sig) prims \<Rightarrow> rstr \<Rightarrow> rstr \<Rightarrow> ('sk, 'vk) device_key result" where
  "from_seed_for_tests P seed device_id =
     (case from_secret P (sha256 P (seed @ ascii ''-rusty-esp-mid-test-seed'')) device_id of
        Inr k \<Rightarrow> Inr k
      | Inl _ \<Rightarrow> Inl Panic)"

end
