(* ===== verification/Samples.thy ===== *)
theory Samples
  imports Did Kv
begin

text \<open>
  Concrete instances of the parameters that stand for code outside the repository, with the
  documented behaviour the definitions rely on. They show that the hypotheses \<open>prims_ok\<close>,
  \<open>bs58_ok\<close> and the store contracts can hold, and the witnesses are evaluated on them. They are
  not models of the real primitives.
\<close>

section \<open>Signature and hash primitives\<close>

definition sample_sha :: "bytes \<Rightarrow> bytes" where
  "sample_sha m = replicate 31 0 @ [sum_list m]"

definition sample_prims :: "(u8, u8, u8 \<times> bool) prims" where
  "sample_prims = \<lparr>
     sha256 = sample_sha,
     scalar_from_repr = (\<lambda>b. if b = 1 # replicate 30 0 @ [last b] then Some (last b) else None),
     scalar_to_repr = (\<lambda>k. 1 # replicate 30 0 @ [k]),
     public_of = (\<lambda>k. k),
     sec1_decode = (\<lambda>b. if b = 2 # replicate 31 0 @ [last b] \<or> b = 4 # replicate 63 0 @ [last b]
                        then Some (last b) else None),
     sec1_compressed = (\<lambda>v. 2 # replicate 31 0 @ [v]),
     sec1_uncompressed = (\<lambda>v. 4 # replicate 63 0 @ [v]),
     sig_from_slice = (\<lambda>b. if b = replicate 32 (b ! 0) @ replicate 31 0 @ [1] then Some (b ! 0, False)
                          else if b = replicate 32 (b ! 0) @ replicate 31 0 @ [255] then Some (b ! 0, True)
                          else None),
     sig_to_bytes = (\<lambda>(t, high). replicate 32 t @ replicate 31 0 @ [if high then 255 else 1]),
     normalize_s = (\<lambda>(t, high). if high then Some (t, False) else None),
     ecdsa_verify = (\<lambda>v h (t, high). t = v + last h),
     ecdsa_sign = (\<lambda>k h. (k + last h, True)),
     ecdh = (\<lambda>a b. replicate 32 (a * b)) \<rparr>"

lemma sample_prims_ok: "prims_ok sample_prims"
  unfolding prims_ok_def
  by (intro conjI)
    (auto simp: sample_prims_def sample_sha_def nth_append split: if_splits)

section \<open>A base-128 codec in the place of base58\<close>

fun base128 :: "nat \<Rightarrow> nat \<Rightarrow> bytes" where
  "base128 0 v = []"
| "base128 (Suc n) v = base128 n (v div 128) @ [of_nat (v mod 128)]"

definition from_base128 :: "bytes \<Rightarrow> nat" where
  "from_base128 t = foldl (\<lambda>a b. a * 128 + unat b) 0 t"

definition sample_bs58 :: bs58 where
  "sample_bs58 = \<lparr>
     b58_encode = (\<lambda>b n. if length b = 33 \<and> 38 \<le> n then Some (base128 38 (from_be b)) else None),
     b58_decode = (\<lambda>t n. let v = from_base128 t in
        if t = base128 38 v \<and> v < 256 ^ 33 \<and> 33 \<le> n then Some (be_bytes 33 v) else None) \<rparr>"

lemma length_base128 [simp]: "length (base128 n v) = n"
  by (induction n v rule: base128.induct) simp_all

lemma base128_ascii: "x \<in> set (base128 n v) \<Longrightarrow> x < 0x80"
proof (induction n v rule: base128.induct)
  case (2 n v)
  have "(of_nat (v mod 128) :: u8) < 0x80"
    by (simp add: word_less_nat_alt unat_of_nat)
  with 2 show ?case by auto
qed simp

lemma from_base128_base128: "from_base128 (base128 n v) = v mod 128 ^ n"
proof (induction n v rule: base128.induct)
  case (2 n v)
  have "unat (of_nat (v mod 128) :: u8) = v mod 128"
    by (simp add: unat_of_nat)
  with 2 show ?case
    by (simp add: from_base128_def mod_mult2_eq)
qed (simp add: from_base128_def)

lemma sample_bs58_ok: "bs58_ok sample_bs58"
  unfolding bs58_ok_def
proof (intro conjI allI impI)
  fix b :: bytes
  assume b: "length b = 33"
  let ?t = "base128 38 (from_be b)"
  have less: "from_be b < 256 ^ 33" using from_be_less [of b] b by simp
  then have less128: "from_be b < 128 ^ 38"
    by (rule order_less_trans) simp
  have dec: "from_base128 ?t = from_be b"
    using less128 by (simp add: from_base128_base128)
  have "b58_decode sample_bs58 ?t (33 + 1) = Some b"
    using dec less be_bytes_from_be [of b] b by (simp add: sample_bs58_def Let_def)
  then show "\<exists>t. t \<noteq> [] \<and> length t \<le> 46 \<and> (\<forall>x \<in> set t. x < 0x80) \<and>
      (\<forall>n. b58_encode sample_bs58 b n = (if length t \<le> n then Some t else None)) \<and>
      b58_decode sample_bs58 t (33 + 1) = Some b"
    using b by (intro exI [of _ ?t]) (auto simp: sample_bs58_def base128_ascii
        simp flip: length_0_conv)
next
  fix t b
  assume d: "b58_decode sample_bs58 t (33 + 1) = Some b" and len: "length b = 33"
  from d have t: "t = base128 38 (from_base128 t)" and b: "b = be_bytes 33 (from_base128 t)"
    and less: "from_base128 t < 256 ^ 33"
    by (auto simp: sample_bs58_def Let_def split: if_splits)
  have "from_be b = from_base128 t" using b less by (simp add: from_be_be_bytes)
  moreover have "length t = 38" by (metis t length_base128)
  ultimately show "b58_encode sample_bs58 b (length t) = Some t"
    using len t by (simp add: sample_bs58_def)
qed

section \<open>A store in memory\<close>

type_synonym mem = "(bytes \<times> bytes) list"

definition mem_get :: "mem \<Rightarrow> bytes \<Rightarrow> nat \<Rightarrow> bytes option result" where
  "mem_get s k n =
     (case map_of s k of
        None \<Rightarrow> Inr None
      | Some v \<Rightarrow> if length v \<le> n then Inr (Some v) else Inl (BufferTooSmall (length v)))"

definition mem_put :: "mem \<Rightarrow> bytes \<Rightarrow> bytes \<Rightarrow> unit result \<times> mem" where
  "mem_put s k v = (Inr (), (k, v) # s)"

definition mem_remove :: "mem \<Rightarrow> bytes \<Rightarrow> bool result \<times> mem" where
  "mem_remove s k = (Inr (map_of s k \<noteq> None), filter (\<lambda>(j, _). j \<noteq> k) s)"

definition mem_kv :: "mem kv" where
  "mem_kv = \<lparr>kv_get = mem_get, kv_put = mem_put, kv_remove = mem_remove\<rparr>"

lemma map_of_filter_key: "map_of (filter (\<lambda>(j, _). j \<noteq> k) s) = (map_of s)(k := None)"
  by (induction s) auto

interpretation mem: kv_reliable mem_kv map_of "\<lambda>_. True" "\<lambda>_. True"
  by unfold_locales
    (auto simp: mem_kv_def mem_get_def mem_put_def mem_remove_def map_of_filter_key
       split: option.splits if_splits)

interpretation mem_atomic: kv_atomic mem_kv map_of "\<lambda>_. True" "\<lambda>_. True"
  by unfold_locales (simp add: mem_kv_def mem_put_def)

section \<open>A source of randomness\<close>

text \<open>The state is the next byte; a fill repeats it behind the shape of a sample scalar.\<close>

definition sample_rng :: "u8 rng" where
  "sample_rng r n = (Inr (take n (1 # replicate 30 0 @ r # replicate n 0)), r + 1)"

lemma sample_rng_ok: "rng_ok sample_rng"
  by (auto simp: rng_ok_def sample_rng_def)

end
