(* ===== verification/Key_Correct.thy ===== *)
theory Key_Correct
  imports Key Samples
begin

text \<open>
  What \<open>key.rs\<close> promises: the key is a \<open>DeviceSigner\<close> whose every signature the family's
  verifier accepts, the identity is the same at every boot as long as the store survives, and
  the two caches never change a result.
\<close>

section \<open>The key is a signer\<close>

definition wf_key :: "('sk, 'vk, 'sig) prims \<Rightarrow> ('sk, 'vk) device_key \<Rightarrow> bool" where
  "wf_key P key \<longleftrightarrow> dk_public key = public_of P (dk_secret key) \<and> device_id_wf (dk_device_id key)"

lemma sign_prehash_low_s: "sign_prehash P key h = sig_to_bytes P (low_s P (ecdsa_sign P (dk_secret key) h))"
  by (simp add: sign_prehash_def low_s_def split: option.splits)

lemma low_s_normal: "prims_ok P \<Longrightarrow> normalize_s P (low_s P s) = None"
  using prims_okD(13) [of P s] by (cases "normalize_s P s") (auto simp: low_s_def)

lemma low_s_verifies:
  "prims_ok P \<Longrightarrow> ecdsa_verify P vk h s \<Longrightarrow> ecdsa_verify P vk h (low_s P s)"
  using prims_okD(14) [of P s] by (cases "normalize_s P s") (auto simp: low_s_def)

lemma key_signer_provides:
  assumes P: "prims_ok P" and k: "wf_key P key"
  shows "device_signer P (key_signer P key) (did_pubkey (key_did P key))"
proof
  show "length (sha256 P m) = 32" for m by (rule prims_okD(1) [OF P])
  show "length (sg_sign_prehash (key_signer P key) h) = 64" for h
    by (simp add: key_signer_def sign_prehash_low_s prims_okD(11) [OF P])
  fix h :: bytes
  assume "length h = 32"
  then have "ecdsa_verify P (dk_public key) h (low_s P (ecdsa_sign P (dk_secret key) h))"
    using k by (simp add: wf_key_def low_s_verifies [OF P] prims_okD(15) [OF P])
  then show "verify_prehash P (did_pubkey (key_did P key)) h
      (sg_sign_prehash (key_signer P key) h) = Inr ()"
    using prims_okD(5,12) [OF P] low_s_normal [OF P]
    by (simp add: verify_prehash_Inr key_signer_def sign_prehash_low_s key_did_def
        from_verifying_key_def)
qed

definition sample_key :: "(u8, u8) device_key" where
  "sample_key = \<lparr>dk_secret = 7, dk_public = 7,
     dk_device_id = \<lparr>di_bytes = ascii ''cam-1'' @ replicate 27 0, di_len = 5\<rparr>\<rparr>"

lemma sample_key_wf: "wf_key sample_prims sample_key"
  by (simp add: wf_key_def sample_key_def sample_prims_def device_id_wf_def)

interpretation device: device_signer sample_prims "key_signer sample_prims sample_key"
  "did_pubkey (key_did sample_prims sample_key)"
  by (rule key_signer_provides [OF sample_prims_ok sample_key_wf])

definition sample_pk :: bytes where "sample_pk = 2 # replicate 31 0 @ [7]"

lemma sample_pk_key: "did_pubkey (key_did sample_prims sample_key) = sample_pk"
  by (simp add: key_did_def from_verifying_key_def sample_key_def sample_prims_def sample_pk_def)

lemma sample_signer: "device_signer sample_prims (key_signer sample_prims sample_key) sample_pk"
  using device.device_signer_axioms by (simp add: sample_pk_key)

section \<open>HMAC is RFC 2104's\<close>

text \<open>RFC 2104 for a key no longer than the block: both pads over the zero-extended key.\<close>

definition rfc2104 :: "(bytes \<Rightarrow> bytes) \<Rightarrow> bytes \<Rightarrow> bytes \<Rightarrow> bytes" where
  "rfc2104 H key msg =
     (let k0 = key @ replicate (64 - length key) 0 in
      H (map (\<lambda>b. b XOR 0x5C) k0 @ H (map (\<lambda>b. b XOR 0x36) k0 @ msg)))"

lemma hmac_pad_eq:
  assumes "length key \<le> 64"
  shows "hmac_pad c key = map (\<lambda>b. b XOR c) (key @ replicate (64 - length key) 0)"
  using assms
  by (intro nth_equalityI) (auto simp: hmac_pad_def nth_append xor.commute)

lemma hmac_sha256_rfc2104:
  "length key \<le> 64 \<Longrightarrow> hmac_sha256 P key parts = rfc2104 (sha256 P) key (concat parts)"
  by (simp add: hmac_sha256_def rfc2104_def hmac_pad_eq Let_def)

section \<open>Making and loading a key\<close>

lemma derive_Some: "derive P b = Some (k, vk) \<longleftrightarrow> scalar_from_repr P b = Some k \<and> vk = public_of P k"
  by (auto simp: derive_def bind_eq_Some_conv)

lemma from_secret_Inr:
  "from_secret P b did = Inr key \<longleftrightarrow>
     (\<exists>k d. device_id_new did = Inr d \<and> scalar_from_repr P b = Some k \<and>
        key = \<lparr>dk_secret = k, dk_public = public_of P k, dk_device_id = d\<rparr>)"
  by (auto simp: from_secret_def result_iffs derive_Some)

lemma from_secret_wf: "from_secret P b did = Inr key \<Longrightarrow> wf_key P key"
  by (auto simp: from_secret_Inr wf_key_def dest: device_id_new_Inr)

text \<open>The tests' keys.\<close>

lemma seed_key:
  assumes "from_seed_for_tests P seed device_id = Inr k"
  shows "wf_key P k" and "device_id_as_str (dk_device_id k) = device_id"
proof -
  from assms have f: "from_secret P (sha256 P (seed @ ascii ''-rusty-esp-mid-test-seed'')) device_id = Inr k"
    by (auto simp: from_seed_for_tests_def split: sum.splits)
  then show "wf_key P k" by (rule from_secret_wf)
  from f show "device_id_as_str (dk_device_id k) = device_id"
    by (auto simp: from_secret_Inr dest: device_id_new_Inr(2))
qed

lemma from_secret_secret_bytes:
  assumes "prims_ok P" "from_secret P b did = Inr key"
  shows "secret_bytes P key = b"
  using assms by (auto simp: from_secret_Inr secret_bytes_def prims_okD(2))

lemma from_secret_of_key:
  assumes "prims_ok P" "wf_key P key" "device_id_new did = Inr (dk_device_id key)"
  shows "from_secret P (secret_bytes P key) did = Inr key"
  using assms by (cases key) (simp add: from_secret_Inr secret_bytes_def prims_okD(4) wf_key_def)

lemma generate_attempts_Inr:
  "generate_attempts P fill did n r = (Inr key, r') \<Longrightarrow>
     dk_device_id key = did \<and> dk_public key = public_of P (dk_secret key)"
  by (induction n arbitrary: r)
    (auto simp: derive_Some split: prod.splits sum.splits option.splits)

lemma generate_Inr:
  assumes "generate P fill r did = (Inr key, r')"
  shows "wf_key P key" and "device_id_new did = Inr (dk_device_id key)"
  using assms generate_attempts_Inr [of P fill _ GENERATE_ATTEMPTS r key r']
  by (auto simp: generate_def wf_key_def dest: device_id_new_Inr simp del: generate_attempts.simps
      split: sum.splits)

text \<open>Giving up means eight draws that were all no scalar; a working source is never blamed for less.\<close>

fun draws :: "'r rng \<Rightarrow> nat \<Rightarrow> 'r \<Rightarrow> bytes list" where
  "draws fill 0 r = []"
| "draws fill (Suc n) r =
     (case fill r 32 of (Inl _, _) \<Rightarrow> [] | (Inr b, r) \<Rightarrow> b # draws fill n r)"

lemma generate_attempts_Crypto:
  assumes "generate_attempts P fill did n r = (Inl e, r')" "\<And>r x r'. fill r 32 = (x, r') \<Longrightarrow> \<exists>b. x = Inr b"
  shows "e = Crypto \<and> length (draws fill n r) = n \<and> (\<forall>b \<in> set (draws fill n r). scalar_from_repr P b = None)"
  using assms(1)
proof (induction n arbitrary: r)
  case 0
  then show ?case by simp
next
  case (Suc n)
  obtain b r1 where f: "fill r 32 = (Inr b, r1)"
    using assms(2) by (metis surj_pair)
  with Suc show ?case
    by (auto simp: derive_def split: option.splits Option.bind_splits)
qed

section \<open>One identity for as long as the store survives\<close>

context kv_store
begin

lemma load_stored:
  assumes "prims_ok P" "inv s" "wf_key P key" "device_id_new did = Inr (dk_device_id key)"
    and "contents s KV_KEY = Some (secret_bytes P key)"
    and "load P K s did = Inr r"
  shows "r = Some key"
proof -
  from assms(6) obtain got where got: "kv_get K s KV_KEY 32 = Inr got"
    by (auto simp: load_def bind_res_eq_Inr)
  with get_value [OF assms(2) got] assms(5) have "got = Some (secret_bytes P key)" by simp
  with got assms(6) from_secret_of_key [OF assms(1,3,4)] prims_okD(3) [OF assms(1)]
  show ?thesis by (simp add: load_def secret_bytes_def)
qed

lemma load_wf:
  assumes "prims_ok P" "inv s" "load P K s did = Inr (Some key)"
  shows "wf_key P key" and "device_id_new did = Inr (dk_device_id key)"
    and "contents s KV_KEY = Some (secret_bytes P key)"
proof -
  from assms(3) obtain b where got: "kv_get K s KV_KEY 32 = Inr (Some b)"
    and fs: "from_secret P b did = Inr key"
    by (auto simp: load_def result_iffs split: option.splits if_splits)
  show "wf_key P key" by (rule from_secret_wf [OF fs])
  show "device_id_new did = Inr (dk_device_id key)" using fs by (auto simp: from_secret_Inr)
  show "contents s KV_KEY = Some (secret_bytes P key)"
    using get_value [OF assms(2) got] from_secret_secret_bytes [OF assms(1) fs] by simp
qed

text \<open>Whatever \<open>load_or_generate\<close> answers is what the store then holds.\<close>

lemma load_or_generate_stored:
  assumes P: "prims_ok P" and s: "inv s" and st: "\<And>v. length v = 32 \<Longrightarrow> storable v"
    and run: "load_or_generate P K fill s r did = (Inr key, s', r')"
  shows "inv s'" and "wf_key P key" and "device_id_new did = Inr (dk_device_id key)"
    and "contents s' KV_KEY = Some (secret_bytes P key)"
    and "\<forall>k. k \<noteq> KV_KEY \<longrightarrow> contents s' k = contents s k"
proof -
  have "inv s' \<and> wf_key P key \<and> device_id_new did = Inr (dk_device_id key) \<and>
      contents s' KV_KEY = Some (secret_bytes P key) \<and> (\<forall>k. k \<noteq> KV_KEY \<longrightarrow> contents s' k = contents s k)"
  proof (cases "load P K s did")
    case (Inl e)
    with run show ?thesis by (simp add: load_or_generate_def)
  next
    case (Inr got)
    show ?thesis
    proof (cases got)
      case (Some k)
      with Inr run have "k = key" "s' = s" by (simp_all add: load_or_generate_def)
      with Inr Some s load_wf [OF P s, of did key] show ?thesis by simp
    next
      case None
      with Inr run obtain r1 where g: "generate P fill r did = (Inr key, r1)"
        and p: "kv_put K s KV_KEY (secret_bytes P key) = (Inr (), s')"
        by (auto simp: load_or_generate_def store_def split: prod.splits sum.splits)
      have "storable (secret_bytes P key)"
        by (rule st) (simp add: secret_bytes_def prims_okD(3) [OF P])
      with put_contents [OF s _ p] generate_Inr [OF g] show ?thesis by simp
    qed
  qed
  then show "inv s'" "wf_key P key" "device_id_new did = Inr (dk_device_id key)"
    "contents s' KV_KEY = Some (secret_bytes P key)"
    "\<forall>k. k \<noteq> KV_KEY \<longrightarrow> contents s' k = contents s k" by blast+
qed

end

context kv_reliable
begin

lemma load_again:
  assumes "prims_ok P" "inv s" "wf_key P key" "device_id_new did = Inr (dk_device_id key)"
    and "contents s KV_KEY = Some (secret_bytes P key)"
  shows "load P K s did = Inr (Some key)"
  using assms get_works [OF assms(2), of KV_KEY 32] from_secret_of_key [OF assms(1,3,4)]
    prims_okD(3) [OF assms(1)]
  by (simp add: load_def secret_bytes_def)

end

section \<open>The public-key cache\<close>

text \<open>
  What the HMAC is there for: an entry whose tag holds under this secret was written by a holder
  of the secret. As a condition on the store: if such an entry is a point, it is the key's own.
\<close>

definition pub_honest ::
  "('sk, 'vk, 'sig) prims \<Rightarrow> 'sk \<Rightarrow> bytes option \<Rightarrow> bool" where
  "pub_honest P k stored \<longleftrightarrow>
     (\<forall>e. stored = Some e \<and> length e = 97 \<and>
          drop 65 e = hmac_sha256 P (scalar_to_repr P k) [PUB_DOMAIN, take 65 e] \<longrightarrow>
          sec1_decode P (take 65 e) \<in> {None, Some (public_of P k)})"

lemma length_hmac [simp]: "prims_ok P \<Longrightarrow> length (hmac_sha256 P key parts) = 32"
  by (simp add: hmac_sha256_def Let_def prims_okD(1))

lemma length_pub_entry: "prims_ok P \<Longrightarrow> length (pub_entry P key secret) = 97"
  by (simp add: pub_entry_def Let_def pubkey_sec1_uncompressed_def prims_okD(9))

lemma pub_entry_parts:
  assumes "prims_ok P"
  shows "take 65 (pub_entry P key secret) = sec1_uncompressed P (dk_public key)"
    and "drop 65 (pub_entry P key secret) =
         hmac_sha256 P secret [PUB_DOMAIN, sec1_uncompressed P (dk_public key)]"
  by (simp_all add: pub_entry_def Let_def pubkey_sec1_uncompressed_def prims_okD(9) [OF assms])

lemma pub_honest_entry:
  assumes "prims_ok P" "wf_key P key"
  shows "pub_honest P (dk_secret key) (Some (pub_entry P key secret))"
  using assms pub_entry_parts(1) [OF assms(1)]
  by (simp add: pub_honest_def wf_key_def prims_okD(8))

context kv_store
begin

lemma cached_public_honest:
  assumes P: "prims_ok P" and s: "inv s" and h: "pub_honest P k (contents s KV_PUB)"
    and c: "cached_public P K s (scalar_to_repr P k) = Some public"
  shows "public = public_of P k"
proof -
  let ?b = "scalar_to_repr P k"
  from c obtain e where g: "kv_get K s KV_PUB 97 = Inr (Some e)" and e: "length e = 97"
    and tag: "or_diff 0 (hmac_sha256 P ?b [PUB_DOMAIN, take 65 e]) (drop 65 e) = 0"
    and d: "sec1_decode P (take 65 e) = Some public"
    by (auto simp: cached_public_def Let_def split: sum.splits option.splits if_splits)
  have "hmac_sha256 P ?b [PUB_DOMAIN, take 65 e] = drop 65 e"
    using tag e P by (simp add: or_diff_0)
  moreover have "contents s KV_PUB = Some e" using get_value [OF s g] by simp
  ultimately have "sec1_decode P (take 65 e) \<in> {None, Some (public_of P k)}"
    using h e unfolding pub_honest_def by metis
  with d show ?thesis by simp
qed

text \<open>The cached load answers what the plain load answers, and touches nothing but the cache.\<close>

lemma load_cached_load:
  assumes P: "prims_ok P" and s: "inv s"
    and h: "\<And>k. contents s KV_KEY = Some (scalar_to_repr P k) \<Longrightarrow> pub_honest P k (contents s KV_PUB)"
  shows "fst (load_cached P K s did) = load P K s did"
proof (cases "kv_get K s KV_KEY 32")
  case (Inl e)
  then show ?thesis by (simp add: load_cached_def load_def)
next
  case (Inr got)
  show ?thesis
  proof (cases got)
    case None
    with Inr show ?thesis by (simp add: load_cached_def load_def)
  next
    case (Some b)
    show ?thesis
    proof (cases "length b = 32 \<and> (\<exists>d k. device_id_new did = Inr d \<and> scalar_from_repr P b = Some k)")
      case False
      with Inr Some show ?thesis
        by (cases "device_id_new did"; cases "scalar_from_repr P b")
          (auto simp: load_cached_def load_def from_secret_cached_def from_secret_def derive_def)
    next
      case True
      then obtain d k where d: "device_id_new did = Inr d" and k: "scalar_from_repr P b = Some k" by blast
      have b: "b = scalar_to_repr P k" using prims_okD(2) [OF P k] by simp
      have "contents s KV_KEY = Some b" using get_value [OF s Inr] Some by simp
      with h [of k] b have hon: "pub_honest P k (contents s KV_PUB)" by simp
      have "cached_public P K s b = Some public \<Longrightarrow> public = public_of P k" for public
        using cached_public_honest [OF P s hon] b by simp
      with Inr Some True d k show ?thesis
        by (auto simp: load_cached_def load_def from_secret_cached_def from_secret_def derive_def
            Let_def split: option.splits)
    qed
  qed
qed

lemma load_cached_frame:
  assumes "inv s"
  shows "inv (snd (load_cached P K s did))"
    and "j \<noteq> KV_PUB \<Longrightarrow> contents (snd (load_cached P K s did)) j = contents s j"
  using assms put_frame [OF assms]
  by (auto simp: load_cached_def from_secret_cached_def store_pub_def Let_def
      split: sum.splits option.splits prod.splits) (metis prod.collapse)+

end

section \<open>The signature cache\<close>

definition sig_honest ::
  "('sk, 'vk, 'sig) prims \<Rightarrow> ('sk, 'vk) device_key \<Rightarrow> bytes option \<Rightarrow> bool" where
  "sig_honest P key stored \<longleftrightarrow>
     (\<forall>e. stored = Some e \<and> length e = 128 \<and>
          drop 96 e = hmac_sha256 P (secret_bytes P key) [SIG_DOMAIN, take 96 e] \<longrightarrow>
          take 64 (drop 32 e) = sign_prehash P key (take 32 e))"

lemma length_sign_prehash: "prims_ok P \<Longrightarrow> length (sign_prehash P key h) = 64"
  by (simp add: sign_prehash_low_s prims_okD(11))

lemma sig_honest_entry:
  assumes "prims_ok P" "length h = 32" "length tag = 32"
  shows "sig_honest P key (Some ((h @ sign_prehash P key h) @ tag))"
  using assms by (simp add: sig_honest_def length_sign_prehash)

context kv_store
begin

lemma sign_prehash_cached_correct:
  assumes P: "prims_ok P" and s: "inv s" and h: "length prehash = 32"
    and honest: "sig_honest P key (contents s name)"
    and st: "\<And>v. length v = 128 \<Longrightarrow> storable v"
  shows "fst (sign_prehash_cached P K s key name prehash) = sign_prehash P key prehash"
    and "inv (snd (sign_prehash_cached P K s key name prehash))"
    and "sig_honest P key (contents (snd (sign_prehash_cached P K s key name prehash)) name)"
    and "j \<noteq> name \<Longrightarrow> contents (snd (sign_prehash_cached P K s key name prehash)) j = contents s j"
proof -
  let ?sec = "secret_bytes P key" and ?sig = "sign_prehash P key prehash"
  let ?head = "prehash @ ?sig"
  let ?entry = "?head @ hmac_sha256 P ?sec [SIG_DOMAIN, ?head]"
  let ?run = "sign_prehash_cached P K s key name prehash"
  have len: "length ?entry = 128" using P h by (simp add: length_sign_prehash)
  have fresh: "inv (snd (kv_put K s name ?entry)) \<and>
      sig_honest P key (contents (snd (kv_put K s name ?entry)) name) \<and>
      (\<forall>j. j \<noteq> name \<longrightarrow> contents (snd (kv_put K s name ?entry)) j = contents s j)"
  proof -
    obtain r s' where put: "kv_put K s name ?entry = (r, s')" by (cases "kv_put K s name ?entry")
    have hon: "sig_honest P key (Some ?entry)" "sig_honest P key None"
      using sig_honest_entry [OF P h, of "hmac_sha256 P ?sec [SIG_DOMAIN, ?head]" key] P
      by (simp_all add: sig_honest_def)
    have "contents s' name \<in> {contents s name, None, Some ?entry}"
      using put put_value [OF s st [OF len]] put_failed [OF s st [OF len]] by (cases r) auto
    with hon honest have "sig_honest P key (contents s' name)" by auto
    with put_frame [OF s put] put show ?thesis by simp
  qed
  have "fst ?run = ?sig \<and> inv (snd ?run) \<and> sig_honest P key (contents (snd ?run) name)
      \<and> (\<forall>j. j \<noteq> name \<longrightarrow> contents (snd ?run) j = contents s j)"
  proof (cases "?run = (?sig, snd (kv_put K s name ?entry))")
    case True
    with fresh show ?thesis by simp
  next
    case False
    then obtain e where hit: "kv_get K s name 128 = Inr (Some e)" "length e = 128"
        "ct_eq32 prehash (take 32 (take 96 e))"
        "ct_eq32 (hmac_sha256 P ?sec [SIG_DOMAIN, take 96 e]) (drop 96 e)"
      and run: "?run = (take 64 (drop 32 (take 96 e)), s)"
      unfolding sign_prehash_cached_def Let_def
      by (simp only: append_assoc split: sum.splits option.splits if_splits) auto
    have tags: "take 32 (take 96 e) = prehash" "drop 96 e = hmac_sha256 P ?sec [SIG_DOMAIN, take 96 e]"
      using hit(3,4) h P by (simp_all add: ct_eq32_iff)
    then have "take 64 (drop 32 e) = sign_prehash P key (take 32 e)"
      using honest hit(2) get_value [OF s hit(1)] unfolding sig_honest_def by metis
    with tags(1) have "take 64 (drop 32 (take 96 e)) = ?sig"
      by (simp add: drop_take length_sign_prehash [OF P])
    with run s honest show ?thesis by simp
  qed
  then show "fst ?run = ?sig" "inv (snd ?run)" "sig_honest P key (contents (snd ?run) name)"
    "j \<noteq> name \<Longrightarrow> contents (snd ?run) j = contents s j" by blast+
qed

end

section \<open>Key agreement\<close>

lemma shared_secret_agrees:
  assumes "prims_ok P" "wf_key P a" "wf_key P b"
  shows "shared_secret P a (key_did P b) = shared_secret P b (key_did P a)"
    and "\<exists>z. shared_secret P a (key_did P b) = Inr z \<and> length z = 32"
  using assms prims_okD(5,16,17) [OF assms(1)]
  by (simp_all add: shared_secret_def key_did_def from_verifying_key_def wf_key_def)

end
