(* ===== verification/Json.thy ===== *)
theory Json
  imports Prelude
begin

text \<open>
  The shape of the JSON the sources read and write, and the two text codecs they call and do not
  define: \<open>serde_json\<close> (text to value and back) and \<open>base64\<close> (\<open>URL_SAFE_NO_PAD\<close>). The codecs
  are records, arguments of the definitions that use them; \<open>codec_ok\<close> and \<open>b64_ok\<close> state what
  their documentation promises. What \<open>serde\<close>'s derives do with a value (fields by name, each
  exactly once, unknown ones ignored, an array in the order of the fields) is written out.
\<close>

section \<open>Values\<close>

text \<open>\<open>JPos\<close>, \<open>JNeg\<close> and \<open>JFloat\<close> are the three forms of \<open>serde_json::Number\<close>. An object is its
  entries in the order of the text.\<close>

datatype json =
    JNull
  | JBool bool
  | JPos u64
  | JNeg u64
  | JFloat bytes
  | JStr rstr
  | JArr "json list"
  | JObj "(rstr \<times> json) list"

text \<open>\<open>Value::get\<close>, \<open>as_str\<close>, \<open>as_u64\<close>, \<open>as_array\<close>. In a \<open>Map\<close> the last of two equal keys stays.\<close>

definition json_get :: "json \<Rightarrow> rstr \<Rightarrow> json option" where
  "json_get v k = (case v of JObj es \<Rightarrow> map_of (rev es) k | _ \<Rightarrow> None)"

definition as_str :: "json \<Rightarrow> rstr option" where
  "as_str v = (case v of JStr s \<Rightarrow> Some s | _ \<Rightarrow> None)"

definition as_u64 :: "json \<Rightarrow> u64 option" where
  "as_u64 v = (case v of JPos w \<Rightarrow> Some w | _ \<Rightarrow> None)"

definition is_array :: "json \<Rightarrow> bool" where
  "is_array v = (case v of JArr _ \<Rightarrow> True | _ \<Rightarrow> False)"

lemma json_reads [simp]:
  "as_str (JStr s) = Some s" "as_u64 (JPos w) = Some w"
  "json_get (JObj es) k = map_of (rev es) k"
  by (simp_all add: as_str_def as_u64_def json_get_def)

section \<open>What a derived \<open>Deserialize\<close> reads\<close>

definition struct_entries :: "rstr list \<Rightarrow> json \<Rightarrow> (rstr \<times> json) list option" where
  "struct_entries names v =
     (case v of
        JObj es \<Rightarrow> Some es
      | JArr vs \<Rightarrow> if length vs = length names then Some (zip names vs) else None
      | _ \<Rightarrow> None)"

definition the_field :: "(rstr \<times> json) list \<Rightarrow> rstr \<Rightarrow> json option" where
  "the_field es k = (case filter (\<lambda>e. fst e = k) es of [(_, v)] \<Rightarrow> Some v | _ \<Rightarrow> None)"

definition de_u8 :: "json \<Rightarrow> u8 option" where
  "de_u8 v = (case v of JPos w \<Rightarrow> if w < 256 then Some (ucast w) else None | _ \<Rightarrow> None)"

lemma ucast_u8_u64: "unat (ucast (w :: u8) :: u64) = unat w"
proof -
  have "unat w < 2 ^ 64" using unsigned_less [of w, where 'a = nat] by simp
  then show ?thesis by (simp add: unsigned_ucast_eq take_bit_nat_eq_self)
qed

lemma ucast_u64_u8: "ucast (ucast (w :: u8) :: u64) = w"
  by (simp add: unsigned_ucast_eq take_bit_word_eq_self)

lemma de_u8_ucast [simp]: "de_u8 (JPos (ucast (w :: u8))) = Some w"
  using unsigned_less [of w, where 'a = nat]
  by (simp add: de_u8_def word_less_nat_alt ucast_u8_u64 ucast_u64_u8)

section \<open>The text codecs\<close>

record b64 =
  b64_encode :: "bytes \<Rightarrow> rstr"
  b64_decode :: "rstr \<Rightarrow> bytes option"

text \<open>Decoding and encoding are inverse, and the alphabet (letters, digits, hyphen, underscore) has
  neither a full stop nor a line break.\<close>

definition b64_ok :: "b64 \<Rightarrow> bool" where
  "b64_ok E \<longleftrightarrow>
     (\<forall>b. b64_decode E (b64_encode E b) = Some b) \<and>
     (\<forall>t b. b64_decode E t = Some b \<longrightarrow> b64_encode E b = t) \<and>
     (\<forall>b. \<forall>x \<in> set (b64_encode E b). x < 0x80 \<and> x \<noteq> 0x2E \<and> x \<noteq> 0x0A)"

lemma b64_okD:
  assumes "b64_ok E"
  shows "b64_decode E (b64_encode E b) = Some b"
    and "b64_decode E t = Some b \<Longrightarrow> b64_encode E b = t"
    and "\<forall>x \<in> set (b64_encode E b). x < 0x80"
    and "0x2E \<notin> set (b64_encode E b)"
    and "0x0A \<notin> set (b64_encode E b)"
  using assms unfolding b64_ok_def by auto

lemma b64_encode_inj: "b64_ok E \<Longrightarrow> b64_encode E a = b64_encode E b \<Longrightarrow> a = b"
  by (metis b64_okD(1) option.inject)

record json_codec =
  js_write :: "json \<Rightarrow> rstr"
  js_parse :: "rstr \<Rightarrow> json option"

text \<open>
  \<open>json_plain d v\<close>: no floats, every string a Rust string, and at most \<open>d\<close> levels deep. The
  parser reads such values back, up to its documented nesting limit.
\<close>

fun json_plain :: "nat \<Rightarrow> json \<Rightarrow> bool" where
  "json_plain d (JFloat _) = False"
| "json_plain d (JStr s) = utf8_valid s"
| "json_plain (Suc d) (JArr vs) = (\<forall>v \<in> set vs. json_plain d v)"
| "json_plain (Suc d) (JObj es) = (\<forall>e \<in> set es. utf8_valid (fst e) \<and> json_plain d (snd e))"
| "json_plain 0 (JArr vs) = False"
| "json_plain 0 (JObj es) = False"
| "json_plain d _ = True"

lemma json_plain_numeral [simp]:
  "json_plain (numeral d) (JArr vs) = (\<forall>v \<in> set vs. json_plain (pred_numeral d) v)"
  "json_plain (numeral d) (JObj es) =
     (\<forall>e \<in> set es. utf8_valid (fst e) \<and> json_plain (pred_numeral d) (snd e))"
  by (simp_all add: numeral_eq_Suc)

abbreviation JSON_DEPTH :: nat where "JSON_DEPTH \<equiv> 127"

definition codec_ok :: "json_codec \<Rightarrow> bool" where
  "codec_ok J \<longleftrightarrow> (\<forall>v. json_plain JSON_DEPTH v \<longrightarrow> js_parse J (js_write J v) = Some v)"

lemma codec_okD: "codec_ok J \<Longrightarrow> json_plain JSON_DEPTH v \<Longrightarrow> js_parse J (js_write J v) = Some v"
  by (simp add: codec_ok_def)

lemma utf8_valid_ascii_text: "list_all (\<lambda>c. (of_char c :: u8) < 0x80) s \<Longrightarrow> utf8_valid (ascii s)"
  by (rule utf8_valid_ascii_bytes) (auto simp: ascii_def list_all_iff)

end
