(* ===== verification/Prop_Adoption.thy ===== *)
theory Prop_Adoption
  imports Adoption_Accept Key_Correct Json
begin

text \<open>
  What \<open>adoption.rs\<close> and \<open>cap.rs\<close> promise: the properties, with their witnesses on one
  sample grant.
\<close>

section \<open>Sample data for the witnesses\<close>

definition sample_fields :: adoption_fields where
  "sample_fields = \<lparr>af_device_did = ascii ''did:mata:d'', af_owner_did = ascii ''did:mata:o'',
     af_owner_genesis_pubkey = sample_pk, af_hub_endpoint_id = replicate 32 9, af_hub_relay = [],
     af_hub_host = ascii ''hub'', af_caps = CapSlice [ascii ''camera:view'', ascii ''lamp:set@hall''],
     af_roster_version = 3, af_issued_at = 10, af_expires_at = 20\<rparr>"

lemma sample_caps: "caps_of (af_caps sample_fields) = [ascii ''camera:view'', ascii ''lamp:set@hall'']"
  by (simp add: sample_fields_def caps_of_def cap_iter_of_def iter_collect.simps)

lemma sample_parse: "parse (ascii ''camera:view'') \<noteq> None" "parse (ascii ''lamp:set@hall'') \<noteq> None"
  by code_simp+

lemma sample_fields_valid: "validate sample_fields = Inr ()"
  using sample_parse unfolding validate_Inr sample_caps
  by (simp add: sample_fields_def cap_len_def ascii_def)

lemma sample_fields_wf: "fields_wf sample_fields"
  unfolding fields_wf_def sample_caps
  by (simp add: sample_fields_def arrays_ok_def sample_pk_def cap_len_def utf8_valid_ascii_text)

section \<open>Adoption\<close>

text \<open>C2. \<open>decode\<close> accepts exactly the canonical bytes of well-formed, valid fields followed by 64
  bytes of signature, and answers those fields, that signature and those bytes: nothing is
  accepted twice over, skipped, or left unread.\<close>

theorem adoption_decode_exact:
  "decode bs = Inr a \<longleftrightarrow>
     (\<exists>f sig. fields_wf f \<and> validate f = Inr () \<and> length sig = SIG_LEN \<and> bs = canonical f @ sig \<and>
        a = \<lparr>ad_fields = wire_view f, ad_signature = sig, ad_canonical = canonical f\<rparr>)"
proof
  assume "decode bs = Inr a"
  note d = decode_Inr [OF this]
  have "a = \<lparr>ad_fields = wire_view (ad_fields a), ad_signature = ad_signature a,
      ad_canonical = canonical (ad_fields a)\<rparr>"
    using d(3,6) by (cases a) simp
  with d(1,2,4,5) show "\<exists>f sig. fields_wf f \<and> validate f = Inr () \<and> length sig = SIG_LEN \<and>
      bs = canonical f @ sig \<and>
      a = \<lparr>ad_fields = wire_view f, ad_signature = sig, ad_canonical = canonical f\<rparr>" by blast
qed (auto simp: decode_canonical)

text \<open>C3. \<open>accept\<close> answers the offered owner's key and roster version exactly when the adoption
  names this device, its signature holds under its own owner key, the pin allows it (same key,
  version not older) and it has not expired; anything else is \<open>Denied\<close> or \<open>Crypto\<close>.\<close>

theorem adoption_accept_exact:
  "accept P a my_did pin now \<in>
     {Inr \<lparr>genesis_pubkey = af_owner_genesis_pubkey (ad_fields a),
           roster_version = af_roster_version (ad_fields a)\<rparr>, Inl Denied, Inl Crypto}
   \<and> (accept P a my_did pin now =
        Inr \<lparr>genesis_pubkey = af_owner_genesis_pubkey (ad_fields a),
             roster_version = af_roster_version (ad_fields a)\<rparr> \<longleftrightarrow>
      af_device_did (ad_fields a) = my_did \<and> verify_signature P a = Inr () \<and>
      pin_allows pin (af_owner_genesis_pubkey (ad_fields a)) (af_roster_version (ad_fields a)) \<and>
      unexpired (af_expires_at (ad_fields a)) now)"
proof
  show "accept P a my_did pin now \<in>
     {Inr \<lparr>genesis_pubkey = af_owner_genesis_pubkey (ad_fields a),
           roster_version = af_roster_version (ad_fields a)\<rparr>, Inl Denied, Inl Crypto}"
    using accept_error [of P a my_did pin now] accept_Inr [of P a my_did pin now]
    by (cases "accept P a my_did pin now") auto
qed (simp add: accept_Inr)

text \<open>C4. Trust on first use: a device pinned to an owner, offered any sequence of bytes as
  adoptions at any times, stays pinned to that owner's key and never to an older roster.\<close>

theorem adoption_owner_pinned:
  assumes "(pin_step (offer_adoption P my_did))\<^sup>*\<^sup>* (Some p) pin"
  shows "\<exists>q. pin = Some q \<and> genesis_pubkey q = genesis_pubkey p \<and> roster_version p \<le> roster_version q"
  using assms by (rule adopt_tofu.run_pinned)

text \<open>The owner's newer grant is taken by a device pinned at an older roster.\<close>

lemma sample_offer:
  "\<exists>bs. offer_adoption sample_prims (af_device_did sample_fields) (bs, Some 19)
     (Some \<lparr>genesis_pubkey = sample_pk, roster_version = 2\<rparr>) =
     Some \<lparr>genesis_pubkey = sample_pk, roster_version = 3\<rparr>"
proof -
  let ?S = "key_signer sample_prims sample_key" and ?out = "replicate 400 (0 :: u8)"
  have S: "device_signer sample_prims ?S (af_owner_genesis_pubkey sample_fields)"
    using sample_signer by (simp add: sample_fields_def)
  have room: "canonical_len sample_fields + SIG_LEN \<le> length ?out"
    unfolding canonical_len_def sample_caps by (simp add: sample_fields_def)
  obtain out' a where a: "decode (take (canonical_len sample_fields + SIG_LEN) out') = Inr a"
      "ad_fields a = wire_view sample_fields" "verify_signature sample_prims a = Inr ()"
    by (rule signed_accepted [OF S sample_fields_wf sample_fields_valid room])
  have "accept sample_prims a (af_device_did sample_fields)
      (Some \<lparr>genesis_pubkey = sample_pk, roster_version = 2\<rparr>) (Some 19) =
      Inr \<lparr>genesis_pubkey = sample_pk, roster_version = 3\<rparr>"
    using a(3) by (simp add: accept_Inr a(2)) (simp add: wire_view_def sample_fields_def pin_allows_def unexpired_def)
  with a(1) show ?thesis unfolding offer_adoption_Some by blast
qed

theorem adoption_owner_pinned_witness:
  "\<exists>pin q. (pin_step (offer_adoption sample_prims (af_device_did sample_fields)))\<^sup>*\<^sup>*
       (Some \<lparr>genesis_pubkey = sample_pk, roster_version = 2\<rparr>) pin
     \<and> pin = Some q \<and> genesis_pubkey q = sample_pk \<and> roster_version q = 3"
proof -
  let ?pin = "Some \<lparr>genesis_pubkey = sample_pk, roster_version = 3\<rparr>"
  have "(pin_step (offer_adoption sample_prims (af_device_did sample_fields)))\<^sup>*\<^sup>*
      (Some \<lparr>genesis_pubkey = sample_pk, roster_version = 2\<rparr>) ?pin"
    using sample_offer by (blast intro: pin_step.taken)
  from this adoption_owner_pinned [OF this] show ?thesis by (intro exI [of _ ?pin]) auto
qed

text \<open>C27. \<open>encode\<close> on every branch: an invalid grant or a short buffer is refused with the buffer
  untouched, and otherwise exactly the canonical form is written at the front of it; it never
  panics and never writes past the form.\<close>

theorem adoption_encode_total:
  assumes "arrays_ok f"
  shows "encode f out =
    (case validate f of
       Inl e \<Rightarrow> (Inl e, out)
     | Inr _ \<Rightarrow>
         if length out < canonical_len f then (Inl (BufferTooSmall (canonical_len f)), out)
         else (Inr (canonical_len f), canonical f @ drop (canonical_len f) out))"
  using assms by (rule encode_cases)

theorem adoption_encode_total_witness:
  "encode sample_fields (replicate 300 0) =
     (Inr (canonical_len sample_fields),
      canonical sample_fields @ drop (canonical_len sample_fields) (replicate 300 0))"
proof -
  have "arrays_ok sample_fields" using sample_fields_wf by (simp add: fields_wf_def)
  moreover have "canonical_len sample_fields \<le> 300"
    unfolding canonical_len_def sample_caps by (simp add: sample_fields_def)
  ultimately show ?thesis
    by (simp add: adoption_encode_total sample_fields_valid)
qed

text \<open>C8. A request is granted exactly when some granted capability covers it: the request's set of
  component, action and scope is included in the capability's.\<close>

theorem grants_cover:
  "grants a needed \<longleftrightarrow>
     (\<exists>n s g. parse needed = Some n \<and> s \<in> set (caps_of (af_caps (ad_fields a))) \<and> parse s = Some g \<and>
        covers n \<subseteq> covers g)"
  by (simp add: grants_def any_satisfies_granted matching.granted_def satisfies_iff_covers) blast

text \<open>C9. Capability strings have one reading and one spelling: \<open>parse\<close> succeeds exactly on the text
  of a capability with clean parts, and reads back what was printed.\<close>

theorem cap_parse_print:
  "parse s = Some c \<longleftrightarrow> wf_cap c \<and> s = cap_format c"
  using parse_Some [of s c] parse_format [of c] by blast

end
