(* ===== verification/Nonce.thy ===== *)
theory Nonce
  imports Prelude
begin

text \<open>
  \<open>crates/rusty_esp_mid-core/src/nonce.rs\<close>: \<open>NonceWindow<N>\<close>, a ring of the last \<open>N\<close> nonces.
  The abstract state is the queue of remembered nonces, oldest first.
\<close>

section \<open>The ring\<close>

record nonce_window =
  seen :: "bytes list"
  nw_len :: nat
  nw_next :: nat

definition new_window :: "nat \<Rightarrow> nonce_window" where
  "new_window N = \<lparr>seen = replicate N (replicate 32 0), nw_len = 0, nw_next = 0\<rparr>"

text \<open>\<open>self.seen[..self.len]\<close> panics when \<open>len\<close> leaves the array.\<close>

definition contains :: "nonce_window \<Rightarrow> bytes \<Rightarrow> bool result" where
  "contains w nonce =
     (if nw_len w \<le> length (seen w)
      then Inr (list_ex (\<lambda>n. n = nonce) (take (nw_len w) (seen w)))
      else Inl Panic)"

definition check_and_insert :: "nat \<Rightarrow> nonce_window \<Rightarrow> bytes \<Rightarrow> (bool \<times> nonce_window) result" where
  "check_and_insert N w nonce =
     (if N = 0 then Inr (False, w)
      else bind_res (contains w nonce) (\<lambda>c.
        if c then Inr (False, w)
        else if nw_next w < length (seen w)
        then Inr (True,
          w\<lparr>seen := (seen w)[nw_next w := nonce],
            nw_next := (nw_next w + 1) mod N,
            nw_len := (if nw_len w < N then nw_len w + 1 else nw_len w)\<rparr>)
        else Inl Panic))"

definition nw_is_empty :: "nonce_window \<Rightarrow> bool" where
  "nw_is_empty w \<longleftrightarrow> nw_len w = 0"

definition clear :: "nonce_window \<Rightarrow> nonce_window" where
  "clear w = w\<lparr>nw_len := 0, nw_next := 0\<rparr>"

text \<open>A sequence of frames offered to the window: what each was answered, and the window after.\<close>

fun offer_all :: "nat \<Rightarrow> nonce_window \<Rightarrow> bytes list \<Rightarrow> (bool list \<times> nonce_window) result" where
  "offer_all N w [] = Inr ([], w)"
| "offer_all N w (x # xs) =
     bind_res (check_and_insert N w x) (\<lambda>(b, w').
       bind_res (offer_all N w' xs) (\<lambda>(bs, w''). Inr (b # bs, w'')))"

section \<open>Invariant and abstraction\<close>

definition window_inv :: "nat \<Rightarrow> nonce_window \<Rightarrow> bool" where
  "window_inv N w \<longleftrightarrow>
     length (seen w) = N \<and> nw_len w \<le> N \<and>
     (if nw_len w < N then nw_next w = nw_len w else nw_next w < N \<or> N = 0)"

definition window_abs :: "nat \<Rightarrow> nonce_window \<Rightarrow> bytes list" where
  "window_abs N w =
     (if nw_len w < N then take (nw_len w) (seen w)
      else drop (nw_next w) (seen w) @ take (nw_next w) (seen w))"

text \<open>The specification: a queue that forgets its oldest element when it is full.\<close>

definition queue_offer :: "nat \<Rightarrow> 'n list \<Rightarrow> 'n \<Rightarrow> bool \<times> 'n list" where
  "queue_offer N q x =
     (if N = 0 \<or> x \<in> set q then (False, q)
      else (True, (if length q < N then q else tl q) @ [x]))"

fun queue_offers :: "nat \<Rightarrow> 'n list \<Rightarrow> 'n list \<Rightarrow> bool list \<times> 'n list" where
  "queue_offers N q [] = ([], q)"
| "queue_offers N q (x # xs) =
     (let (b, q') = queue_offer N q x; (bs, q'') = queue_offers N q' xs in (b # bs, q''))"

lemma window_inv_new: "window_inv N (new_window N)"
  by (simp add: window_inv_def new_window_def)

lemma window_inv_clear: "window_inv N w \<Longrightarrow> window_inv N (clear w)"
  by (auto simp: window_inv_def clear_def split: if_splits)

lemma window_abs_empty:
  "window_abs N (new_window N) = []"
  "window_inv N w \<Longrightarrow> window_abs N (clear w) = []"
  by (auto simp: window_abs_def new_window_def clear_def window_inv_def)

lemma set_window_abs:
  assumes "window_inv N w"
  shows "set (window_abs N w) = set (take (nw_len w) (seen w))"
proof (cases "nw_len w < N")
  case True
  then show ?thesis by (simp add: window_abs_def)
next
  case False
  with assms have "take (nw_len w) (seen w) = seen w" by (simp add: window_inv_def)
  moreover have "set (drop k xs @ take k xs) = set xs" for k and xs :: "bytes list"
    by (metis append_take_drop_id set_append sup_commute)
  ultimately show ?thesis using False by (simp only: window_abs_def if_False)
qed

lemma length_window_abs: "window_inv N w \<Longrightarrow> length (window_abs N w) = nw_len w"
  by (auto simp: window_inv_def window_abs_def)

lemma contains_abs:
  assumes "window_inv N w"
  shows "contains w x = Inr (x \<in> set (window_abs N w))"
  using assms set_window_abs [OF assms]
  by (auto simp: contains_def window_inv_def list_ex_iff)

lemma ring_step:
  assumes "k < length xs"
  shows "drop ((k + 1) mod length xs) (xs[k := x]) @ take ((k + 1) mod length xs) (xs[k := x])
         = tl (drop k xs @ take k xs) @ [x]"
proof -
  have tl: "tl (drop k xs @ take k xs) = drop (Suc k) xs @ take k xs"
    using assms by (metis Cons_nth_drop_Suc append_Cons list.sel(3))
  show ?thesis
  proof (cases "k + 1 = length xs")
    case True
    then show ?thesis using tl assms
      by (simp add: upd_conv_take_nth_drop)
  next
    case False
    with assms have "(k + 1) mod length xs = Suc k" by simp
    then show ?thesis using tl assms
      by (simp add: take_Suc_conv_app_nth)
  qed
qed

lemma check_and_insert_refines:
  assumes "window_inv N w"
  shows "\<exists>w'. check_and_insert N w x = Inr (fst (queue_offer N (window_abs N w) x), w')
           \<and> window_abs N w' = snd (queue_offer N (window_abs N w) x)
           \<and> window_inv N w'"
proof (cases "N = 0 \<or> x \<in> set (window_abs N w)")
  case True
  with assms show ?thesis
    by (auto simp: check_and_insert_def queue_offer_def contains_abs)
next
  case False
  let ?w' = "w\<lparr>seen := (seen w)[nw_next w := x], nw_next := (nw_next w + 1) mod N,
               nw_len := (if nw_len w < N then nw_len w + 1 else nw_len w)\<rparr>"
  have bound: "nw_next w < length (seen w)"
    using assms False by (auto simp: window_inv_def split: if_splits)
  have step: "check_and_insert N w x = Inr (True, ?w')"
    using False bound by (simp add: check_and_insert_def contains_abs [OF assms])
  have inv: "window_inv N ?w'"
    using assms False bound by (auto simp: window_inv_def)
  have abs: "window_abs N ?w' =
      (if length (window_abs N w) < N then window_abs N w else tl (window_abs N w)) @ [x]"
  proof (cases "nw_len w < N")
    case full: False
    then show ?thesis
      using assms bound ring_step [OF bound, of x] length_window_abs [OF assms]
      by (auto simp: window_abs_def window_inv_def)
  next
    case room: True
    with assms have nx: "nw_next w = nw_len w" and len: "length (seen w) = N"
      by (auto simp: window_inv_def)
    have take: "take (Suc (nw_len w)) ((seen w)[nw_len w := x]) = take (nw_len w) (seen w) @ [x]"
      using room len by (simp add: take_Suc_conv_app_nth)
    show ?thesis
    proof (cases "nw_len w + 1 < N")
      case True
      with room nx take len show ?thesis
        by (simp add: window_abs_def)
    next
      case False
      with room have "nw_len w + 1 = N" by simp
      with room nx take len show ?thesis
        by (auto simp: window_abs_def)
    qed
  qed
  from False step inv abs show ?thesis
    by (auto simp: queue_offer_def)
qed

section \<open>What a replay guard promises, from the queue specification alone\<close>

locale replay_guard =
  fixes cap :: nat
    and offer :: "'s \<Rightarrow> 'n \<Rightarrow> (bool \<times> 's) result"
    and queue :: "'s \<Rightarrow> 'n list"
    and inv :: "'s \<Rightarrow> bool"
  assumes offer_refines: "inv s \<Longrightarrow>
      \<exists>s'. offer s x = Inr (fst (queue_offer cap (queue s) x), s')
        \<and> queue s' = snd (queue_offer cap (queue s) x) \<and> inv s'"
begin

fun offers :: "'s \<Rightarrow> 'n list \<Rightarrow> (bool list \<times> 's) result" where
  "offers s [] = Inr ([], s)"
| "offers s (x # xs) =
     bind_res (offer s x) (\<lambda>(b, s').
       bind_res (offers s' xs) (\<lambda>(bs, s''). Inr (b # bs, s'')))"

text \<open>An element with \<open>k\<close> others behind it in the queue.\<close>

definition behind :: "'s \<Rightarrow> 'n \<Rightarrow> nat \<Rightarrow> bool" where
  "behind s x k \<longleftrightarrow> (\<exists>p q. queue s = p @ x # q \<and> length q = k)"

lemma offer_total: "inv s \<Longrightarrow> \<exists>b s'. offer s x = Inr (b, s') \<and> inv s'"
  using offer_refines by blast

lemma offers_total: "inv s \<Longrightarrow> \<exists>bs s'. offers s xs = Inr (bs, s') \<and> inv s'"
proof (induction xs arbitrary: s)
  case (Cons x xs)
  from offer_total [OF Cons.prems] obtain b s' where "offer s x = Inr (b, s')" "inv s'" by blast
  with Cons.IH [of s'] show ?case by auto
qed simp

lemma accepted_at_end:
  assumes "inv s" "offer s x = Inr (True, s')"
  shows "inv s' \<and> behind s' x 0"
  using offer_refines [OF assms(1), of x] assms(2)
  by (auto simp: behind_def queue_offer_def split: if_splits)

lemma seen_is_refused:
  assumes "inv s" "behind s x k"
  shows "\<exists>s'. offer s x = Inr (False, s') \<and> queue s' = queue s \<and> inv s'"
  using offer_refines [OF assms(1), of x] assms(2)
  by (auto simp: behind_def queue_offer_def)

lemma behind_step:
  assumes "inv s" "behind s x k" "offer s y = Inr (b, s')" "k + (if b then 1 else 0) < cap"
  shows "inv s' \<and> behind s' x (k + (if b then 1 else 0))"
proof -
  from offer_refines [OF assms(1), of y] assms(3)
  have b: "b = fst (queue_offer cap (queue s) y)"
    and q: "queue s' = snd (queue_offer cap (queue s) y)" and i: "inv s'"
    by auto
  from assms(2) obtain p r where s: "queue s = p @ x # r" and k: "length r = k"
    by (auto simp: behind_def)
  show ?thesis
  proof (cases b)
    case False
    with b q s k i show ?thesis by (auto simp: queue_offer_def behind_def split: if_splits)
  next
    case True
    with b q have q': "queue s' = (if length (queue s) < cap then queue s else tl (queue s)) @ [y]"
      by (auto simp: queue_offer_def split: if_splits)
    have "\<exists>p'. queue s' = p' @ x # (r @ [y])"
    proof (cases "length (queue s) < cap")
      case False
      with s k True assms(4) have "p \<noteq> []" by (cases p) auto
      with q' s False show ?thesis by (cases p) auto
    qed (use q' s in auto)
    then obtain p' where "queue s' = p' @ x # (r @ [y])" by blast
    moreover have "length (r @ [y]) = k + 1" using k by simp
    ultimately show ?thesis using True i unfolding behind_def by (metis (full_types))
  qed
qed

lemma behind_run:
  assumes "inv s" "behind s x k" "offers s ys = Inr (bs, s')" "k + count_list bs True < cap"
  shows "inv s' \<and> behind s' x (k + count_list bs True)"
  using assms
proof (induction ys arbitrary: s k bs)
  case Nil
  then show ?case by simp
next
  case (Cons y ys)
  from Cons.prems(3) obtain b t cs where st: "offer s y = Inr (b, t)"
    and rest: "offers t ys = Inr (cs, s')" and bs: "bs = b # cs"
    by (auto simp: bind_res_eq_Inr)
  have "inv t \<and> behind t x (k + (if b then 1 else 0))"
    using behind_step [OF Cons.prems(1,2) st] Cons.prems(4) bs by (auto split: if_splits)
  with Cons.IH [OF _ _ rest, of "k + (if b then 1 else 0)"] Cons.prems(4) bs show ?case
    by (cases b) simp_all
qed

text \<open>The promise: after a nonce is accepted it is refused while fewer than \<open>cap\<close> newer
  ones have been accepted, whatever was offered in between.\<close>

lemma replay_refused:
  assumes "inv s" "offer s x = Inr (True, s1)" "offers s1 ys = Inr (bs, s2)"
    "count_list bs True < cap"
  shows "\<exists>s3. offer s2 x = Inr (False, s3) \<and> queue s3 = queue s2"
proof -
  from accepted_at_end [OF assms(1,2)] have "inv s1" "behind s1 x 0" by auto
  from behind_run [OF this assms(3)] assms(4) have "inv s2" "behind s2 x (count_list bs True)"
    by auto
  from seen_is_refused [OF this] show ?thesis by blast
qed

end

interpretation window: replay_guard N "check_and_insert N" "window_abs N" "window_inv N" for N
  by unfold_locales (rule check_and_insert_refines)

lemma offer_all_offers: "offer_all N w xs = window.offers N w xs"
  by (induction xs arbitrary: w) simp_all

lemma refused_unchanged: "check_and_insert N w x = Inr (False, w') \<Longrightarrow> w' = w"
  by (auto simp: check_and_insert_def bind_res_eq_Inr split: if_splits)

lemma offer_all_refines:
  assumes "window_inv N w"
  shows "\<exists>w'. offer_all N w xs = Inr (fst (queue_offers N (window_abs N w) xs), w')
           \<and> window_abs N w' = snd (queue_offers N (window_abs N w) xs) \<and> window_inv N w'"
  using assms
proof (induction xs arbitrary: w)
  case (Cons x xs)
  from check_and_insert_refines [OF Cons.prems, of x] obtain w1 where
    w1: "check_and_insert N w x = Inr (fst (queue_offer N (window_abs N w) x), w1)"
      "window_abs N w1 = snd (queue_offer N (window_abs N w) x)" "window_inv N w1" by blast
  from Cons.IH [OF w1(3)] w1(1,2) show ?case by (auto simp: Let_def split_beta)
qed simp

end
