(* ===== verification/Jws.thy ===== *)
theory Jws
  imports Signer Json
begin

text \<open>
  \<open>crates/rusty_esp_mid-core/src/jws.rs\<close>: the compact ES256 form: what its three segments
  decode to and what its signature is over. Reading such a text is the relying party's code and is
  not in the repository.
\<close>

section \<open>The builder\<close>

definition JWS_HEADER_JSON :: bytes where
  "JWS_HEADER_JSON = ascii (concat [[CHR 0x7B], [CHR 0x22], ''alg'', [CHR 0x22], '':'', [CHR 0x22],
     ''ES256'', [CHR 0x22], '','', [CHR 0x22], ''typ'', [CHR 0x22], '':'', [CHR 0x22], ''JWT'',
     [CHR 0x22], [CHR 0x7D]])"

definition build_jws_compact ::
  "('sk, 'vk, 'sig) prims \<Rightarrow> b64 \<Rightarrow> bytes \<Rightarrow> signer \<Rightarrow> rstr" where
  "build_jws_compact P E payload_json S =
     (let header_b64 = b64_encode E JWS_HEADER_JSON;
          payload_b64 = b64_encode E payload_json;
          signing_input = header_b64 @ [0x2E] @ payload_b64;
          prehash = sha256 P signing_input;
          signature = sg_sign_prehash S prehash in
      signing_input @ [0x2E] @ b64_encode E signature)"

section \<open>The three segments\<close>

lemma jws_parts:
  assumes "b64_ok E"
  shows "split_on 0x2E (build_jws_compact P E m S) =
    [b64_encode E JWS_HEADER_JSON, b64_encode E m,
     b64_encode E (sg_sign_prehash S (sha256 P (b64_encode E JWS_HEADER_JSON @ [0x2E] @ b64_encode E m)))]"
  using b64_okD(4) [OF assms]
  by (simp add: build_jws_compact_def Let_def split_on_append split_on_no_sep)

text \<open>The text determines the payload, whoever signed.\<close>

lemma jws_payload_unique:
  assumes "b64_ok E" "build_jws_compact P E m S = build_jws_compact P' E m' S'"
  shows "m = m'"
proof -
  have "split_on 0x2E (build_jws_compact P E m S) = split_on 0x2E (build_jws_compact P' E m' S')"
    by (simp only: assms(2))
  then have "b64_encode E m = b64_encode E m'" by (simp add: jws_parts [OF assms(1)])
  with b64_encode_inj [OF assms(1)] show ?thesis by blast
qed

context device_signer
begin

text \<open>What a reader of the text finds: the header, the payload, and a signature that holds for the
  first two segments as they stand.\<close>

lemma jws_segments:
  assumes "b64_ok E"
  shows "\<exists>sig. split_on 0x2E (build_jws_compact P E m S) =
      [b64_encode E JWS_HEADER_JSON, b64_encode E m, b64_encode E sig]
    \<and> length sig = 64
    \<and> verify_prehash P pk (sha256 P (b64_encode E JWS_HEADER_JSON @ [0x2E] @ b64_encode E m)) sig = Inr ()"
  unfolding jws_parts [OF assms] using sign_length sign_hash_verifies by blast

end

text \<open>A text that splits in three is its parts, put together again.\<close>

lemma split_on_three: "split_on c t = [h, p, s] \<Longrightarrow> t = h @ [c] @ p @ [c] @ s"
proof -
  have join: "split_on c t = a # r \<Longrightarrow> t = a @ concat (map (\<lambda>x. c # x) r)" for t a r
  proof (induction t arbitrary: a r)
    case (Cons x xs)
    have "split_on c xs \<noteq> []" by (cases xs) (auto split: list.splits)
    then obtain b q where bq: "split_on c xs = b # q" by (cases "split_on c xs") auto
    have ar: "a # r = (if x = c then [] # b # q else (x # b) # q)"
      using Cons.prems by (cases "x = c") (simp_all add: bq)
    show ?case using ar by (subst Cons.IH [OF bq]) (auto split: if_splits)
  qed simp
  assume "split_on c t = [h, p, s]"
  from join [OF this] show ?thesis by simp
qed

end
