(* ===== verification/Envelope.thy ===== *)
theory Envelope
  imports Signer
begin

text \<open>
  What the signed byte forms of the crate have in common: a domain separator, then a body that
  determines the fields. The locale \<open>signed_form\<close> is that contract; every form (adoption,
  status, nonce envelope, setup reply, manifest, maker) interprets it on its own definitions,
  and what a signature then binds is proved here once.
\<close>

text \<open>Two messages with one hash: what a forger would have to find.\<close>

definition hash_collision :: "('sk, 'vk, 'sig) prims \<Rightarrow> bytes \<Rightarrow> bytes \<Rightarrow> bool" where
  "hash_collision P m m' \<longleftrightarrow> m \<noteq> m' \<and> sha256 P m = sha256 P m'"

locale signed_form =
  fixes message :: "'a \<Rightarrow> bytes"
    and body :: "'a \<Rightarrow> bytes"
    and ok :: "'a \<Rightarrow> bool"
    and separator :: bytes
  assumes message_form: "ok x \<Longrightarrow> message x = separator @ body x"
    and body_inj: "ok x \<Longrightarrow> ok y \<Longrightarrow> body x = body y \<Longrightarrow> x = y"
begin

lemma message_inj: "ok x \<Longrightarrow> ok y \<Longrightarrow> message x = message y \<Longrightarrow> x = y"
  by (simp add: message_form body_inj)

lemma message_starts: "ok x \<Longrightarrow> starts_with (message x) separator"
  by (simp add: message_form)

text \<open>One prehash for two claims is a collision of the hash, at two known messages.\<close>

lemma prehash_binds:
  assumes "ok x" "ok y" "sha256 P (message x) = sha256 P (message y)"
  shows "x = y \<or> hash_collision P (message x) (message y)"
  using assms message_inj by (auto simp: hash_collision_def)

text \<open>A signature made for one claim and accepted for another needs such a collision, or is a
  signature over a hash the signer never signed.\<close>

lemma signature_binds:
  assumes "ok x" "ok y" "x \<noteq> y" "\<not> hash_collision P (message x) (message y)"
  shows "sha256 P (message x) \<noteq> sha256 P (message y)"
  using assms prehash_binds by blast

end

text \<open>Separators none of which begins another keep the forms apart.\<close>

definition separate :: "bytes \<Rightarrow> bytes \<Rightarrow> bool" where
  "separate a b \<longleftrightarrow> \<not> starts_with a b \<and> \<not> starts_with b a"

lemma separate_messages:
  assumes "starts_with x a" "starts_with y b" "separate a b"
  shows "x \<noteq> y"
  using assms by (auto simp: separate_def starts_with_iff append_eq_append_conv2)

end
