(* ===== verification/Status.thy ===== *)
theory Status
  imports Did Envelope Json
begin

unbundle bit_operations_syntax

text \<open>
  \<open>crates/rusty_esp_mid-core/src/status.rs\<close>: the claims a device signs in answer to a nonce,
  their layout, the query's nonce, and the body of \<open>GET /v1/status\<close>.
\<close>

section \<open>The proof\<close>

definition STATUS_DOMAIN :: bytes where "STATUS_DOMAIN = ascii ''janus-status-v1'' @ [0x0A]"
definition STATUS_VERSION :: u8 where "STATUS_VERSION = 1"
definition KIND_ADOPTION_V1 :: rstr where "KIND_ADOPTION_V1 = ascii ''janus-adoption-v1''"
definition KIND_MATA_STATEMENT :: rstr where "KIND_MATA_STATEMENT = ascii ''mata-statement-v1''"
definition NO_ADOPTION :: bytes where "NO_ADOPTION = replicate 32 0"

record status_proof =
  sp_nonce :: bytes
  sp_device_did :: rstr
  sp_owner_did :: rstr
  sp_adoption_kind :: rstr
  sp_adoption_hash :: bytes

definition unadopted :: "bytes \<Rightarrow> rstr \<Rightarrow> status_proof" where
  "unadopted nonce device_did = \<lparr>sp_nonce = nonce, sp_device_did = device_did, sp_owner_did = [],
     sp_adoption_kind = [], sp_adoption_hash = NO_ADOPTION\<rparr>"

definition adopted ::
  "('sk, 'vk, 'sig) prims \<Rightarrow> bytes \<Rightarrow> rstr \<Rightarrow> rstr \<Rightarrow> rstr \<Rightarrow> bytes \<Rightarrow> status_proof" where
  "adopted P nonce device_did owner_did adoption_kind adoption_bytes =
     \<lparr>sp_nonce = nonce, sp_device_did = device_did, sp_owner_did = owner_did,
      sp_adoption_kind = adoption_kind, sp_adoption_hash = sha256 P adoption_bytes\<rparr>"

definition status_len :: "status_proof \<Rightarrow> nat" where
  "status_len p =
     length STATUS_DOMAIN + 1 + 32 + 2 + length (sp_device_did p) + 2 + length (sp_owner_did p)
     + 2 + length (sp_adoption_kind p) + 32"

definition status_is_empty :: "status_proof \<Rightarrow> bool" where
  "status_is_empty p = False"

text \<open>The checked length prefix, and the pieces \<open>fields\<close> hands to its callback, in order.\<close>

definition checked_len16 :: "rstr \<Rightarrow> bytes result" where
  "checked_len16 s = (if length s > 65535 then Inl InvalidFormat else Inr (u16_to_be (of_nat (length s))))"

definition status_fields :: "status_proof \<Rightarrow> bytes list result" where
  "status_fields p =
     bind_res (checked_len16 (sp_device_did p)) (\<lambda>dev.
     bind_res (checked_len16 (sp_owner_did p)) (\<lambda>own.
     bind_res (checked_len16 (sp_adoption_kind p)) (\<lambda>kind.
       Inr [STATUS_DOMAIN, [STATUS_VERSION], sp_nonce p, dev, sp_device_did p, own, sp_owner_did p,
            kind, sp_adoption_kind p, sp_adoption_hash p])))"

fun w_all :: "writer \<Rightarrow> bytes list \<Rightarrow> writer option" where
  "w_all w [] = Some w"
| "w_all w (b # bs) = do { w \<leftarrow> w_bytes w b; w_all w bs }"

definition status_write :: "status_proof \<Rightarrow> bytes \<Rightarrow> nat result \<times> bytes" where
  "status_write p out =
     (let needed = status_len p in
      if length out < needed then (Inl (BufferTooSmall needed), out)
      else case status_fields p of
        Inl e \<Rightarrow> (Inl e, out)
      | Inr pieces \<Rightarrow>
          (case w_all \<lparr>w_out = out, w_pos = 0\<rparr> pieces of
             None \<Rightarrow> (Inl Panic, out)
           | Some w \<Rightarrow> (Inr (w_pos w), w_out w)))"

definition status_prehash :: "('sk, 'vk, 'sig) prims \<Rightarrow> status_proof \<Rightarrow> bytes result" where
  "status_prehash P p =
     bind_res (status_fields p) (\<lambda>pieces. Inr (sha256 P (concat pieces)))"

definition status_sign :: "('sk, 'vk, 'sig) prims \<Rightarrow> signer \<Rightarrow> status_proof \<Rightarrow> bytes result" where
  "status_sign P S p = bind_res (status_prehash P p) (\<lambda>h. Inr (sg_sign_prehash S h))"

definition status_verify ::
  "('sk, 'vk, 'sig) prims \<Rightarrow> bs58 \<Rightarrow> status_proof \<Rightarrow> bytes \<Rightarrow> unit result" where
  "status_verify P B p signature =
     bind_res (did_parse P B (sp_device_did p)) (\<lambda>did.
     bind_res (status_prehash P p) (\<lambda>h. verify_prehash P (did_pubkey did) h signature))"

section \<open>The query's nonce\<close>

definition nibble :: "u8 \<Rightarrow> u8 result" where
  "nibble c =
     (if 0x30 \<le> c \<and> c \<le> 0x39 then Inr (c - 0x30)
      else if 0x61 \<le> c \<and> c \<le> 0x66 then Inr (c - 0x61 + 10)
      else Inl InvalidFormat)"

fun hex_pairs :: "bytes \<Rightarrow> bytes result" where
  "hex_pairs (a # b # r) =
     bind_res (nibble a) (\<lambda>hi.
     bind_res (nibble b) (\<lambda>lo.
     bind_res (hex_pairs r) (\<lambda>out. Inr ((push_bit 4 hi OR lo) # out))))"
| "hex_pairs _ = Inr []"

definition parse_nonce_hex :: "rstr \<Rightarrow> bytes result" where
  "parse_nonce_hex s = (if length s \<noteq> 64 then Inl InvalidFormat else hex_pairs s)"

section \<open>The document\<close>

record status_adoption =
  sad_owner_did :: rstr
  sad_kind :: rstr
  sad_bytes :: bytes

record status_document =
  sd_device_did :: rstr
  sd_maker_did :: "rstr option"
  sd_model :: rstr
  sd_node_id :: "rstr option"
  sd_adoption :: "status_adoption option"
  sd_extra :: "(rstr \<times> json) list"

text \<open>\<open>Map::insert\<close> and \<open>Map::extend\<close>; the order of a map's entries has no meaning here.\<close>

definition map_insert :: "rstr \<Rightarrow> json \<Rightarrow> (rstr \<times> json) list \<Rightarrow> (rstr \<times> json) list" where
  "map_insert k v es = filter (\<lambda>e. fst e \<noteq> k) es @ [(k, v)]"

definition map_extend :: "(rstr \<times> json) list \<Rightarrow> (rstr \<times> json) list \<Rightarrow> (rstr \<times> json) list" where
  "map_extend es es' = fold (\<lambda>(k, v). map_insert k v) es' es"

definition CONTRACT_FIELDS :: "rstr list" where
  "CONTRACT_FIELDS = map ascii [''pair'', ''maker_did'', ''model'', ''device_did'', ''node_id'',
     ''owner_did'', ''adoption_kind'', ''adoption'', ''device_sig'']"

definition opt_str :: "rstr option \<Rightarrow> json" where
  "opt_str s = (case s of None \<Rightarrow> JNull | Some s \<Rightarrow> JStr s)"

definition doc_pair :: "status_document \<Rightarrow> json" where
  "doc_pair d =
     (case sd_adoption d of
        None \<Rightarrow> JStr (ascii ''ready'')
      | Some a \<Rightarrow> JObj [(ascii ''paired'', JObj [(ascii ''owner_did'', JStr (sad_owner_did a))])])"

definition plain_entries :: "status_document \<Rightarrow> (rstr \<times> json) list" where
  "plain_entries d =
     [(ascii ''pair'', doc_pair d), (ascii ''maker_did'', opt_str (sd_maker_did d)),
      (ascii ''model'', JStr (sd_model d)), (ascii ''device_did'', JStr (sd_device_did d)),
      (ascii ''node_id'', opt_str (sd_node_id d))]"

definition doc_plain :: "status_document \<Rightarrow> json" where
  "doc_plain d = JObj (plain_entries d)"

definition doc_proof :: "('sk, 'vk, 'sig) prims \<Rightarrow> status_document \<Rightarrow> bytes \<Rightarrow> status_proof" where
  "doc_proof P d nonce =
     (case sd_adoption d of
        None \<Rightarrow> unadopted nonce (sd_device_did d)
      | Some a \<Rightarrow> adopted P nonce (sd_device_did d) (sad_owner_did a) (sad_kind a) (sad_bytes a))"

definition doc_signed ::
  "('sk, 'vk, 'sig) prims \<Rightarrow> b64 \<Rightarrow> status_document \<Rightarrow> bytes \<Rightarrow> (bytes \<Rightarrow> bytes) \<Rightarrow> json result" where
  "doc_signed P E d nonce sign =
     bind_res (status_prehash P (doc_proof P d nonce)) (\<lambda>h.
       let sig = sign h;
           out = filter (\<lambda>e. fst e \<notin> set CONTRACT_FIELDS) (sd_extra d);
           out = (case doc_plain d of JObj plain \<Rightarrow> map_extend out plain | _ \<Rightarrow> out);
           out = (case sd_adoption d of
               None \<Rightarrow> out
             | Some a \<Rightarrow>
                 map_insert (ascii ''adoption'') (JStr (b64_encode E (sad_bytes a)))
                 (map_insert (ascii ''adoption_kind'') (JStr (sad_kind a))
                 (map_insert (ascii ''owner_did'') (JStr (sad_owner_did a)) out)));
           out = map_insert (ascii ''device_sig'') (JStr (b64_encode E sig)) out in
       Inr (JObj out))"

section \<open>The layout\<close>

definition status_wf :: "status_proof \<Rightarrow> bool" where
  "status_wf p \<longleftrightarrow>
     length (sp_nonce p) = 32 \<and> length (sp_adoption_hash p) = 32 \<and>
     list_all (\<lambda>s. length s < 65536) [sp_device_did p, sp_owner_did p, sp_adoption_kind p]"

definition status_body :: "status_proof \<Rightarrow> bytes" where
  "status_body p =
     STATUS_VERSION # sp_nonce p @ str16 (sp_device_did p) @ str16 (sp_owner_did p)
     @ str16 (sp_adoption_kind p) @ sp_adoption_hash p"

definition status_message :: "status_proof \<Rightarrow> bytes" where
  "status_message p = STATUS_DOMAIN @ status_body p"

lemma checked_len16_eq:
  "checked_len16 s = (if length s < 65536 then Inr (u16_to_be (len_as_u16 s)) else Inl InvalidFormat)"
  by (auto simp: checked_len16_def len_as_u16_def)

definition status_lens_fit :: "status_proof \<Rightarrow> bool" where
  "status_lens_fit p \<longleftrightarrow>
     length (sp_device_did p) < 65536 \<and> length (sp_owner_did p) < 65536 \<and>
     length (sp_adoption_kind p) < 65536"

lemma status_fields_message:
  "status_lens_fit p \<Longrightarrow> \<exists>pieces. status_fields p = Inr pieces \<and> concat pieces = status_message p"
  by (simp add: status_lens_fit_def status_fields_def checked_len16_eq status_message_def
      status_body_def str16_def)

lemma status_fields_long: "\<not> status_lens_fit p \<Longrightarrow> status_fields p = Inl InvalidFormat"
  by (auto simp: status_lens_fit_def status_fields_def checked_len16_eq bind_res_def)

lemma status_prehash_eq:
  "status_prehash P p =
     (if status_lens_fit p then Inr (sha256 P (status_message p)) else Inl InvalidFormat)"
  using status_fields_message [of p] status_fields_long [of p]
  by (auto simp: status_prehash_def)

lemma status_len_message:
  assumes "length (sp_nonce p) = 32" "length (sp_adoption_hash p) = 32"
  shows "length (status_message p) = status_len p"
  using assms by (simp add: status_message_def status_body_def status_len_def)

lemma w_all_mk:
  "length (concat bs) \<le> length r \<Longrightarrow>
     w_all (mk_writer p r) bs = Some (mk_writer (p @ concat bs) (drop (length (concat bs)) r))"
  by (induction bs arbitrary: p r) (simp_all add: add.commute)

text \<open>\<open>write\<close> lays out exactly the message the prehash is taken of, and touches nothing after it.\<close>

lemma status_write_message:
  assumes "length (sp_nonce p) = 32" "length (sp_adoption_hash p) = 32" "status_lens_fit p"
    and "status_len p \<le> length out"
  shows "status_write p out = (Inr (status_len p), status_message p @ drop (status_len p) out)"
proof -
  obtain pieces where "status_fields p = Inr pieces" "concat pieces = status_message p"
    using status_fields_message [OF assms(3)] by blast
  with w_all_mk [of pieces out "[]"] assms(4) status_len_message [OF assms(1,2)] show ?thesis
    by (simp add: status_write_def mk_writer_init Let_def)
qed

lemma status_body_inj:
  assumes "status_wf x" "status_wf y" "status_body x = status_body y"
  shows "x = y"
proof -
  have 0: "sp_nonce x = sp_nonce y \<and>
      str16 (sp_device_did x) @ str16 (sp_owner_did x) @ str16 (sp_adoption_kind x) @ sp_adoption_hash x =
      str16 (sp_device_did y) @ str16 (sp_owner_did y) @ str16 (sp_adoption_kind y) @ sp_adoption_hash y"
    using assms by (simp add: status_body_def status_wf_def)
  have 1: "sp_device_did x = sp_device_did y \<and>
      str16 (sp_owner_did x) @ str16 (sp_adoption_kind x) @ sp_adoption_hash x =
      str16 (sp_owner_did y) @ str16 (sp_adoption_kind y) @ sp_adoption_hash y"
    using assms 0 by (intro str16_append_inj) (auto simp: status_wf_def)
  have 2: "sp_owner_did x = sp_owner_did y \<and>
      str16 (sp_adoption_kind x) @ sp_adoption_hash x = str16 (sp_adoption_kind y) @ sp_adoption_hash y"
    using assms 1 by (intro str16_append_inj) (auto simp: status_wf_def)
  have 3: "sp_adoption_kind x = sp_adoption_kind y \<and> sp_adoption_hash x = sp_adoption_hash y"
    using assms 2 by (intro str16_append_inj) (auto simp: status_wf_def)
  from 0 1 2 3 show ?thesis by (intro status_proof.equality) simp_all
qed

interpretation status_form: signed_form status_message status_body status_wf STATUS_DOMAIN
  by unfold_locales (simp_all add: status_message_def status_body_inj)

context device_signer
begin

lemma status_signature_verifies:
  assumes "did_parse P B (sp_device_did p) = Inr d" "did_pubkey d = pk" "status_lens_fit p"
  shows "bind_res (status_sign P S p) (status_verify P B p) = Inr ()"
  using assms by (simp add: status_sign_def status_verify_def status_prehash_eq sign_hash_verifies)

end

section \<open>The nonce is exactly 64 lowercase hexadecimal digits\<close>

definition hex_digit :: "u8 \<Rightarrow> u8" where
  "hex_digit n = (if n < 10 then 0x30 + n else 0x57 + n)"

definition hex_byte :: "u8 \<Rightarrow> bytes" where
  "hex_byte b = [hex_digit (b div 16), hex_digit (b mod 16)]"

lemma unat_hex_digit:
  "n < 16 \<Longrightarrow> unat (hex_digit n) = (if n < 10 then 0x30 + unat n else 0x57 + unat n)"
  by (simp add: hex_digit_def unat_word_ariths(1) word_less_nat_alt)

lemma nibble_digit: "n < 16 \<Longrightarrow> nibble (hex_digit n) = Inr n"
  using unat_hex_digit [of n]
  by (cases "n < 10") (simp_all add: nibble_def word_le_nat_alt word_less_nat_alt, simp_all add: hex_digit_def word_less_nat_alt)

lemma nibble_exact:
  "(case nibble c of Inl e \<Rightarrow> e = InvalidFormat | Inr n \<Rightarrow> n < 16 \<and> hex_digit n = c)"
proof -
  have digit: "unat (c - 0x30) = unat c - 0x30" if "0x30 \<le> c"
    using that by (intro unat_sub [of "0x30" c, simplified]) simp
  have letter: "unat (c - 0x57) = unat c - 0x57" if "0x61 \<le> c"
    using that by (intro unat_sub [of "0x57" c, simplified]) (simp add: word_le_nat_alt)
  show ?thesis
    using digit letter
    by (auto simp: nibble_def hex_digit_def word_le_nat_alt word_less_nat_alt)
qed

lemma nibble_parts: "(b :: u8) div 16 = drop_bit 4 b" "b mod 16 = take_bit 4 b"
  by (simp_all add: drop_bit_eq_div take_bit_eq_mod)

lemma nibble_small: "(b :: u8) div 16 < 16" "b mod 16 < 16"
  using unsigned_less [of b, where 'a = nat]
  by (simp_all add: word_less_nat_alt unat_div unat_mod)

lemma join_parts: "push_bit 4 (b div 16) OR b mod 16 = (b :: u8)"
  by (auto simp: nibble_parts bit_eq_iff bit_simps)

lemma hex_byte_nibbles:
  "nibble (hex_digit (b div 16)) = Inr (b div 16) \<and> nibble (hex_digit (b mod 16)) = Inr (b mod 16) \<and>
     push_bit 4 (b div 16) OR b mod 16 = b"
  by (simp add: nibble_digit nibble_small join_parts)

lemma take_nibble: "x < 16 \<Longrightarrow> take_bit 4 x = (x :: u8)"
  by (simp add: take_bit_eq_mod word_unat_eq_iff unat_mod word_less_nat_alt)

lemma joined_nibbles:
  fixes hi lo :: u8
  assumes "hi < 16" "lo < 16"
  shows "(push_bit 4 hi OR lo) div 16 = hi \<and> (push_bit 4 hi OR lo) mod 16 = lo"
proof -
  have "bit hi n \<Longrightarrow> n < 4" "bit lo n \<Longrightarrow> n < 4" for n
    using take_nibble [OF assms(1)] take_nibble [OF assms(2)] by (metis bit_take_bit_iff)+
  then show ?thesis
    by (force simp: nibble_parts bit_eq_iff bit_simps)
qed

lemma hex_pairs_bytes: "hex_pairs (concat (map hex_byte bs)) = Inr bs"
  by (induction bs) (simp_all add: hex_byte_def hex_byte_nibbles)

lemma hex_pairs_exact: "even (length s) \<Longrightarrow> hex_pairs s = Inr bs \<Longrightarrow> s = concat (map hex_byte bs)"
proof (induction s arbitrary: bs rule: hex_pairs.induct)
  case (1 a b r)
  then obtain hi lo out where n: "nibble a = Inr hi" "nibble b = Inr lo" and r: "hex_pairs r = Inr out"
    and bs: "bs = (push_bit 4 hi OR lo) # out"
    by (auto simp: bind_res_eq_Inr)
  have "r = concat (map hex_byte out)" using 1 n r by simp
  moreover have "hex_byte (push_bit 4 hi OR lo) = [a, b]"
    using nibble_exact [of a] nibble_exact [of b] n joined_nibbles [of hi lo] by (simp add: hex_byte_def)
  ultimately show ?case using bs by simp
qed auto

lemma length_hex [simp]: "length (concat (map hex_byte bs)) = 2 * length bs"
  by (induction bs) (simp_all add: hex_byte_def)

lemma parse_nonce_hex_Inr:
  "parse_nonce_hex s = Inr nonce \<longleftrightarrow> length nonce = 32 \<and> s = concat (map hex_byte nonce)"
proof
  assume "parse_nonce_hex s = Inr nonce"
  then have len: "length s = 64" and hex: "hex_pairs s = Inr nonce"
    by (simp_all add: parse_nonce_hex_def split: if_splits)
  have s: "s = concat (map hex_byte nonce)"
    by (rule hex_pairs_exact [OF _ hex]) (simp add: len)
  have "2 * length nonce = 64" using len unfolding s length_hex .
  then show "length nonce = 32 \<and> s = concat (map hex_byte nonce)" using s by simp
next
  assume *: "length nonce = 32 \<and> s = concat (map hex_byte nonce)"
  then have "length s = 64" by simp
  with * show "parse_nonce_hex s = Inr nonce" by (simp add: parse_nonce_hex_def hex_pairs_bytes)
qed

lemma parse_nonce_hex_error: "parse_nonce_hex s = Inl e \<Longrightarrow> e = InvalidFormat"
proof -
  have n: "nibble c = Inl e \<Longrightarrow> e = InvalidFormat" for c
    using nibble_exact [of c] by simp
  have "hex_pairs s = Inl e \<Longrightarrow> e = InvalidFormat" for s
    by (induction s rule: hex_pairs.induct) (auto simp: bind_res_eq_Inl dest: n)
  then show "parse_nonce_hex s = Inl e \<Longrightarrow> e = InvalidFormat"
    by (auto simp: parse_nonce_hex_def split: if_splits)
qed

section \<open>The document serves what was signed\<close>

lemma map_of_map_insert: "map_of (rev (map_insert k v es)) = (map_of (rev es))(k \<mapsto> v)"
proof -
  have "map_of (filter (\<lambda>e. fst e \<noteq> k) xs) = (map_of xs)(k := None)" for xs :: "(rstr \<times> json) list"
    by (induction xs) auto
  then show ?thesis by (simp add: map_insert_def rev_filter fun_eq_iff)
qed

lemma json_get_map_insert:
  "json_get (JObj (map_insert k v es)) j = (if j = k then Some v else json_get (JObj es) j)"
  by (simp add: map_of_map_insert)

lemma json_get_filter:
  "json_get (JObj (filter (\<lambda>e. fst e \<notin> A) es)) j = (if j \<in> A then None else json_get (JObj es) j)"
proof -
  have "map_of (filter (\<lambda>e. fst e \<notin> A) xs) j = (if j \<in> A then None else map_of xs j)"
    for xs :: "(rstr \<times> json) list"
    by (induction xs) auto
  then show ?thesis by (simp add: rev_filter)
qed

lemma contract_fields:
  "k \<in> set CONTRACT_FIELDS \<longleftrightarrow>
     k \<in> {ascii ''pair'', ascii ''maker_did'', ascii ''model'', ascii ''device_did'', ascii ''node_id''} \<or>
     k \<in> {ascii ''owner_did'', ascii ''adoption_kind'', ascii ''adoption''} \<or> k = ascii ''device_sig''"
  by (auto simp: CONTRACT_FIELDS_def)

definition adoption_field :: "b64 \<Rightarrow> status_document \<Rightarrow> rstr \<Rightarrow> json option" where
  "adoption_field E d k =
     map_option (\<lambda>a. JStr (if k = ascii ''owner_did'' then sad_owner_did a
        else if k = ascii ''adoption_kind'' then sad_kind a else b64_encode E (sad_bytes a)))
       (sd_adoption d)"

lemma doc_signed_get:
  assumes "doc_signed P E d nonce sign = Inr doc"
  shows "json_get doc k =
    (if k = ascii ''device_sig'' then
       Some (JStr (b64_encode E (sign (sha256 P (status_message (doc_proof P d nonce))))))
     else if k \<in> {ascii ''owner_did'', ascii ''adoption_kind'', ascii ''adoption''} then
       adoption_field E d k
     else if k \<in> set CONTRACT_FIELDS then json_get (doc_plain d) k
     else json_get (JObj (sd_extra d)) k)"
proof -
  from assms have fit: "status_lens_fit (doc_proof P d nonce)"
    by (auto simp: doc_signed_def status_prehash_eq split: if_splits)
  let ?rest = "filter (\<lambda>e. fst e \<notin> set CONTRACT_FIELDS) (sd_extra d)"
  have rest: "json_get (JObj ?rest) k =
      (if k \<in> set CONTRACT_FIELDS then None else json_get (JObj (sd_extra d)) k)"
    by (rule json_get_filter)
  have plain: "json_get (JObj (map_extend ?rest (plain_entries d))) k =
      (if k \<in> set CONTRACT_FIELDS then json_get (doc_plain d) k else json_get (JObj (sd_extra d)) k)"
    by (simp add: map_extend_def plain_entries_def json_get_map_insert rest del: json_reads(3))
      (auto simp: doc_plain_def plain_entries_def contract_fields)
  let ?sig = "JStr (b64_encode E (sign (sha256 P (status_message (doc_proof P d nonce)))))"
  let ?base = "map_extend ?rest (plain_entries d)"
  have doc: "doc = JObj (map_insert (ascii ''device_sig'') ?sig
      (case sd_adoption d of None \<Rightarrow> ?base
       | Some a \<Rightarrow>
           map_insert (ascii ''adoption'') (JStr (b64_encode E (sad_bytes a)))
           (map_insert (ascii ''adoption_kind'') (JStr (sad_kind a))
           (map_insert (ascii ''owner_did'') (JStr (sad_owner_did a)) ?base))))"
    using assms by (simp add: doc_signed_def status_prehash_eq fit doc_plain_def Let_def)
  show ?thesis
    unfolding doc
    by (cases "sd_adoption d"; simp add: json_get_map_insert plain adoption_field_def del: json_reads(3))
      (auto simp: contract_fields doc_plain_def plain_entries_def)
qed

end
