(* ===== verification/Settings_Adoption.thy ===== *)
theory Settings_Adoption
  imports Adoption_Accept Did Kv Jws Status
begin

text \<open>
  \<open>crates/rusty_esp_mid-core/src/settings_adoption.rs\<close>: an adoption delivered with the settings,
  checked and taken into the identity store at boot; the stored adoption read back; forgetting
  the owner. The settings and the identity are two stores, passed and returned explicitly.
\<close>

section \<open>Constants and types\<close>

definition SETTINGS_ADOPT :: bytes where "SETTINGS_ADOPT = ascii ''adopt''"
abbreviation ADOPT_MAX :: nat where "ADOPT_MAX \<equiv> 8192"
definition KV_ADOPTION_KIND :: bytes where "KV_ADOPTION_KIND = ascii ''mid.adopt.kind''"
definition KV_PIN_PROVISIONAL :: bytes where "KV_PIN_PROVISIONAL = ascii ''mid.owner.prov''"
definition STATEMENT_CONTEXT :: rstr where "STATEMENT_CONTEXT = ascii ''janus-adoption-v1''"

datatype outcome =
    Nothing
  | Adopted rstr u32 bool
  | Rehomed rstr u32 bool
  | Refused string

record checked =
  ck_owner_did :: rstr
  ck_pin :: owner_pin

record stored_adoption =
  so_owner_did :: rstr
  so_kind :: rstr
  so_bytes :: bytes
  so_provisional :: bool

section \<open>The structural check\<close>

definition json_text :: "json \<Rightarrow> string \<Rightarrow> rstr option" where
  "json_text v key = (json_get v (ascii key) \<bind> as_str)"

definition check_statement ::
  "('sk, 'vk, 'sig) prims \<Rightarrow> bs58 \<Rightarrow> b64 \<Rightarrow> json_codec \<Rightarrow> bytes \<Rightarrow> rstr \<Rightarrow> string + checked"
where
  "check_statement P B E J container my_did =
     bind_res (ok_or (js_parse J container) ''the container is not JSON'') (\<lambda>outer.
     bind_res (ok_or (json_text outer ''content'') ''the container has no content text'') (\<lambda>content.
     bind_res (ok_or (json_text outer ''jws'') ''the container has no jws text'') (\<lambda>jws.
     case split_on 0x2E jws of
       [h, p, s] \<Rightarrow>
         bind_res (ok_or (b64_decode E h) ''the jws header is not base64url'') (\<lambda>header_bytes.
         bind_res (ok_or (js_parse J header_bytes) ''the jws header is not JSON'') (\<lambda>header.
         if json_text header ''alg'' \<noteq> Some (ascii ''ES256'') \<or> json_text header ''typ'' \<noteq> Some (ascii ''JWT'')
         then Inl ''the jws header is not ES256/JWT''
         else if map_option length (b64_decode E s) \<noteq> Some 64
         then Inl ''the jws signature is not 64 bytes''
         else
         bind_res (ok_or (b64_decode E p) ''the jws payload is not base64url'') (\<lambda>payload_bytes.
         bind_res (ok_or (js_parse J payload_bytes) ''the jws payload is not JSON'') (\<lambda>payload.
         if json_text payload ''context'' \<noteq> Some STATEMENT_CONTEXT
         then Inl ''the statement's context is not janus-adoption-v1''
         else
         bind_res (ok_or (json_text payload ''iss'') ''the statement has no iss'') (\<lambda>iss.
         bind_res (ok_or (json_text payload ''content_hash'') ''the statement has no content_hash'') (\<lambda>declared.
         if declared \<noteq> b64_encode E (sha256 P content)
         then Inl ''the content_hash does not match the content''
         else
         bind_res (ok_or (js_parse J content) ''the content is not JSON'') (\<lambda>body.
         if (json_get body (ascii ''v'') \<bind> as_u64) \<noteq> Some 1
         then Inl ''the content is not version 1''
         else if json_text body ''device_did'' \<noteq> Some my_did
         then Inl ''the adoption is for another device''
         else
         bind_res (ok_or (json_text body ''owner_did'') ''the content has no owner_did'') (\<lambda>owner_did.
         if owner_did \<noteq> iss
         then Inl ''the content's owner is not the statement's issuer''
         else
         bind_res (ok_or (case json_get body (ascii ''roster_version'') \<bind> as_u64 of
               None \<Rightarrow> None
             | Some v \<Rightarrow> if unat v < 2 ^ 32 then Some (ucast v :: u32) else None)
           ''the content has no roster_version'') (\<lambda>version.
         case did_parse P B owner_did of
           Inl _ \<Rightarrow> Inl ''the owner is not a key did:mata''
         | Inr owner \<Rightarrow>
             Inr \<lparr>ck_owner_did = owner_did,
                  ck_pin = \<lparr>genesis_pubkey = did_pubkey owner, roster_version = version\<rparr>\<rparr>)))))))))
     | _ \<Rightarrow> Inl ''the jws is not three parts'')))"

section \<open>The stores\<close>

definition stored_pin :: "'i kv \<Rightarrow> 'i \<Rightarrow> owner_pin option result" where
  "stored_pin I i =
     bind_res (kv_get I i KV_OWNER_PIN PIN_LEN) (\<lambda>got.
       case got of
         Some bs \<Rightarrow>
           if length bs = PIN_LEN then bind_res (pin_decode bs) (\<lambda>p. Inr (Some p)) else Inl Corrupt
       | None \<Rightarrow> Inr None)"

text \<open>Several \<open>put\<close>s, or \<open>remove\<close>s, each followed by \<open>?\<close>.\<close>

fun put_each :: "'s kv \<Rightarrow> 's \<Rightarrow> (bytes \<times> bytes) list \<Rightarrow> unit result \<times> 's" where
  "put_each K s [] = (Inr (), s)"
| "put_each K s ((k, v) # r) =
     (case kv_put K s k v of (Inl e, s) \<Rightarrow> (Inl e, s) | (Inr _, s) \<Rightarrow> put_each K s r)"

fun remove_each :: "'s kv \<Rightarrow> 's \<Rightarrow> bytes list \<Rightarrow> unit result \<times> 's" where
  "remove_each K s [] = (Inr (), s)"
| "remove_each K s (k # r) =
     (case kv_remove K s k of (Inl e, s) \<Rightarrow> (Inl e, s) | (Inr _, s) \<Rightarrow> remove_each K s r)"

definition stored ::
  "('sk, 'vk, 'sig) prims \<Rightarrow> bs58 \<Rightarrow> b64 \<Rightarrow> json_codec \<Rightarrow> 'i kv \<Rightarrow> 'i \<Rightarrow> rstr
     \<Rightarrow> stored_adoption option result"
where
  "stored P B E J I i my_did =
     (case kv_get I i KV_ADOPTION ADOPT_MAX of
        Inl (BufferTooSmall _) \<Rightarrow> Inr None
      | Inl e \<Rightarrow> Inl e
      | Inr None \<Rightarrow> Inr None
      | Inr (Some bs) \<Rightarrow>
          (case (case kv_get I i KV_ADOPTION_KIND 32 of
               Inr (Some kind) \<Rightarrow> Inr (Some (kind = KIND_MATA_STATEMENT))
             | Inr None \<Rightarrow> Inr (Some False)
             | Inl (BufferTooSmall _) \<Rightarrow> Inr None
             | Inl e \<Rightarrow> Inl e) of
             Inl e \<Rightarrow> Inl e
           | Inr None \<Rightarrow> Inr None
           | Inr (Some is_statement) \<Rightarrow>
               let provisional = (kv_get I i KV_PIN_PROVISIONAL 1 = Inr (Some [1]));
                   found =
                     (if is_statement then
                        (case check_statement P B E J bs my_did of
                           Inr c \<Rightarrow> Some (ck_owner_did c, KIND_MATA_STATEMENT)
                         | Inl _ \<Rightarrow> None)
                      else
                        (case decode bs of
                           Inr a \<Rightarrow>
                             if af_device_did (ad_fields a) = my_did
                             then Some (af_owner_did (ad_fields a), KIND_ADOPTION_V1) else None
                         | Inl _ \<Rightarrow> None)) in
               Inr (map_option (\<lambda>(owner_did, kind).
                 \<lparr>so_owner_did = owner_did, so_kind = kind, so_bytes = bs,
                  so_provisional = provisional\<rparr>) found)))"

definition stored_as_status :: "stored_adoption \<Rightarrow> status_adoption" where
  "stored_as_status s = \<lparr>sad_owner_did = so_owner_did s, sad_kind = so_kind s, sad_bytes = so_bytes s\<rparr>"

definition forget :: "'i kv \<Rightarrow> 'i \<Rightarrow> bool result \<times> 'i" where
  "forget I i =
     (case stored_pin I i of
        Inl e \<Rightarrow> (Inl e, i)
      | Inr pin \<Rightarrow>
          (case remove_each I i [KV_ADOPTION, KV_ADOPTION_KIND, KV_PIN_PROVISIONAL, KV_OWNER_PIN] of
             (Inl e, i) \<Rightarrow> (Inl e, i)
           | (Inr _, i) \<Rightarrow> (Inr (pin \<noteq> None), i)))"

section \<open>The boot\<close>

text \<open>\<open>settings.remove(SETTINGS_ADOPT)?\<close> and then the outcome.\<close>

definition clear_then :: "'s kv \<Rightarrow> 's \<Rightarrow> 'i \<Rightarrow> outcome \<Rightarrow> outcome result \<times> 's \<times> 'i" where
  "clear_then S s i out =
     (case kv_remove S s SETTINGS_ADOPT of (Inl e, s) \<Rightarrow> (Inl e, s, i) | (Inr _, s) \<Rightarrow> (Inr out, s, i))"

definition apply_settings ::
  "('sk, 'vk, 'sig) prims \<Rightarrow> bs58 \<Rightarrow> b64 \<Rightarrow> json_codec \<Rightarrow> 's kv \<Rightarrow> 'i kv \<Rightarrow> 's \<Rightarrow> 'i \<Rightarrow> rstr
     \<Rightarrow> outcome result \<times> 's \<times> 'i"
where
  "apply_settings P B E J S I s i my_did =
     (case kv_get S s SETTINGS_ADOPT ADOPT_MAX of
        Inr None \<Rightarrow> (Inr Nothing, s, i)
      | Inl (BufferTooSmall _) \<Rightarrow> clear_then S s i (Refused ''the adoption is longer than 8 KiB'')
      | Inl e \<Rightarrow> (Inl e, s, i)
      | Inr (Some container) \<Rightarrow>
        (case check_statement P B E J container my_did of
           Inl why \<Rightarrow> clear_then S s i (Refused why)
         | Inr c \<Rightarrow>
           (case stored_pin I i of
              Inl e \<Rightarrow> (Inl e, s, i)
            | Inr pinned \<Rightarrow>
              if pinned \<noteq> None \<and> genesis_pubkey (the pinned) \<noteq> genesis_pubkey (ck_pin c)
              then clear_then S s i (Refused ''the device is pinned to another owner'')
              else if pinned \<noteq> None \<and> roster_version (ck_pin c) < roster_version (the pinned)
              then clear_then S s i (Refused ''the adoption's roster is older than the pinned one'')
              else
                (case put_each I i [(KV_ADOPTION, container), (KV_ADOPTION_KIND, KIND_MATA_STATEMENT)] of
                   (Inl e, i) \<Rightarrow> (Inl e, s, i)
                 | (Inr _, i) \<Rightarrow>
                   (case pin_encode (ck_pin c) (replicate PIN_LEN 0) of
                      (Inl e, _) \<Rightarrow> (Inl e, s, i)
                    | (Inr _, pin) \<Rightarrow>
                      (case put_each I i [(KV_OWNER_PIN, pin), (KV_PIN_PROVISIONAL, [1])] of
                         (Inl e, i) \<Rightarrow> (Inl e, s, i)
                       | (Inr _, i) \<Rightarrow>
                           clear_then S s i
                             (if pinned \<noteq> None
                              then Rehomed (ck_owner_did c) (roster_version (ck_pin c)) True
                              else Adopted (ck_owner_did c) (roster_version (ck_pin c)) True)))))))"

end
