(* ===== verification/Settings_Correct.thy ===== *)
theory Settings_Correct
  imports Settings_Adoption Samples
begin

text \<open>
  What the boot path promises: what passes the check, that trust on first use holds along any
  deliveries, what is in the two stores afterwards on every outcome, that a run cut short is
  redone harmlessly, that the stored adoption is read back, and that forgetting keeps the key.
\<close>

section \<open>What passes the check\<close>

definition statement_of ::
  "('sk, 'vk, 'sig) prims \<Rightarrow> b64 \<Rightarrow> json_codec \<Rightarrow> bytes \<Rightarrow> rstr \<Rightarrow> rstr \<Rightarrow> u32 \<Rightarrow> bool" where
  "statement_of P E J container device owner version \<longleftrightarrow>
     (\<exists>outer content h p s header payload body v.
        js_parse J container = Some outer \<and> json_text outer ''content'' = Some content \<and>
        json_text outer ''jws'' = Some (h @ [0x2E] @ p @ [0x2E] @ s) \<and>
        0x2E \<notin> set h \<and> 0x2E \<notin> set p \<and> 0x2E \<notin> set s \<and>
        (b64_decode E h \<bind> js_parse J) = Some header \<and>
        json_text header ''alg'' = Some (ascii ''ES256'') \<and> json_text header ''typ'' = Some (ascii ''JWT'') \<and>
        map_option length (b64_decode E s) = Some 64 \<and>
        (b64_decode E p \<bind> js_parse J) = Some payload \<and>
        json_text payload ''context'' = Some STATEMENT_CONTEXT \<and>
        json_text payload ''iss'' = Some owner \<and>
        json_text payload ''content_hash'' = Some (b64_encode E (sha256 P content)) \<and>
        js_parse J content = Some body \<and> (json_get body (ascii ''v'') \<bind> as_u64) = Some 1 \<and>
        json_text body ''device_did'' = Some device \<and> json_text body ''owner_did'' = Some owner \<and>
        (json_get body (ascii ''roster_version'') \<bind> as_u64) = Some v \<and>
        unat v < 2 ^ 32 \<and> version = ucast v)"

lemma split_on_parts: "split_on c t = a # r \<Longrightarrow> c \<notin> set a \<and> (\<forall>x \<in> set r. c \<notin> set x)"
proof (induction t arbitrary: a r)
  case (Cons x xs)
  obtain b q where bq: "split_on c xs = b # q"
    by (cases "split_on c xs"; cases xs) (auto split: list.splits if_splits)
  from Cons.prems Cons.IH [OF bq] show ?case by (cases "x = c") (auto simp: bq)
qed simp

lemma split_on_three_iff:
  "split_on c t = [h, p, s] \<longleftrightarrow>
     t = h @ [c] @ p @ [c] @ s \<and> c \<notin> set h \<and> c \<notin> set p \<and> c \<notin> set s"
proof
  assume "split_on c t = [h, p, s]"
  then show "t = h @ [c] @ p @ [c] @ s \<and> c \<notin> set h \<and> c \<notin> set p \<and> c \<notin> set s"
    using split_on_three [of c t h p s] split_on_parts [of c t h "[p, s]"] by simp
qed (simp add: split_on_append split_on_no_sep)

text \<open>The branches of the check, one rewrite each.\<close>

lemma guard_eq_Inr: "(if b then Inl e else x) = Inr c \<longleftrightarrow> \<not> b \<and> x = Inr c"
  by simp

lemma three_parts_eq_Inr:
  "(case xs of [h, p, s] \<Rightarrow> f h p s | _ \<Rightarrow> Inl e) = Inr c \<longleftrightarrow> (\<exists>h p s. xs = [h, p, s] \<and> f h p s = Inr c)"
  by (auto split: list.splits)

lemma u32_field_eq_Some:
  "(case m of None \<Rightarrow> None | Some v \<Rightarrow> if unat v < 2 ^ 32 then Some (ucast v :: u32) else None) = Some w \<longleftrightarrow>
     (\<exists>v :: u64. m = Some v \<and> unat v < 2 ^ 32 \<and> w = ucast v)"
  by (auto split: option.splits if_splits)

lemma parsed_owner_eq_Inr:
  "(case r of Inl _ \<Rightarrow> Inl e | Inr d \<Rightarrow> Inr (f d)) = Inr c \<longleftrightarrow> (\<exists>d. r = Inr d \<and> c = f d)"
  by (auto split: sum.splits)

lemmas check_steps = bind_res_eq_Inr ok_or_eq_Inr guard_eq_Inr three_parts_eq_Inr
  u32_field_eq_Some parsed_owner_eq_Inr de_Morgan_disj not_not

lemma check_statement_Inr:
  assumes "check_statement P B E J container my_did = Inr c"
  shows "statement_of P E J container my_did (ck_owner_did c) (roster_version (ck_pin c))"
    and "\<exists>d. did_parse P B (ck_owner_did c) = Inr d \<and> genesis_pubkey (ck_pin c) = did_pubkey d"
proof -
  from assms obtain outer content jws h p s hb header pb payload iss body v d where
    outer: "js_parse J container = Some outer" "json_text outer ''content'' = Some content"
      "json_text outer ''jws'' = Some jws" "split_on 0x2E jws = [h, p, s]"
    and header: "b64_decode E h = Some hb" "js_parse J hb = Some header"
      "json_text header ''alg'' = Some (ascii ''ES256'')" "json_text header ''typ'' = Some (ascii ''JWT'')"
      "map_option length (b64_decode E s) = Some 64"
    and payload: "b64_decode E p = Some pb" "js_parse J pb = Some payload"
      "json_text payload ''context'' = Some STATEMENT_CONTEXT" "json_text payload ''iss'' = Some iss"
      "json_text payload ''content_hash'' = Some (b64_encode E (sha256 P content))"
    and body: "js_parse J content = Some body" "(json_get body (ascii ''v'') \<bind> as_u64) = Some 1"
      "json_text body ''device_did'' = Some my_did" "json_text body ''owner_did'' = Some iss"
      "(json_get body (ascii ''roster_version'') \<bind> as_u64) = Some v" "unat v < 2 ^ 32"
    and d: "did_parse P B iss = Inr d"
    and c: "c = \<lparr>ck_owner_did = iss,
        ck_pin = \<lparr>genesis_pubkey = did_pubkey d, roster_version = ucast v\<rparr>\<rparr>"
    unfolding check_statement_def check_steps by (elim exE conjE) simp
  show "\<exists>d. did_parse P B (ck_owner_did c) = Inr d \<and> genesis_pubkey (ck_pin c) = did_pubkey d"
    using d c by simp
  have jws: "jws = h @ [0x2E] @ p @ [0x2E] @ s \<and> 0x2E \<notin> set h \<and> 0x2E \<notin> set p \<and> 0x2E \<notin> set s"
    by (rule iffD1 [OF split_on_three_iff outer(4)])
  have "(b64_decode E h \<bind> js_parse J) = Some header" "(b64_decode E p \<bind> js_parse J) = Some payload"
    using header(1,2) payload(1,2) by simp_all
  note facts = outer(1,2) outer(3) [unfolded conjunct1 [OF jws]] jws this header(3-5) payload(3-5) body
  have "ck_owner_did c = iss" "roster_version (ck_pin c) = ucast v" using c by simp_all
  with facts
  show "statement_of P E J container my_did (ck_owner_did c) (roster_version (ck_pin c))"
    unfolding statement_of_def
    by (intro exI [of _ outer] exI [of _ content] exI [of _ h] exI [of _ p] exI [of _ s]
        exI [of _ header] exI [of _ payload] exI [of _ body] exI [of _ v]) (simp only: simp_thms)
qed

lemma check_statement_pin_length:
  assumes "check_statement P B E J container my_did = Inr c"
  shows "length (genesis_pubkey (ck_pin c)) = 33"
  using check_statement_Inr(2) [OF assms] by (auto dest!: did_parse_valid simp: valid_did_def)

lemma check_statement_complete:
  assumes "statement_of P E J container my_did owner version" "did_parse P B owner = Inr d"
  shows "check_statement P B E J container my_did =
    Inr \<lparr>ck_owner_did = owner, ck_pin = \<lparr>genesis_pubkey = did_pubkey d, roster_version = version\<rparr>\<rparr>"
proof -
  from assms(1) obtain outer content h p s header payload body v where
    o: "js_parse J container = Some outer" "json_text outer ''content'' = Some content"
      "json_text outer ''jws'' = Some (h @ [0x2E] @ p @ [0x2E] @ s)"
    and hps: "0x2E \<notin> set h \<and> 0x2E \<notin> set p \<and> 0x2E \<notin> set s"
    and hd: "(b64_decode E h \<bind> js_parse J) = Some header"
      "json_text header ''alg'' = Some (ascii ''ES256'')" "json_text header ''typ'' = Some (ascii ''JWT'')"
      "map_option length (b64_decode E s) = Some 64"
    and pl: "(b64_decode E p \<bind> js_parse J) = Some payload"
      "json_text payload ''context'' = Some STATEMENT_CONTEXT" "json_text payload ''iss'' = Some owner"
      "json_text payload ''content_hash'' = Some (b64_encode E (sha256 P content))"
    and bd: "js_parse J content = Some body" "(json_get body (ascii ''v'') \<bind> as_u64) = Some 1"
      "json_text body ''device_did'' = Some my_did" "json_text body ''owner_did'' = Some owner"
      "(json_get body (ascii ''roster_version'') \<bind> as_u64) = Some v" "unat v < 2 ^ 32" "version = ucast v"
    unfolding statement_of_def by blast
  have sp: "split_on 0x2E (h @ [0x2E] @ p @ [0x2E] @ s) = [h, p, s]"
    using hps by (simp only: split_on_three_iff) simp
  from hd(1) pl(1) obtain hb pb where "b64_decode E h = Some hb" "js_parse J hb = Some header"
    "b64_decode E p = Some pb" "js_parse J pb = Some payload"
    by (auto simp: bind_eq_Some_conv)
  with o sp hd(2-) pl(2-) bd assms(2) show ?thesis
    unfolding check_statement_def by simp
qed

section \<open>Reading and writing the stores\<close>

definition owner_entries :: "checked \<Rightarrow> bytes \<Rightarrow> (bytes \<times> bytes) list" where
  "owner_entries c container =
     [(KV_ADOPTION, container), (KV_ADOPTION_KIND, KIND_MATA_STATEMENT),
      (KV_OWNER_PIN, genesis_pubkey (ck_pin c) @ u32_to_be (roster_version (ck_pin c))),
      (KV_PIN_PROVISIONAL, [1])]"

lemma identity_keys_distinct [simp]:
  "KV_ADOPTION \<noteq> KV_ADOPTION_KIND" "KV_ADOPTION \<noteq> KV_OWNER_PIN" "KV_ADOPTION \<noteq> KV_PIN_PROVISIONAL"
  "KV_ADOPTION_KIND \<noteq> KV_OWNER_PIN" "KV_ADOPTION_KIND \<noteq> KV_PIN_PROVISIONAL"
  "KV_OWNER_PIN \<noteq> KV_PIN_PROVISIONAL"
  by (simp_all add: KV_ADOPTION_def KV_ADOPTION_KIND_def KV_OWNER_PIN_def KV_PIN_PROVISIONAL_def)

lemmas identity_keys_distinct' [simp] = identity_keys_distinct [symmetric]

lemma put_each_append:
  "put_each K s (xs @ ys) =
     (case put_each K s xs of (Inl e, s) \<Rightarrow> (Inl e, s) | (Inr _, s) \<Rightarrow> put_each K s ys)"
  by (induction K s xs rule: put_each.induct) (auto split: prod.splits sum.splits)

context kv_store
begin

lemma stored_pin_value:
  assumes "inv s" "stored_pin K s = Inr pin"
  shows "contents s KV_OWNER_PIN = map_option (\<lambda>p. genesis_pubkey p @ u32_to_be (roster_version p)) pin"
    and "\<forall>p. pin = Some p \<longrightarrow> length (genesis_pubkey p) = 33"
proof -
  from assms(2) obtain got where g: "kv_get K s KV_OWNER_PIN PIN_LEN = Inr got"
    by (auto simp: stored_pin_def bind_res_eq_Inr)
  with get_value [OF assms(1) g] assms(2)
  show "contents s KV_OWNER_PIN = map_option (\<lambda>p. genesis_pubkey p @ u32_to_be (roster_version p)) pin"
    "\<forall>p. pin = Some p \<longrightarrow> length (genesis_pubkey p) = 33"
    by (auto simp: stored_pin_def bind_res_eq_Inr pin_decode_Inr split: option.splits if_splits)
qed

lemma put_each_done:
  assumes "inv s" "\<forall>(k, v) \<in> set kvs. storable v" "put_each K s kvs = (Inr (), s')"
  shows "inv s' \<and> contents s' = contents s ++ map_of (rev kvs)"
  using assms
proof (induction kvs arbitrary: s)
  case Nil
  then show ?case by simp
next
  case (Cons kv kvs)
  obtain k v where kv: "kv = (k, v)" by (cases kv)
  from Cons.prems(3) obtain s1 where p: "kv_put K s k v = (Inr (), s1)" "put_each K s1 kvs = (Inr (), s')"
    by (auto simp: kv split: prod.splits sum.splits)
  from Cons.prems(2) have v: "storable v" by (simp add: kv)
  note c = put_contents [OF Cons.prems(1) v p(1)]
  have "inv s' \<and> contents s' = contents s1 ++ map_of (rev kvs)"
    by (rule Cons.IH [OF c(1) _ p(2)]) (use Cons.prems(2) in simp)
  moreover have "contents s1 ++ m = contents s ++ ([k \<mapsto> v] ++ m)" for m
    unfolding c(2) by simp
  ultimately show ?case by (simp add: kv)
qed

text \<open>Cut short anywhere, every key holds what it held, nothing, or what was to be written.\<close>

lemma put_each_stopped:
  assumes "inv s" "\<forall>(k, v) \<in> set kvs. storable v" "put_each K s kvs = (r, s')" "distinct (map fst kvs)"
  shows "inv s' \<and> (\<forall>j. contents s' j = contents s j
    \<or> (\<exists>v. (j, v) \<in> set kvs \<and> contents s' j \<in> {None, Some v}))"
  using assms
proof (induction kvs arbitrary: s)
  case Nil
  then show ?case by simp
next
  case (Cons kv kvs)
  obtain k v where kv: "kv = (k, v)" by (cases kv)
  obtain res s1 where p: "kv_put K s k v = (res, s1)" by (cases "kv_put K s k v")
  from Cons.prems(2) have v: "storable v" by (simp add: kv)
  have f: "inv s1" "\<And>j. j \<noteq> k \<Longrightarrow> contents s1 j = contents s j" using put_frame [OF Cons.prems(1) p] by auto
  have k: "contents s1 k \<in> {contents s k, None, Some v}"
    using put_value [OF Cons.prems(1) v] put_failed [OF Cons.prems(1) v] p by (cases res) auto
  show ?case
  proof (cases res)
    case (Inl e)
    with Cons.prems(3) p have "s' = s1" by (simp add: kv)
    moreover have "contents s1 j = contents s j
      \<or> (\<exists>va. (j, va) \<in> set (kv # kvs) \<and> contents s1 j \<in> {None, Some va})" for j
      using f(2) [of j] k by (cases "j = k") (auto simp: kv)
    ultimately show ?thesis using f(1) by simp
  next
    case (Inr u)
    with Cons.prems(3) p have "put_each K s1 kvs = (r, s')" by (simp add: kv)
    from Cons.IH [OF f(1) _ this] Cons.prems(2,4)
    have ih: "inv s'" "\<And>j. contents s' j = contents s1 j
        \<or> (\<exists>va. (j, va) \<in> set kvs \<and> contents s' j \<in> {None, Some va})"
      by auto
    have "contents s' j = contents s j
      \<or> (\<exists>va. (j, va) \<in> set (kv # kvs) \<and> contents s' j \<in> {None, Some va})" for j
    proof (cases "j = k")
      case True
      have "(k, va) \<notin> set kvs" for va using Cons.prems(4) by (force simp: kv)
      with ih(2) [of k] k True show ?thesis by (auto simp: kv)
    next
      case False
      with ih(2) [of j] f(2) show ?thesis by (auto simp: kv)
    qed
    with ih(1) show ?thesis by blast
  qed
qed

lemma remove_each_done:
  assumes "inv s" "remove_each K s ks = (Inr (), s')"
  shows "inv s' \<and> contents s' = contents s |` (- set ks)"
  using assms
proof (induction ks arbitrary: s)
  case Nil
  then show ?case by simp
next
  case (Cons k ks)
  from Cons.prems(2) obtain b s1 where p: "kv_remove K s k = (Inr b, s1)" "remove_each K s1 ks = (Inr (), s')"
    by (auto split: prod.splits sum.splits)
  note c = remove_contents [OF Cons.prems(1) p(1)]
  from Cons.IH [OF c(1) p(2)] c(2) show ?case by (auto simp: restrict_map_def fun_eq_iff)
qed

end

section \<open>Trust on first use\<close>

definition offer_statement ::
  "('sk, 'vk, 'sig) prims \<Rightarrow> bs58 \<Rightarrow> b64 \<Rightarrow> json_codec \<Rightarrow> rstr \<Rightarrow> bytes \<Rightarrow> owner_pin option
     \<Rightarrow> owner_pin option"
where
  "offer_statement P B E J my_did container pin =
     (case check_statement P B E J container my_did of
        Inl _ \<Rightarrow> None
      | Inr c \<Rightarrow>
          if pin_allows pin (genesis_pubkey (ck_pin c)) (roster_version (ck_pin c))
          then Some (ck_pin c) else None)"

interpretation settings_tofu: tofu "offer_statement P B E J my_did" for P B E J my_did
  by unfold_locales (auto simp: offer_statement_def pin_allows_def split: sum.splits if_splits)

text \<open>The pin a store's contents hold.\<close>

definition pin_in :: "(bytes \<Rightarrow> bytes option) \<Rightarrow> owner_pin option" where
  "pin_in m = (case m KV_OWNER_PIN of None \<Rightarrow> None
     | Some bs \<Rightarrow> (case pin_decode bs of Inl _ \<Rightarrow> None | Inr p \<Rightarrow> Some p))"

lemma pin_in_entry:
  "m KV_OWNER_PIN = map_option (\<lambda>p. genesis_pubkey p @ u32_to_be (roster_version p)) pin \<Longrightarrow>
     \<forall>p. pin = Some p \<longrightarrow> length (genesis_pubkey p) = 33 \<Longrightarrow> pin_in m = pin"
  by (cases pin) (simp_all add: pin_in_def pin_decode_encode)

section \<open>The boot, on every outcome\<close>

definition owner_taken :: "owner_pin option \<Rightarrow> checked \<Rightarrow> outcome" where
  "owner_taken pinned c =
     (if pinned \<noteq> None then Rehomed (ck_owner_did c) (roster_version (ck_pin c)) True
      else Adopted (ck_owner_did c) (roster_version (ck_pin c)) True)"

lemma apply_admitted:
  assumes "kv_get S s SETTINGS_ADOPT ADOPT_MAX = Inr (Some container)"
    and "check_statement P B E J container my_did = Inr c"
    and "stored_pin I i = Inr pinned"
    and "pin_allows pinned (genesis_pubkey (ck_pin c)) (roster_version (ck_pin c))"
  shows "apply_settings P B E J S I s i my_did =
    (case put_each I i (owner_entries c container) of
       (Inl e, i) \<Rightarrow> (Inl e, s, i)
     | (Inr _, i) \<Rightarrow> clear_then S s i (owner_taken pinned c))"
proof -
  have 1: "put_each I i (owner_entries c container) =
      (case put_each I i [(KV_ADOPTION, container), (KV_ADOPTION_KIND, KIND_MATA_STATEMENT)] of
         (Inl e, i) \<Rightarrow> (Inl e, i)
       | (Inr _, i) \<Rightarrow> put_each I i
           [(KV_OWNER_PIN, genesis_pubkey (ck_pin c) @ u32_to_be (roster_version (ck_pin c))),
            (KV_PIN_PROVISIONAL, [1])])"
    unfolding owner_entries_def
    by (rule put_each_append [of I i "[(KV_ADOPTION, container), (KV_ADOPTION_KIND, KIND_MATA_STATEMENT)]"
          "[(KV_OWNER_PIN, genesis_pubkey (ck_pin c) @ u32_to_be (roster_version (ck_pin c))),
            (KV_PIN_PROVISIONAL, [1])]", unfolded append_Cons append_Nil])
  have 2: "pin_encode (ck_pin c) (replicate PIN_LEN 0) =
      (Inr PIN_LEN, genesis_pubkey (ck_pin c) @ u32_to_be (roster_version (ck_pin c)))"
    by (rule pin_encode_fits) simp
  obtain r1 i1 where p1: "put_each I i [(KV_ADOPTION, container), (KV_ADOPTION_KIND, KIND_MATA_STATEMENT)] = (r1, i1)"
    by (rule prod.exhaust)
  obtain r2 i2 where p2: "put_each I i1
      [(KV_OWNER_PIN, genesis_pubkey (ck_pin c) @ u32_to_be (roster_version (ck_pin c))),
       (KV_PIN_PROVISIONAL, [1])] = (r2, i2)"
    by (rule prod.exhaust)
  show ?thesis
    using assms(4) unfolding 1
    by (cases pinned; cases r1; cases r2)
      (simp_all add: apply_settings_def assms(1-3) 2 p1 p2 owner_taken_def pin_allows_def
        del: put_each.simps flip: not_less)
qed

lemma apply_not_admitted:
  assumes "kv_get S s SETTINGS_ADOPT ADOPT_MAX = Inr (Some container)"
    and "check_statement P B E J container my_did = Inr c"
    and "stored_pin I i = Inr pinned"
    and "\<not> pin_allows pinned (genesis_pubkey (ck_pin c)) (roster_version (ck_pin c))"
  shows "\<exists>why. apply_settings P B E J S I s i my_did = clear_then S s i (Refused why)"
  using assms by (cases pinned) (auto simp: apply_settings_def pin_allows_def)

text \<open>What a boot decides before it writes: an error, nothing, a reason to refuse, or an owner to take.\<close>

datatype decision =
    Stop error
  | Leave
  | Refuse string
  | Take bytes checked "owner_pin option"

definition boot_decision ::
  "('sk, 'vk, 'sig) prims \<Rightarrow> bs58 \<Rightarrow> b64 \<Rightarrow> json_codec \<Rightarrow> 's kv \<Rightarrow> 'i kv \<Rightarrow> 's \<Rightarrow> 'i \<Rightarrow> rstr \<Rightarrow> decision"
where
  "boot_decision P B E J S I s i my_did =
     (case kv_get S s SETTINGS_ADOPT ADOPT_MAX of
        Inr None \<Rightarrow> Leave
      | Inl (BufferTooSmall _) \<Rightarrow> Refuse ''the adoption is longer than 8 KiB''
      | Inl e \<Rightarrow> Stop e
      | Inr (Some container) \<Rightarrow>
        (case check_statement P B E J container my_did of
           Inl why \<Rightarrow> Refuse why
         | Inr c \<Rightarrow>
           (case stored_pin I i of
              Inl e \<Rightarrow> Stop e
            | Inr pinned \<Rightarrow>
              if pinned \<noteq> None \<and> genesis_pubkey (the pinned) \<noteq> genesis_pubkey (ck_pin c)
              then Refuse ''the device is pinned to another owner''
              else if pinned \<noteq> None \<and> roster_version (ck_pin c) < roster_version (the pinned)
              then Refuse ''the adoption's roster is older than the pinned one''
              else Take container c pinned)))"

lemma apply_decided:
  "apply_settings P B E J S I s i my_did =
    (case boot_decision P B E J S I s i my_did of
       Stop e \<Rightarrow> (Inl e, s, i)
     | Leave \<Rightarrow> (Inr Nothing, s, i)
     | Refuse why \<Rightarrow> clear_then S s i (Refused why)
     | Take container c pinned \<Rightarrow>
         (case put_each I i (owner_entries c container) of
            (Inl e, i) \<Rightarrow> (Inl e, s, i)
          | (Inr _, i) \<Rightarrow> clear_then S s i (owner_taken pinned c)))"
proof (cases "boot_decision P B E J S I s i my_did")
  case (Stop e)
  then show ?thesis
    by (auto simp: boot_decision_def apply_settings_def split: sum.splits option.splits error.splits if_splits)
next
  case Leave
  then show ?thesis
    by (auto simp: boot_decision_def apply_settings_def split: sum.splits option.splits error.splits if_splits)
next
  case (Refuse why)
  then show ?thesis
    by (auto simp: boot_decision_def apply_settings_def split: sum.splits option.splits error.splits if_splits)
next
  case (Take container c pinned)
  then have "kv_get S s SETTINGS_ADOPT ADOPT_MAX = Inr (Some container)"
    "check_statement P B E J container my_did = Inr c" "stored_pin I i = Inr pinned"
    "pin_allows pinned (genesis_pubkey (ck_pin c)) (roster_version (ck_pin c))"
    by (auto simp: boot_decision_def pin_allows_def split: sum.splits option.splits error.splits if_splits)
  from apply_admitted [OF this] Take show ?thesis by simp
qed

inductive boots ::
  "('sk, 'vk, 'sig) prims \<Rightarrow> bs58 \<Rightarrow> b64 \<Rightarrow> json_codec \<Rightarrow> 's kv \<Rightarrow> 'i kv \<Rightarrow> rstr \<Rightarrow> ('s \<Rightarrow> bool)
     \<Rightarrow> 'i \<Rightarrow> 'i \<Rightarrow> bool"
  for P B E J S I my_did sok
where
  none: "boots P B E J S I my_did sok i i"
| boot: "boots P B E J S I my_did sok i j \<Longrightarrow> sok s \<Longrightarrow>
    apply_settings P B E J S I s j my_did = (Inr out, s', k) \<Longrightarrow> boots P B E J S I my_did sok i k"

locale boot_stores =
  settings: kv_store S sc sinv sst + identity: kv_store I ic iinv ist
  for S :: "'s kv" and sc :: "'s \<Rightarrow> bytes \<Rightarrow> bytes option" and sinv :: "'s \<Rightarrow> bool"
    and sst :: "bytes \<Rightarrow> bool"
    and I :: "'i kv" and ic :: "'i \<Rightarrow> bytes \<Rightarrow> bytes option" and iinv :: "'i \<Rightarrow> bool"
    and ist :: "bytes \<Rightarrow> bool" +
  assumes identity_storable: "length v \<le> ADOPT_MAX \<Longrightarrow> ist v"
begin

lemma clear_then_Inr:
  assumes "sinv s" "clear_then S s i out = (Inr out', s', i')"
  shows "out' = out \<and> i' = i \<and> sinv s' \<and> sc s' = (sc s)(SETTINGS_ADOPT := None)"
  using assms settings.remove_contents [OF assms(1)]
  by (auto simp: clear_then_def split: prod.splits sum.splits)

lemma clear_then_Inl:
  assumes "sinv s" "clear_then S s i out = (Inl e, s', i')"
  shows "i' = i \<and> sinv s' \<and> sc s' SETTINGS_ADOPT \<in> {sc s SETTINGS_ADOPT, None}"
  using assms settings.remove_frame [OF assms(1)] settings.remove_failed [OF assms(1)]
  by (auto simp: clear_then_def split: prod.splits sum.splits)

lemma owner_entries_storable:
  assumes "length container \<le> ADOPT_MAX" "check_statement P B E J container my_did = Inr c"
  shows "\<forall>(k, v) \<in> set (owner_entries c container). ist v"
  using assms check_statement_pin_length [OF assms(2)]
  by (auto simp: owner_entries_def KIND_MATA_STATEMENT_def intro!: identity_storable)

text \<open>What each decision says of the two stores.\<close>

lemma decision_Leave:
  "sinv s \<Longrightarrow> boot_decision P B E J S I s i my_did = Leave \<Longrightarrow> sc s SETTINGS_ADOPT = None"
  using settings.get_value [of s SETTINGS_ADOPT ADOPT_MAX]
  by (auto simp: boot_decision_def split: sum.splits option.splits error.splits if_splits)

lemma decision_Take:
  assumes "sinv s" "boot_decision P B E J S I s i my_did = Take container c pinned"
  shows "sc s SETTINGS_ADOPT = Some container" and "length container \<le> ADOPT_MAX"
    and "check_statement P B E J container my_did = Inr c" and "stored_pin I i = Inr pinned"
    and "pin_allows pinned (genesis_pubkey (ck_pin c)) (roster_version (ck_pin c))"
proof -
  from assms(2) have g: "kv_get S s SETTINGS_ADOPT ADOPT_MAX = Inr (Some container)"
    and r: "check_statement P B E J container my_did = Inr c" "stored_pin I i = Inr pinned"
      "pin_allows pinned (genesis_pubkey (ck_pin c)) (roster_version (ck_pin c))"
    by (auto simp: boot_decision_def pin_allows_def split: sum.splits option.splits error.splits if_splits)
  from settings.get_value [OF assms(1) g]
  show "sc s SETTINGS_ADOPT = Some container" "length container \<le> ADOPT_MAX" by simp_all
  from r show "check_statement P B E J container my_did = Inr c" "stored_pin I i = Inr pinned"
    "pin_allows pinned (genesis_pubkey (ck_pin c)) (roster_version (ck_pin c))" .
qed

lemma decision_Refuse:
  assumes "sinv s" "boot_decision P B E J S I s i my_did = Refuse why"
    and "sc s SETTINGS_ADOPT = Some container" "length container \<le> ADOPT_MAX"
    and "check_statement P B E J container my_did = Inr c"
  shows "\<exists>pinned. stored_pin I i = Inr pinned \<and>
    \<not> pin_allows pinned (genesis_pubkey (ck_pin c)) (roster_version (ck_pin c))"
proof (cases "kv_get S s SETTINGS_ADOPT ADOPT_MAX")
  case (Inl e)
  with settings.get_small [OF assms(1), of SETTINGS_ADOPT ADOPT_MAX] assms(2-4) show ?thesis
    by (cases e) (auto simp: boot_decision_def)
next
  case (Inr got)
  with settings.get_value [OF assms(1) Inr] assms(2,3,5) show ?thesis
    by (auto simp: boot_decision_def pin_allows_def split: sum.splits if_splits)
qed

lemma apply_Inr:
  assumes si: "sinv s" and ii: "iinv i"
    and run: "apply_settings P B E J S I s i my_did = (Inr out, s', i')"
  obtains
    (nothing) "out = Nothing" "s' = s" "i' = i" "sc s SETTINGS_ADOPT = None"
  | (refused) why where "out = Refused why" "i' = i" "sinv s'" "sc s' = (sc s)(SETTINGS_ADOPT := None)"
      "\<And>container c. sc s SETTINGS_ADOPT = Some container \<Longrightarrow> length container \<le> ADOPT_MAX \<Longrightarrow>
         check_statement P B E J container my_did = Inr c \<Longrightarrow>
         \<exists>pinned. stored_pin I i = Inr pinned \<and>
           \<not> pin_allows pinned (genesis_pubkey (ck_pin c)) (roster_version (ck_pin c))"
  | (taken) container c pinned where
      "sc s SETTINGS_ADOPT = Some container" "length container \<le> ADOPT_MAX"
      "check_statement P B E J container my_did = Inr c" "stored_pin I i = Inr pinned"
      "pin_allows pinned (genesis_pubkey (ck_pin c)) (roster_version (ck_pin c))"
      "out = owner_taken pinned c" "sinv s'" "iinv i'"
      "sc s' = (sc s)(SETTINGS_ADOPT := None)" "ic i' = ic i ++ map_of (rev (owner_entries c container))"
proof (cases "boot_decision P B E J S I s i my_did")
  case (Stop e)
  with run show thesis by (simp add: apply_decided)
next
  case Leave
  from run Leave have "out = Nothing" "s' = s" "i' = i" by (simp_all add: apply_decided)
  then show thesis using decision_Leave [OF si Leave] by (rule nothing)
next
  case (Refuse why)
  with run have "clear_then S s i (Refused why) = (Inr out, s', i')" by (simp add: apply_decided)
  from clear_then_Inr [OF si this] decision_Refuse [OF si Refuse] show thesis by (intro refused) auto
next
  case (Take container c pinned)
  note t = decision_Take [OF si Take]
  from run Take obtain i1 where p: "put_each I i (owner_entries c container) = (Inr (), i1)"
    and q: "clear_then S s i1 (owner_taken pinned c) = (Inr out, s', i')"
    by (auto simp: apply_decided split: prod.splits sum.splits)
  note d = identity.put_each_done [OF ii owner_entries_storable [OF t(2,3)] p]
  from clear_then_Inr [OF si q] d t show thesis by (intro taken) auto
qed

text \<open>The stored pin only ever moves by an offer that trust on first use allows.\<close>

lemma stored_pin_in: "iinv i \<Longrightarrow> stored_pin I i = Inr pin \<Longrightarrow> pin_in (ic i) = pin"
  using identity.stored_pin_value by (intro pin_in_entry) blast+

lemma owner_entries_pin:
  assumes "check_statement P B E J container my_did = Inr c"
  shows "pin_in (m ++ map_of (rev (owner_entries c container))) = Some (ck_pin c)"
  using check_statement_pin_length [OF assms]
  by (intro pin_in_entry) (simp_all add: owner_entries_def)

lemma apply_pin_step:
  assumes "sinv s" "iinv i" "apply_settings P B E J S I s i my_did = (Inr out, s', i')"
  shows "iinv i' \<and> (pin_step (offer_statement P B E J my_did))\<^sup>*\<^sup>* (pin_in (ic i)) (pin_in (ic i'))"
  using assms
proof (rule apply_Inr)
  fix container c pinned
  assume c: "check_statement P B E J container my_did = Inr c" "stored_pin I i = Inr pinned"
    "pin_allows pinned (genesis_pubkey (ck_pin c)) (roster_version (ck_pin c))" "iinv i'"
    and ic: "ic i' = ic i ++ map_of (rev (owner_entries c container))"
  have "pin_in (ic i') = Some (ck_pin c)" unfolding ic by (rule owner_entries_pin [OF c(1)])
  moreover have "offer_statement P B E J my_did container (pin_in (ic i)) = Some (ck_pin c)"
    using c stored_pin_in [OF assms(2) c(2)] by (simp add: offer_statement_def)
  ultimately show ?thesis using c(4) by (metis pin_step.taken r_into_rtranclp)
qed (use assms(2) in simp_all)

text \<open>Any number of boots, whatever the settings hold at each.\<close>

lemma boots_pinned:
  assumes "boots P B E J S I my_did sinv i j" "iinv i" "pin_in (ic i) = Some p"
  shows "iinv j \<and> (\<exists>q. pin_in (ic j) = Some q \<and> genesis_pubkey q = genesis_pubkey p
    \<and> roster_version p \<le> roster_version q)"
proof -
  from assms(1,2) have "iinv j \<and> (pin_step (offer_statement P B E J my_did))\<^sup>*\<^sup>* (pin_in (ic i)) (pin_in (ic j))"
  proof (induction rule: boots.induct)
    case (boot i j s out s' k)
    with apply_pin_step [OF boot(2) _ boot(3)] show ?case by (meson rtranclp_trans)
  qed simp
  with settings_tofu.run_pinned assms(3) show ?thesis by metis
qed

text \<open>
  A run that stops with an error leaves each of the four entries as it was, missing, or already
  new. As long as the settings still hold the container, a later run that succeeds takes the
  same owner and leaves the identity store exactly as an undisturbed run would have.
\<close>

lemma pin_entry_inj:
  "length k = 33 \<Longrightarrow> length k' = 33 \<Longrightarrow> k @ u32_to_be v = k' @ u32_to_be v' \<Longrightarrow> k = k' \<and> v = v'"
  by simp

lemma owner_entries_override:
  assumes "\<forall>j. m' j = m j \<or> j \<in> fst ` set (owner_entries c container)"
  shows "m' ++ map_of (rev (owner_entries c container)) = m ++ map_of (rev (owner_entries c container))"
proof
  fix j
  show "(m' ++ map_of (rev (owner_entries c container))) j = (m ++ map_of (rev (owner_entries c container))) j"
    using assms by (cases "j \<in> fst ` set (owner_entries c container)")
      (auto simp: owner_entries_def map_add_def split: option.splits)
qed

lemma apply_redo:
  assumes si: "sinv s" and ii: "iinv i"
    and held: "sc s SETTINGS_ADOPT = Some container" "length container \<le> ADOPT_MAX"
    and check: "check_statement P B E J container my_did = Inr c"
    and pinned: "stored_pin I i = Inr pinned"
      "pin_allows pinned (genesis_pubkey (ck_pin c)) (roster_version (ck_pin c))"
    and stop: "apply_settings P B E J S I s i my_did = (Inl e, s1, i1)"
  shows "sinv s1" and "iinv i1"
    and "sc s1 SETTINGS_ADOPT = Some container \<Longrightarrow>
      apply_settings P B E J S I s1 i1 my_did = (Inr out, s2, i2) \<Longrightarrow>
      (\<exists>pinned'. out = owner_taken pinned' c) \<and>
      ic i2 = ic i ++ map_of (rev (owner_entries c container)) \<and> sc s2 SETTINGS_ADOPT = None"
proof -
  note st = owner_entries_storable [OF held(2) check]
  have "sinv s1 \<and> iinv i1 \<and> (\<forall>j. ic i1 j = ic i j
      \<or> (\<exists>v. (j, v) \<in> set (owner_entries c container) \<and> ic i1 j \<in> {None, Some v}))"
  proof (cases "kv_get S s SETTINGS_ADOPT ADOPT_MAX")
    case (Inl e')
    have "\<not> (\<exists>m. e' = BufferTooSmall m)" using settings.get_small [OF si] Inl held by fastforce
    with stop Inl have "s1 = s" "i1 = i" by (cases e'; simp add: apply_settings_def)+
    with si ii show ?thesis by simp
  next
    case (Inr got)
    with settings.get_value [OF si Inr] held have got: "kv_get S s SETTINGS_ADOPT ADOPT_MAX = Inr (Some container)"
      by simp
    obtain r i' where p: "put_each I i (owner_entries c container) = (r, i')" by (rule prod.exhaust)
    have d: "distinct (map fst (owner_entries c container))" by (simp add: owner_entries_def)
    note q = identity.put_each_stopped [OF ii st p d]
    from stop [unfolded apply_admitted [OF got check pinned] p]
    have "i1 = i' \<and> sinv s1"
      using si clear_then_Inl [OF si, of i' "owner_taken pinned c" e s1 i1] by (cases r) auto
    with q show ?thesis by blast
  qed
  then show s1: "sinv s1" and i1: "iinv i1" by blast+
  from \<open>sinv s1 \<and> iinv i1 \<and> _\<close> have entries: "\<And>j. ic i1 j = ic i j
      \<or> (\<exists>v. (j, v) \<in> set (owner_entries c container) \<and> ic i1 j \<in> {None, Some v})" by blast
  have len: "length (genesis_pubkey (ck_pin c)) = 33" by (rule check_statement_pin_length [OF check])
  show "(\<exists>pinned'. out = owner_taken pinned' c) \<and>
      ic i2 = ic i ++ map_of (rev (owner_entries c container)) \<and> sc s2 SETTINGS_ADOPT = None"
    if again: "sc s1 SETTINGS_ADOPT = Some container"
      and run: "apply_settings P B E J S I s1 i1 my_did = (Inr out, s2, i2)"
  proof -
    have allowed: "pin_allows pinned' (genesis_pubkey (ck_pin c)) (roster_version (ck_pin c))"
      if p': "stored_pin I i1 = Inr pinned'" for pinned'
    proof -
      note v' = identity.stored_pin_value [OF i1 p'] and v = identity.stored_pin_value [OF ii pinned(1)]
      have "pinned' \<in> {pinned, None, Some (ck_pin c)}"
        using entries [of KV_OWNER_PIN] v v' len
        by (cases pinned; cases pinned'; cases "ck_pin c") (auto simp: owner_entries_def)
      with pinned(2) show ?thesis by (auto simp: pin_allows_def)
    qed
    show ?thesis
      using s1 i1 run
    proof (rule apply_Inr)
      assume "sc s1 SETTINGS_ADOPT = None"
      with again show ?thesis by simp
    next
      fix why
      assume "\<And>container c. sc s1 SETTINGS_ADOPT = Some container \<Longrightarrow>
        length container \<le> ADOPT_MAX \<Longrightarrow> check_statement P B E J container my_did = Inr c \<Longrightarrow>
        \<exists>pinned. stored_pin I i1 = Inr pinned \<and>
          \<not> pin_allows pinned (genesis_pubkey (ck_pin c)) (roster_version (ck_pin c))"
      from this [OF again held(2) check] allowed show ?thesis by blast
    next
      fix container' c' pinned'
      assume t: "sc s1 SETTINGS_ADOPT = Some container'"
        "check_statement P B E J container' my_did = Inr c'" "out = owner_taken pinned' c'"
        "sc s2 = (sc s1)(SETTINGS_ADOPT := None)"
        "ic i2 = ic i1 ++ map_of (rev (owner_entries c' container'))"
      with again check have same: "container' = container" "c' = c" by auto
      have "\<forall>j. ic i1 j = ic i j \<or> j \<in> fst ` set (owner_entries c container)"
        using entries by force
      with owner_entries_override t same show ?thesis by auto
    qed
  qed
qed

end

interpretation mem_boot: boot_stores mem_kv map_of "\<lambda>_. True" "\<lambda>_. True" mem_kv map_of "\<lambda>_. True" "\<lambda>_. True"
  by unfold_locales simp

section \<open>Forgetting the owner\<close>

definition owner_keys :: "bytes set" where
  "owner_keys = {KV_ADOPTION, KV_ADOPTION_KIND, KV_PIN_PROVISIONAL, KV_OWNER_PIN}"

context kv_store
begin

lemma forget_done:
  assumes "inv s" "forget K s = (Inr held, s')"
  shows "inv s'" and "contents s' = contents s |` (- owner_keys)"
    and "held \<longleftrightarrow> pin_in (contents s) \<noteq> None"
proof -
  from assms(2) obtain pin where p: "stored_pin K s = Inr pin" and h: "held \<longleftrightarrow> pin \<noteq> None"
    and r: "remove_each K s [KV_ADOPTION, KV_ADOPTION_KIND, KV_PIN_PROVISIONAL, KV_OWNER_PIN] = (Inr (), s')"
    by (auto simp: forget_def simp del: remove_each.simps split: prod.splits sum.splits)
  note d = remove_each_done [OF assms(1) r]
  show "inv s'" "contents s' = contents s |` (- owner_keys)"
    using d by (simp_all add: owner_keys_def)
  have "pin_in (contents s) = pin"
    by (rule pin_in_entry) (rule stored_pin_value [OF assms(1) p])+
  with h show "held \<longleftrightarrow> pin_in (contents s) \<noteq> None" by simp
qed

end

context kv_reliable
begin

lemma remove_each_runs:
  "inv s \<Longrightarrow> \<exists>s'. remove_each K s ks = (Inr (), s') \<and> inv s'"
proof (induction ks arbitrary: s)
  case (Cons k ks)
  obtain b s1 where "kv_remove K s k = (Inr b, s1)" "inv s1"
    using remove_runs [OF Cons.prems, of k] by blast
  with Cons.IH [of s1] show ?case by simp
qed simp

lemma stored_pin_runs:
  assumes "inv s" "contents s KV_OWNER_PIN = None \<or> (\<exists>p :: owner_pin. length (genesis_pubkey p) = 33 \<and>
      contents s KV_OWNER_PIN = Some (genesis_pubkey p @ u32_to_be (roster_version p)))"
  shows "stored_pin K s = Inr (pin_in (contents s))"
  using assms(2)
proof
  assume "contents s KV_OWNER_PIN = None"
  then show ?thesis by (simp add: stored_pin_def get_works [OF assms(1)] pin_in_def)
next
  assume "\<exists>p :: owner_pin. length (genesis_pubkey p) = 33 \<and>
      contents s KV_OWNER_PIN = Some (genesis_pubkey p @ u32_to_be (roster_version p))"
  then obtain p :: owner_pin where "length (genesis_pubkey p) = 33"
    "contents s KV_OWNER_PIN = Some (genesis_pubkey p @ u32_to_be (roster_version p))" by blast
  with pin_decode_encode [of p] show ?thesis
    by (simp add: stored_pin_def get_works [OF assms(1)] pin_in_def)
qed

lemma forget_runs:
  assumes "inv s" "contents s KV_OWNER_PIN = None \<or> (\<exists>p :: owner_pin. length (genesis_pubkey p) = 33 \<and>
      contents s KV_OWNER_PIN = Some (genesis_pubkey p @ u32_to_be (roster_version p)))"
  obtains s' where "forget K s = (Inr (pin_in (contents s) \<noteq> None), s')" "inv s'"
    "contents s' = contents s |` (- owner_keys)"
proof -
  obtain s' where r: "remove_each K s [KV_ADOPTION, KV_ADOPTION_KIND, KV_PIN_PROVISIONAL, KV_OWNER_PIN] = (Inr (), s')"
    using remove_each_runs [OF assms(1)] by blast
  have f: "forget K s = (Inr (pin_in (contents s) \<noteq> None), s')"
    by (simp only: forget_def stored_pin_runs [OF assms] r) simp
  from f forget_done(1,2) [OF assms(1) f] show thesis by (rule that)
qed

text \<open>What a boot took is what the status presents.\<close>

lemma stored_after_taken:
  assumes "inv s" "check_statement P B E J container my_did = Inr c" "length container \<le> ADOPT_MAX"
    and "contents s = m ++ map_of (rev (owner_entries c container))"
  shows "stored P B E J K s my_did = Inr (Some \<lparr>so_owner_did = ck_owner_did c,
    so_kind = KIND_MATA_STATEMENT, so_bytes = container, so_provisional = True\<rparr>)"
proof -
  have "length KIND_MATA_STATEMENT = 17" by (simp add: KIND_MATA_STATEMENT_def)
  with assms(3) have "kv_get K s KV_ADOPTION ADOPT_MAX = Inr (Some container)"
    "kv_get K s KV_ADOPTION_KIND 32 = Inr (Some KIND_MATA_STATEMENT)"
    "kv_get K s KV_PIN_PROVISIONAL 1 = Inr (Some [1])"
    by (simp_all add: get_works [OF assms(1)] assms(4) owner_entries_def)
  with assms(2) show ?thesis by (simp add: stored_def)
qed

end

end
