(* ===== verification/Json_Samples.thy ===== *)
theory Json_Samples
  imports Json
begin

text \<open>
  Concrete text codecs with the documented properties \<open>b64_ok\<close> and \<open>codec_ok\<close>, so that these
  hypotheses are known to be satisfiable and the witnesses have something to run on. They are
  not models of \<open>base64\<close> and \<open>serde_json\<close>.
\<close>

section \<open>Two letters per byte\<close>

fun letters_decode :: "rstr \<Rightarrow> bytes option" where
  "letters_decode [] = Some []"
| "letters_decode [_] = None"
| "letters_decode (a # b # r) =
     (let x = (a - 0x41) * 16 + (b - 0x41) in
      if a = 0x41 + x div 16 \<and> b = 0x41 + x mod 16 then map_option ((#) x) (letters_decode r) else None)"

definition sample_b64 :: b64 where
  "sample_b64 = \<lparr>
     b64_encode = (\<lambda>b. concat (map (\<lambda>x. [0x41 + x div 16, 0x41 + x mod 16]) b)),
     b64_decode = letters_decode \<rparr>"

lemma letters_roundtrip: "letters_decode (concat (map (\<lambda>x. [0x41 + x div 16, 0x41 + x mod 16]) b)) = Some b"
  by (induction b) (simp_all add: Let_def div_mult_mod_eq)

lemma letters_exact:
  "letters_decode t = Some b \<Longrightarrow> concat (map (\<lambda>x. [0x41 + x div 16, 0x41 + x mod 16]) b) = t"
proof (induction t arbitrary: b rule: letters_decode.induct)
  case (3 c d r)
  define x where "x = (c - 0x41) * 16 + (d - 0x41)"
  have "(if c = 0x41 + x div 16 \<and> d = 0x41 + x mod 16 then map_option ((#) x) (letters_decode r)
      else None) = Some b"
    using 3(2) by (simp only: letters_decode.simps Let_def x_def)
  then obtain b' where cd: "c = 0x41 + x div 16" "d = 0x41 + x mod 16" and b: "b = x # b'"
    and r: "letters_decode r = Some b'"
    by (auto split: if_splits)
  have "concat (map (\<lambda>x. [0x41 + x div 16, 0x41 + x mod 16]) b') = r"
    by (rule 3(1) [OF x_def _ r]) (use cd in simp)
  with cd b show ?case by simp
qed simp_all

lemma letter_range:
  fixes y :: u8
  assumes "unat y < 16"
  shows "0x41 + y < 0x80" and "0x41 + y \<noteq> 0x2E" and "0x41 + y \<noteq> 0x0A"
proof -
  have u: "unat (0x41 + y) = 0x41 + unat y"
    using assms by (simp add: unat_word_ariths(1))
  then show "0x41 + y < 0x80" using assms by (simp add: word_less_nat_alt)
  show "0x41 + y \<noteq> 0x2E"
  proof
    assume "0x41 + y = 0x2E"
    then have "unat (0x41 + y) = unat (0x2E :: u8)" by (rule arg_cong)
    with u show False by simp
  qed
  show "0x41 + y \<noteq> 0x0A"
  proof
    assume "0x41 + y = 0x0A"
    then have "unat (0x41 + y) = unat (0x0A :: u8)" by (rule arg_cong)
    with u show False by simp
  qed
qed

lemma unat_nibble_small: "unat ((x :: u8) div 16) < 16" "unat (x mod 16) < 16"
  using unsigned_less [of x, where 'a = nat] by (simp_all add: unat_div unat_mod)

lemma sample_b64_ok: "b64_ok sample_b64"
  using letter_range [OF unat_nibble_small(1)] letter_range [OF unat_nibble_small(2)]
  by (auto simp: b64_ok_def sample_b64_def letters_roundtrip letters_exact)

section \<open>A tagged binary form of a value\<close>

fun enc_bytes :: "bytes \<Rightarrow> bytes" where
  "enc_bytes [] = [0]"
| "enc_bytes (x # xs) = 1 # x # enc_bytes xs"

fun dec_bytes :: "bytes \<Rightarrow> (bytes \<times> bytes) option" where
  "dec_bytes [] = None"
| "dec_bytes [t] = (if t = 0 then Some ([], []) else None)"
| "dec_bytes (t # x # r) =
     (if t = 0 then Some ([], x # r) else map_option (\<lambda>(xs, r). (x # xs, r)) (dec_bytes r))"

lemma dec_enc_bytes: "dec_bytes (enc_bytes xs @ r) = Some (xs, r)"
  by (induction xs; cases r) simp_all

fun enc_json :: "json \<Rightarrow> bytes" where
  "enc_json JNull = [0]"
| "enc_json (JBool b) = [if b then 1 else 2]"
| "enc_json (JPos w) = 3 # u64_to_be w"
| "enc_json (JNeg w) = 4 # u64_to_be w"
| "enc_json (JFloat t) = 5 # enc_bytes t"
| "enc_json (JStr s) = 6 # enc_bytes s"
| "enc_json (JArr vs) = 7 # concat (map (\<lambda>v. 1 # enc_json v) vs) @ [0]"
| "enc_json (JObj es) = 8 # concat (map (\<lambda>e. 1 # enc_bytes (fst e) @ enc_json (snd e)) es) @ [0]"

fun dec_json :: "nat \<Rightarrow> bytes \<Rightarrow> (json \<times> bytes) option"
  and dec_arr :: "nat \<Rightarrow> bytes \<Rightarrow> (json list \<times> bytes) option"
  and dec_obj :: "nat \<Rightarrow> bytes \<Rightarrow> ((rstr \<times> json) list \<times> bytes) option"
where
  "dec_json (Suc n) (t # r) =
     (if t = 0 then Some (JNull, r)
      else if t = 1 then Some (JBool True, r)
      else if t = 2 then Some (JBool False, r)
      else if t = 3 then Some (JPos (u64_from_be (take 8 r)), drop 8 r)
      else if t = 4 then Some (JNeg (u64_from_be (take 8 r)), drop 8 r)
      else if t = 5 then map_option (\<lambda>(s, r). (JFloat s, r)) (dec_bytes r)
      else if t = 6 then map_option (\<lambda>(s, r). (JStr s, r)) (dec_bytes r)
      else if t = 7 then map_option (\<lambda>(vs, r). (JArr vs, r)) (dec_arr n r)
      else map_option (\<lambda>(es, r). (JObj es, r)) (dec_obj n r))"
| "dec_json _ _ = None"
| "dec_arr (Suc n) (t # r) =
     (if t = 0 then Some ([], r)
      else do { (v, r) \<leftarrow> dec_json n r; (vs, r) \<leftarrow> dec_arr n r; Some (v # vs, r) })"
| "dec_arr _ _ = None"
| "dec_obj (Suc n) (t # r) =
     (if t = 0 then Some ([], r)
      else do { (k, r) \<leftarrow> dec_bytes r; (v, r) \<leftarrow> dec_json n r; (es, r) \<leftarrow> dec_obj n r;
                Some ((k, v) # es, r) })"
| "dec_obj _ _ = None"

lemma dec_arr_enc:
  assumes "\<And>v m r. v \<in> set vs \<Longrightarrow> length (enc_json v) \<le> m \<Longrightarrow> dec_json m (enc_json v @ r) = Some (v, r)"
    and "length (concat (map (\<lambda>v. 1 # enc_json v) vs)) < n"
  shows "dec_arr n (concat (map (\<lambda>v. 1 # enc_json v) vs) @ 0 # r) = Some (vs, r)"
  using assms
proof (induction vs arbitrary: n)
  case Nil
  then show ?case by (cases n) simp_all
next
  case (Cons v vs)
  then show ?case by (cases n) simp_all
qed

lemma dec_obj_enc:
  assumes "\<And>e m r. e \<in> set es \<Longrightarrow> length (enc_json (snd e)) \<le> m \<Longrightarrow>
      dec_json m (enc_json (snd e) @ r) = Some (snd e, r)"
    and "length (concat (map (\<lambda>e. 1 # enc_bytes (fst e) @ enc_json (snd e)) es)) < n"
  shows "dec_obj n (concat (map (\<lambda>e. 1 # enc_bytes (fst e) @ enc_json (snd e)) es) @ 0 # r) = Some (es, r)"
  using assms
proof (induction es arbitrary: n)
  case Nil
  then show ?case by (cases n) simp_all
next
  case (Cons e es)
  obtain k v where e: "e = (k, v)" by (cases e)
  have "length (enc_json v) \<le> m \<Longrightarrow> dec_json m (enc_json v @ r) = Some (v, r)" for m r
    using Cons.prems(1) [of "(k, v)"] by (simp add: e)
  with Cons show ?case by (cases n) (simp_all add: e dec_enc_bytes)
qed

lemma dec_enc_json: "length (enc_json v) \<le> n \<Longrightarrow> dec_json n (enc_json v @ r) = Some (v, r)"
proof (induction v arbitrary: n r)
  case (JArr vs)
  then show ?case
    by (cases n) (simp_all add: dec_arr_enc)
next
  case (JObj es)
  have "dec_json m (enc_json (snd e) @ r) = Some (snd e, r)"
    if "e \<in> set es" "length (enc_json (snd e)) \<le> m" for e m r
    using JObj.IH [of e "snd e"] that by (cases e) simp
  with JObj.prems show ?case
    by (cases n) (simp_all add: dec_obj_enc)
qed (case_tac n; simp add: dec_enc_bytes)+

definition sample_codec :: json_codec where
  "sample_codec = \<lparr>
     js_write = enc_json,
     js_parse = (\<lambda>t. case dec_json (length t) t of Some (v, []) \<Rightarrow> Some v | _ \<Rightarrow> None) \<rparr>"

lemma sample_codec_reads: "js_parse sample_codec (js_write sample_codec v) = Some v"
  using dec_enc_json [of v "length (enc_json v)" "[]"] by (simp add: sample_codec_def)

lemma sample_codec_ok: "codec_ok sample_codec"
  by (simp add: codec_ok_def sample_codec_reads)

end
