(* ===== verification/Settings_Samples.thy ===== *)
theory Settings_Samples
  imports Settings_Correct Json_Samples Key_Correct
begin

text \<open>
  A concrete adoption container for the witnesses: the sample device adopted by the owner whose
  key it shows, written by the sample codecs.
\<close>

section \<open>A DID as text\<close>

definition sample_did_text :: rstr where
  "sample_did_text =
     (case to_did_string sample_bs58 (key_did sample_prims sample_key) of Inr s \<Rightarrow> s | Inl _ \<Rightarrow> [])"

lemma sample_did_valid: "valid_did sample_prims (key_did sample_prims sample_key)"
  using sample_prims_ok by (simp add: key_did_def valid_from_verifying_key)

lemma sample_did_text:
  "did_parse sample_prims sample_bs58 sample_did_text = Inr (key_did sample_prims sample_key)"
  "length sample_did_text \<le> MAX_DID_LEN" "utf8_valid sample_did_text"
proof -
  obtain t where t: "to_did_string sample_bs58 (key_did sample_prims sample_key) = Inr (DID_PREFIX @ t)"
      "from_base58 sample_prims sample_bs58 t = Inr (key_did sample_prims sample_key)"
      "length t \<le> MAX_BASE58_LEN" "\<forall>x \<in> set t. x < 0x80"
    using sample_bs58_ok sample_did_valid by (rule to_did_string_valid)
  then have s: "sample_did_text = DID_PREFIX @ t" by (simp add: sample_did_text_def)
  show "did_parse sample_prims sample_bs58 sample_did_text = Inr (key_did sample_prims sample_key)"
    using parse_strings(1) [OF t(2)] s by simp
  show "length sample_did_text \<le> MAX_DID_LEN" unfolding s using t(3) by (simp add: MAX_DID_LEN_def)
  show "utf8_valid sample_did_text"
    unfolding s using t(4) ascii_prefixes(1) by (intro utf8_valid_ascii_bytes) auto
qed

lemma sample_did_text_short: "length sample_did_text \<le> 55"
  using sample_did_text(2) by (simp add: MAX_DID_LEN_def)

section \<open>A container\<close>

definition sample_body :: json where
  "sample_body = JObj
     [(ascii ''v'', JPos 1), (ascii ''device_did'', JStr sample_did_text),
      (ascii ''owner_did'', JStr sample_did_text), (ascii ''roster_version'', JPos 3)]"

definition sample_content :: rstr where
  "sample_content = js_write sample_codec sample_body"

definition sample_claims :: json where
  "sample_claims = JObj
     [(ascii ''context'', JStr STATEMENT_CONTEXT), (ascii ''iss'', JStr sample_did_text),
      (ascii ''content_hash'', JStr (b64_encode sample_b64 (sha256 sample_prims sample_content)))]"

definition sample_payload :: rstr where
  "sample_payload = js_write sample_codec sample_claims"

definition sample_protected :: json where
  "sample_protected = JObj
     [(ascii ''alg'', JStr (ascii ''ES256'')), (ascii ''typ'', JStr (ascii ''JWT''))]"

definition sample_header :: rstr where
  "sample_header = js_write sample_codec sample_protected"

definition sample_jws :: rstr where
  "sample_jws = b64_encode sample_b64 sample_header @ [0x2E] @ b64_encode sample_b64 sample_payload @ [0x2E]
     @ b64_encode sample_b64 (replicate 64 7)"

definition sample_outer :: json where
  "sample_outer = JObj
     [(ascii ''content'', JStr sample_content), (ascii ''jws'', JStr sample_jws)]"

definition sample_container :: bytes where
  "sample_container = js_write sample_codec sample_outer"

lemma sample_statement:
  "statement_of sample_prims sample_b64 sample_codec sample_container sample_did_text sample_did_text 3"
proof -
  let ?E = sample_b64 and ?J = sample_codec
  have b: "b64_decode ?E (b64_encode ?E x) = Some x" "0x2E \<notin> set (b64_encode ?E x)" for x
    using b64_okD(1,4) [OF sample_b64_ok] by blast+
  show ?thesis
    unfolding statement_of_def
    by (rule exI [of _ sample_outer], rule exI [of _ sample_content], rule exI [of _ "b64_encode ?E sample_header"],
        rule exI [of _ "b64_encode ?E sample_payload"], rule exI [of _ "b64_encode ?E (replicate 64 7)"],
        rule exI [of _ sample_protected], rule exI [of _ sample_claims], rule exI [of _ sample_body], rule exI [of _ 3])
      (simp add: sample_container_def sample_header_def sample_payload_def sample_content_def sample_jws_def
        sample_codec_reads json_text_def b sample_outer_def sample_protected_def sample_claims_def
        sample_body_def)
qed

definition sample_checked :: checked where
  "sample_checked = \<lparr>ck_owner_did = sample_did_text,
     ck_pin = \<lparr>genesis_pubkey = did_pubkey (key_did sample_prims sample_key), roster_version = 3\<rparr>\<rparr>"

lemma sample_check:
  "check_statement sample_prims sample_bs58 sample_b64 sample_codec sample_container sample_did_text =
     Inr sample_checked"
  using check_statement_complete [OF sample_statement sample_did_text(1)] by (simp add: sample_checked_def)

section \<open>Its length\<close>

lemma length_enc_bytes: "length (enc_bytes xs) = 2 * length xs + 1"
  by (induction xs) simp_all

lemma length_sample_b64: "length (b64_encode sample_b64 xs) = 2 * length xs"
  by (induction xs) (simp_all add: sample_b64_def)

lemma length_sample_container: "length sample_container \<le> ADOPT_MAX"
proof -
  have "length (sha256 sample_prims m) = 32" for m by (rule prims_okD(1) [OF sample_prims_ok])
  moreover have "js_write sample_codec = enc_json" by (simp add: sample_codec_def)
  ultimately show ?thesis
    using sample_did_text_short
    by (simp add: sample_container_def sample_jws_def sample_header_def sample_payload_def sample_content_def
        sample_outer_def sample_protected_def sample_claims_def sample_body_def length_enc_bytes length_sample_b64 STATEMENT_CONTEXT_def)
qed

section \<open>An identity store that fails once\<close>

text \<open>After the given number of writes one fails; then it works again.\<close>

type_synonym flaky = "mem \<times> nat option"

definition flaky_put :: "flaky \<Rightarrow> bytes \<Rightarrow> bytes \<Rightarrow> unit result \<times> flaky" where
  "flaky_put s k v =
     (case snd s of
        Some 0 \<Rightarrow> (Inl Hardware, (fst s, None))
      | Some (Suc n) \<Rightarrow> (Inr (), ((k, v) # fst s, Some n))
      | None \<Rightarrow> (Inr (), ((k, v) # fst s, None)))"

definition flaky_kv :: "flaky kv" where
  "flaky_kv = \<lparr>kv_get = \<lambda>s. mem_get (fst s), kv_put = flaky_put,
     kv_remove = \<lambda>s k. (case mem_remove (fst s) k of (r, m) \<Rightarrow> (r, (m, snd s)))\<rparr>"

interpretation flaky: kv_store flaky_kv "\<lambda>s. map_of (fst s)" "\<lambda>_. True" "\<lambda>_. True"
  by unfold_locales
    (auto simp: flaky_kv_def mem_get_def flaky_put_def mem_remove_def map_of_filter_key
       split: option.splits if_splits nat.splits)

interpretation flaky_atomic: kv_atomic flaky_kv "\<lambda>s. map_of (fst s)" "\<lambda>_. True" "\<lambda>_. True"
  by unfold_locales (auto simp: flaky_kv_def flaky_put_def split: option.splits nat.splits)

interpretation flaky_boot: boot_stores mem_kv map_of "\<lambda>_. True" "\<lambda>_. True"
  flaky_kv "\<lambda>s. map_of (fst s)" "\<lambda>_. True" "\<lambda>_. True"
  by unfold_locales simp

end
