(* ===== verification/Prop_Identity.thy ===== *)
theory Prop_Identity
  imports Nonce Settings_Samples
begin

text \<open>
  What \<open>nonce.rs\<close>, \<open>key.rs\<close> and \<open>did.rs\<close> promise: the properties, over any store with the
  \<open>Kv\<close> contract.
\<close>

section \<open>The nonce window\<close>

text \<open>C10. The ring of nonces is the queue of the last \<open>N\<close> accepted ones: any sequence of frames
  offered to a fresh window is answered as that queue answers it, and the window never panics.\<close>

theorem nonce_window_is_queue:
  "\<exists>w. offer_all N (new_window N) xs = Inr (fst (queue_offers N [] xs), w)
     \<and> window_abs N w = snd (queue_offers N [] xs)"
  using offer_all_refines [OF window_inv_new, of N xs]
  by (auto simp: window_abs_empty)

text \<open>C11. Replay protection: a nonce that was accepted is refused, and the window left as it is,
  while fewer than \<open>N\<close> newer nonces have been accepted, whatever was offered in between.\<close>

theorem nonce_replay_refused:
  assumes "offer_all N (new_window N) xs = Inr (as, w0)"
    and "check_and_insert N w0 x = Inr (True, w1)"
    and "offer_all N w1 ys = Inr (bs, w2)" and "count_list bs True < N"
  shows "check_and_insert N w2 x = Inr (False, w2)"
proof -
  have "window_inv N w0" using offer_all_refines [OF window_inv_new, of N xs] assms(1) by auto
  from window.replay_refused [OF this assms(2) assms(3) [unfolded offer_all_offers] assms(4)]
  show ?thesis by (auto dest: refused_unchanged)
qed

theorem nonce_replay_refused_witness:
  "check_and_insert 2
     \<lparr>seen = [[3], [2]], nw_len = 2, nw_next = 1\<rparr> [2] =
   Inr (False, \<lparr>seen = [[3], [2]], nw_len = 2, nw_next = 1\<rparr>)"
proof (rule nonce_replay_refused)
  show "offer_all 2 (new_window 2) [[1]] =
      Inr ([True], \<lparr>seen = [[1], replicate 32 0], nw_len = 1, nw_next = 1\<rparr>)"
    by (simp add: new_window_def check_and_insert_def contains_def numeral_2_eq_2)
  show "check_and_insert 2 \<lparr>seen = [[1], replicate 32 0], nw_len = 1, nw_next = 1\<rparr> [2] =
      Inr (True, \<lparr>seen = [[1], [2]], nw_len = 2, nw_next = 0\<rparr>)"
    by (simp add: check_and_insert_def contains_def)
  show "offer_all 2 \<lparr>seen = [[1], [2]], nw_len = 2, nw_next = 0\<rparr> [[3]] =
      Inr ([True], \<lparr>seen = [[3], [2]], nw_len = 2, nw_next = 1\<rparr>)"
    by (simp add: check_and_insert_def contains_def)
  show "count_list [True] True < 2" by simp
qed

section \<open>Keys and identifiers\<close>

text \<open>C12. A device key signs for the DID it shows: whatever secret it was made from, a signature of
  a 32-byte hash is 64 bytes the family's verifier accepts under the DID's key, and no other
  bytes with the same low-s form are ever accepted.\<close>

theorem device_key_signs:
  assumes "prims_ok P" "from_secret P secret device_id = Inr key" "length h = 32"
  shows "length (sign_prehash P key h) = 64
    \<and> verify_prehash P (did_pubkey (key_did P key)) h (sign_prehash P key h) = Inr ()
    \<and> (\<forall>pk h' sg. verify_prehash P pk h' sg = Inr () \<and>
         map_option (low_s P) (sig_from_slice P sg) =
         map_option (low_s P) (sig_from_slice P (sign_prehash P key h)) \<longrightarrow>
         sg = sign_prehash P key h)"
proof -
  have d: "device_signer P (key_signer P key) (did_pubkey (key_did P key))"
    using assms(1) from_secret_wf [OF assms(2)] by (rule key_signer_provides)
  have v: "verify_prehash P (did_pubkey (key_did P key)) h (sign_prehash P key h) = Inr ()"
    using device_signer.sign_verifies [OF d assms(3)] by (simp add: key_signer_def)
  with verify_not_malleable [OF assms(1) _ v] length_sign_prehash [OF assms(1)] show ?thesis by blast
qed

lemma sample_id: "device_id_new (ascii ''cam-1'') = Inr (dk_device_id sample_key)"
  by (simp add: device_id_new_def sample_key_def ascii_def is_ascii_alphanumeric_def Let_def)

lemma sample_from_secret:
  "from_secret sample_prims (1 # replicate 30 0 @ [7]) (ascii ''cam-1'') = Inr sample_key"
  using sample_id by (simp add: from_secret_Inr sample_key_def sample_prims_def)

theorem device_key_signs_witness:
  "length (sign_prehash sample_prims sample_key (replicate 32 1)) = 64
    \<and> verify_prehash sample_prims (did_pubkey (key_did sample_prims sample_key)) (replicate 32 1)
        (sign_prehash sample_prims sample_key (replicate 32 1)) = Inr ()"
  using device_key_signs [OF sample_prims_ok sample_from_secret, of "replicate 32 1"] by simp

text \<open>C13. DID strings have one reading and one spelling: a string parses to a DID exactly when the
  DID is a valid key and prints as that string, in the \<open>did:mata:\<close> form and in the multibase
  form alike.\<close>

theorem did_text_roundtrip:
  assumes "bs58_ok B"
  shows "(did_parse P B s = Inr d \<longleftrightarrow> valid_did P d \<and> to_did_string B d = Inr s)
    \<and> (parse_multibase P B m = Inr d \<longleftrightarrow> valid_did P d \<and> to_multibase_string B d = Inr m)"
proof -
  have v: "parse_multibase P B m = Inr d \<Longrightarrow> valid_did P d"
    using assms by (auto simp: parse_multibase_def result_iffs dest: from_base58_Inr(1))
  have "valid_did P d \<Longrightarrow> \<exists>t. to_did_string B d = Inr (DID_PREFIX @ t) \<and>
      to_multibase_string B d = Inr (MULTIBASE_Z @ t) \<and> from_base58 P B t = Inr d"
    using assms by (blast elim: to_did_string_valid)
  with v show ?thesis
    using parse_strings [of P B _ d] did_parse_valid [of P B s d]
      parse_to_string [OF assms, of P s d] parse_to_multibase [OF assms, of P m d]
    by (metis sum.inject(2))
qed

theorem did_text_roundtrip_witness:
  "did_parse sample_prims sample_bs58 sample_did_text = Inr (key_did sample_prims sample_key)
   \<and> valid_did sample_prims (key_did sample_prims sample_key)
   \<and> to_did_string sample_bs58 (key_did sample_prims sample_key) = Inr sample_did_text"
  using did_text_roundtrip [OF sample_bs58_ok, of sample_prims sample_did_text] sample_did_text(1) by blast

text \<open>C14. One identity for as long as the store keeps it: once \<open>load_or_generate\<close> has answered a key,
  every later boot over a working store that still holds the entry answers that same key, draws
  nothing from the generator and writes nothing.\<close>

theorem identity_stable:
  assumes "kv_reliable K contents good storable" "prims_ok P" "good s"
    and "\<And>v. length v = 32 \<Longrightarrow> storable v"
    and "load_or_generate P K fill s r device_id = (Inr key, s', r')"
  shows "wf_key P key \<and> good s' \<and> contents s' KV_KEY = Some (secret_bytes P key)
    \<and> (\<forall>j. j \<noteq> KV_KEY \<longrightarrow> contents s' j = contents s j)
    \<and> (\<forall>t q (fill2 :: 'q rng). good t \<and> contents t KV_KEY = contents s' KV_KEY \<longrightarrow>
         load_or_generate P K fill2 t q device_id = (Inr key, t, q))"
proof -
  have st: "kv_store K contents good storable" using assms(1) by (simp add: kv_reliable_def)
  note k = kv_store.load_or_generate_stored [OF st assms(2,3,4,5)]
  have "load P K t device_id = Inr (Some key)" if "good t" "contents t KV_KEY = contents s' KV_KEY" for t
    using kv_reliable.load_again [OF assms(1,2) that(1) k(2,3)] that(2) k(4) by simp
  with k show ?thesis by (simp add: load_or_generate_def)
qed

lemma sample_secret: "secret_bytes sample_prims sample_key = 1 # replicate 30 0 @ [7]"
  by (simp add: secret_bytes_def sample_key_def sample_prims_def)

lemma sample_generated: "generate sample_prims sample_rng 7 (ascii ''cam-1'') = (Inr sample_key, 8)"
proof -
  have d: "derive sample_prims (1 # replicate 30 0 @ [7]) = Some (7, 7)"
    by (simp add: derive_def sample_prims_def)
  have r: "sample_rng 7 32 = (Inr (1 # replicate 30 0 @ [7]), 8)"
    by (simp add: sample_rng_def)
  have k: "\<lparr>dk_secret = 7, dk_public = 7, dk_device_id = dk_device_id sample_key\<rparr> = sample_key"
    by (simp add: sample_key_def)
  have "generate_attempts sample_prims sample_rng (dk_device_id sample_key) (Suc 7) 7 = (Inr sample_key, 8)"
    by (simp only: generate_attempts.simps r d prod.case sum.case option.case k)
  then show ?thesis by (simp add: generate_def sample_id)
qed

lemma sample_minted:
  "load_or_generate sample_prims mem_kv sample_rng [] 7 (ascii ''cam-1'') =
     (Inr sample_key, [(KV_KEY, 1 # replicate 30 0 @ [7])], 8)"
  using sample_secret
  by (simp add: load_or_generate_def load_def sample_generated mem_kv_def mem_get_def store_def mem_put_def)

theorem identity_stable_witness:
  "wf_key sample_prims sample_key
    \<and> load_or_generate sample_prims mem_kv sample_rng [([1], [2]), (KV_KEY, 1 # replicate 30 0 @ [7])] 99
        (ascii ''cam-1'') = (Inr sample_key, [([1], [2]), (KV_KEY, 1 # replicate 30 0 @ [7])], 99)"
proof -
  have "KV_KEY \<noteq> [1]" by (simp add: KV_KEY_def ascii_def)
  with identity_stable [OF mem.kv_reliable_axioms sample_prims_ok TrueI TrueI sample_minted,
      where ?'q = u8]
  show ?thesis by simp
qed

text \<open>An identity is never replaced: over a store any of whose calls may fail, a boot that finds
  the entry either answers the key it holds or an error; it never mints another and never
  touches the store.\<close>

lemma identity_never_replaced:
  assumes "kv_store K contents good storable" "prims_ok P" "good s" "wf_key P key"
    and "device_id_new device_id = Inr (dk_device_id key)"
    and "contents s KV_KEY = Some (secret_bytes P key)"
    and "load_or_generate P K fill s r device_id = (res, s', r')"
  shows "s' = s \<and> r' = r \<and> (res = Inr key \<or> (\<exists>e. res = Inl e))"
proof (cases "load P K s device_id")
  case (Inr got)
  with kv_store.load_stored [OF assms(1-6) Inr] assms(7) show ?thesis
    by (simp add: load_or_generate_def)
qed (use assms(7) in \<open>auto simp: load_or_generate_def\<close>)

lemma identity_never_replaced_witness:
  "let t = [(KV_KEY, 1 # replicate 30 0 @ [7])];
       run = load_or_generate sample_prims mem_kv sample_rng t 8 (ascii ''cam-1'') in
     fst (snd run) = t \<and> snd (snd run) = 8 \<and> (fst run = Inr sample_key \<or> (\<exists>e. fst run = Inl e))"
  unfolding Let_def
proof (rule identity_never_replaced)
  show "kv_store mem_kv map_of (\<lambda>_. True) (\<lambda>_. True)" by (rule mem.kv_store_axioms)
  show "map_of [(KV_KEY, 1 # replicate 30 0 @ [7])] KV_KEY = Some (secret_bytes sample_prims sample_key)"
    by (simp add: secret_bytes_def sample_key_def sample_prims_def)
qed (rule TrueI sample_prims_ok sample_key_wf sample_id | simp)+

text \<open>C15. The public-key cache never changes an identity: the cached load answers what the plain load
  answers, for every store whose cache entry was not forged under the secret, and writes
  nothing but the cache entry.\<close>

theorem load_cached_is_load:
  assumes "kv_store K contents good storable" "prims_ok P" "good s"
    and "\<And>k. contents s KV_KEY = Some (scalar_to_repr P k) \<Longrightarrow> pub_honest P k (contents s KV_PUB)"
  shows "fst (load_cached P K s device_id) = load P K s device_id
    \<and> good (snd (load_cached P K s device_id))
    \<and> (\<forall>j. j \<noteq> KV_PUB \<longrightarrow> contents (snd (load_cached P K s device_id)) j = contents s j)"
  using kv_store.load_cached_load [OF assms] kv_store.load_cached_frame [OF assms(1,3)] by blast

theorem load_cached_is_load_witness:
  "fst (load_cached sample_prims mem_kv [(KV_KEY, 1 # replicate 30 0 @ [7])] (ascii ''cam-1'')) =
     load sample_prims mem_kv [(KV_KEY, 1 # replicate 30 0 @ [7])] (ascii ''cam-1'')"
proof -
  have "KV_KEY \<noteq> KV_PUB" by (simp add: KV_KEY_def KV_PUB_def)
  then have "pub_honest sample_prims k (map_of [(KV_KEY, 1 # replicate 30 0 @ [7])] KV_PUB)" for k
    by (simp add: pub_honest_def)
  with load_cached_is_load [OF mem.kv_store_axioms sample_prims_ok TrueI] show ?thesis by blast
qed

text \<open>C16. A remembered signature is the signature: signing through the cache answers what signing
  answers, whatever entry is there unless it was forged under the secret, leaves such an entry
  behind, and touches no other key.\<close>

theorem sign_cached_is_sign:
  assumes "kv_store K contents good storable" "prims_ok P" "good s" "length prehash = 32"
    and "sig_honest P key (contents s name)" "\<And>v. length v = 128 \<Longrightarrow> storable v"
    and "sign_prehash_cached P K s key name prehash = (sig, s')"
  shows "sig = sign_prehash P key prehash \<and> good s' \<and> sig_honest P key (contents s' name)
    \<and> (\<forall>j. j \<noteq> name \<longrightarrow> contents s' j = contents s j)"
  using kv_store.sign_prehash_cached_correct [OF assms(1-6)] assms(7) by simp

theorem sign_cached_is_sign_witness:
  "let run = sign_prehash_cached sample_prims mem_kv [] sample_key [5] (replicate 32 1) in
     fst run = sign_prehash sample_prims sample_key (replicate 32 1)
     \<and> sig_honest sample_prims sample_key (map_of (snd run) [5])"
proof -
  have h: "sig_honest sample_prims sample_key (map_of [] [5])" by (simp add: sig_honest_def)
  have l: "length (replicate 32 (1 :: u8)) = 32" by simp
  show ?thesis
    using sign_cached_is_sign [OF mem.kv_store_axioms sample_prims_ok TrueI l h TrueI
        surjective_pairing] by (simp add: Let_def)
qed

end
