(* ===== verification/Kms.thy ===== *)
theory Kms
  imports Did Envelope Json
begin

text \<open>
  \<open>crates/rusty_esp_mid-core/src/kms.rs\<close>: the gateway's nonce envelope, its shape validation,
  the canonical form the device signs, the signed assertion, and their JSON shapes.
\<close>

section \<open>Constants\<close>

definition NONCE_DOMAIN :: bytes where "NONCE_DOMAIN = ascii ''kms-nonce-v1'' @ [0x0A]"
definition ENVELOPE_VERSION :: u8 where "ENVELOPE_VERSION = 1"
definition NONCE_TYPE :: rstr where "NONCE_TYPE = ascii ''nonce''"
definition ASSERTION_TYPE :: rstr where "ASSERTION_TYPE = ascii ''signed_assertion''"
definition MAX_TTL_SECS :: u64 where "MAX_TTL_SECS = 300"

section \<open>The borrowed envelope\<close>

record nonce_ref =
  nr_version :: u8
  nr_nonce :: bytes
  nr_did :: rstr
  nr_audience :: rstr
  nr_purpose :: rstr
  nr_issued_at :: u64
  nr_expires_at :: u64
  nr_issuer :: rstr

definition nonce_validate :: "('sk, 'vk, 'sig) prims \<Rightarrow> bs58 \<Rightarrow> nonce_ref \<Rightarrow> unit result" where
  "nonce_validate P B e =
     (if nr_version e \<noteq> ENVELOPE_VERSION then Inl Unsupported
      else if length (nr_nonce e) \<noteq> 32 then Inl InvalidFormat
      else bind_res (did_parse P B (nr_did e)) (\<lambda>_.
        if nr_expires_at e \<le> nr_issued_at e \<or> nr_expires_at e - nr_issued_at e > MAX_TTL_SECS
        then Inl InvalidFormat
        else if list_ex (\<lambda>field. length field > 65535)
               [nr_did e, nr_audience e, nr_purpose e, nr_issuer e]
        then Inl InvalidFormat
        else Inr ()))"

text \<open>\<open>lp\<close>: a length that does not fit is written as \<open>u16::MAX\<close>, the bytes in full.\<close>

definition lp :: "bytes \<Rightarrow> bytes" where
  "lp b = u16_to_be (if length b \<le> 65535 then of_nat (length b) else 65535) @ b"

definition canonical_message :: "nonce_ref \<Rightarrow> bytes" where
  "canonical_message e =
     NONCE_DOMAIN @ [nr_version e] @ lp (nr_nonce e) @ lp (nr_did e) @ lp (nr_audience e)
     @ lp (nr_purpose e) @ u64_to_be (nr_issued_at e) @ u64_to_be (nr_expires_at e)
     @ lp (nr_issuer e)"

definition canonical_bytes :: "('sk, 'vk, 'sig) prims \<Rightarrow> nonce_ref \<Rightarrow> bytes" where
  "canonical_bytes P e = sha256 P (canonical_message e)"

definition nonce_sign ::
  "('sk, 'vk, 'sig) prims \<Rightarrow> bs58 \<Rightarrow> signer \<Rightarrow> nonce_ref \<Rightarrow> bytes result" where
  "nonce_sign P B S e =
     bind_res (nonce_validate P B e) (\<lambda>_. Inr (sg_sign_prehash S (canonical_bytes P e)))"

section \<open>The owned envelopes and their JSON\<close>

record nonce_envelope =
  ne_version :: u8
  ne_type :: rstr
  ne_nonce :: bytes
  ne_did :: rstr
  ne_audience :: rstr
  ne_purpose :: rstr
  ne_issued_at :: u64
  ne_expires_at :: u64
  ne_issuer :: rstr

record signed_assertion =
  sa_version :: u8
  sa_type :: rstr
  sa_envelope :: nonce_envelope
  sa_device_id :: rstr
  sa_signature :: bytes

text \<open>The \<open>b64\<close> adapters of the byte fields.\<close>

definition b64_serialize :: "b64 \<Rightarrow> bytes \<Rightarrow> json" where
  "b64_serialize E b = JStr (b64_encode E b)"

definition b64_deserialize :: "b64 \<Rightarrow> json \<Rightarrow> bytes option" where
  "b64_deserialize E v = do { s \<leftarrow> as_str v; b64_decode E s }"

definition envelope_names :: "rstr list" where
  "envelope_names = map ascii [''envelope_version'', ''envelope_type'', ''nonce'', ''did'',
     ''audience'', ''purpose'', ''issued_at'', ''expires_at'', ''issuer'']"

definition envelope_ser :: "b64 \<Rightarrow> nonce_envelope \<Rightarrow> json" where
  "envelope_ser E e = JObj (zip envelope_names
     [JPos (ucast (ne_version e)), JStr (ne_type e), b64_serialize E (ne_nonce e), JStr (ne_did e),
      JStr (ne_audience e), JStr (ne_purpose e), JPos (ne_issued_at e), JPos (ne_expires_at e),
      JStr (ne_issuer e)])"

definition envelope_de :: "b64 \<Rightarrow> json \<Rightarrow> nonce_envelope option" where
  "envelope_de E v = do {
     es \<leftarrow> struct_entries envelope_names v;
     version \<leftarrow> the_field es (ascii ''envelope_version'') \<bind> de_u8;
     type \<leftarrow> the_field es (ascii ''envelope_type'') \<bind> as_str;
     nonce \<leftarrow> the_field es (ascii ''nonce'') \<bind> b64_deserialize E;
     did \<leftarrow> the_field es (ascii ''did'') \<bind> as_str;
     audience \<leftarrow> the_field es (ascii ''audience'') \<bind> as_str;
     purpose \<leftarrow> the_field es (ascii ''purpose'') \<bind> as_str;
     issued_at \<leftarrow> the_field es (ascii ''issued_at'') \<bind> as_u64;
     expires_at \<leftarrow> the_field es (ascii ''expires_at'') \<bind> as_u64;
     issuer \<leftarrow> the_field es (ascii ''issuer'') \<bind> as_str;
     Some \<lparr>ne_version = version, ne_type = type, ne_nonce = nonce, ne_did = did,
       ne_audience = audience, ne_purpose = purpose, ne_issued_at = issued_at,
       ne_expires_at = expires_at, ne_issuer = issuer\<rparr> }"

definition as_ref :: "nonce_envelope \<Rightarrow> nonce_ref" where
  "as_ref e = \<lparr>nr_version = ne_version e, nr_nonce = ne_nonce e, nr_did = ne_did e,
     nr_audience = ne_audience e, nr_purpose = ne_purpose e, nr_issued_at = ne_issued_at e,
     nr_expires_at = ne_expires_at e, nr_issuer = ne_issuer e\<rparr>"

definition envelope_validate :: "('sk, 'vk, 'sig) prims \<Rightarrow> bs58 \<Rightarrow> nonce_envelope \<Rightarrow> unit result" where
  "envelope_validate P B e =
     (if ne_type e \<noteq> NONCE_TYPE then Inl InvalidFormat else nonce_validate P B (as_ref e))"

definition envelope_from_json ::
  "('sk, 'vk, 'sig) prims \<Rightarrow> bs58 \<Rightarrow> b64 \<Rightarrow> json_codec \<Rightarrow> rstr \<Rightarrow> nonce_envelope result" where
  "envelope_from_json P B E J txt =
     bind_res (ok_or (js_parse J txt \<bind> envelope_de E) InvalidFormat) (\<lambda>env.
     bind_res (envelope_validate P B env) (\<lambda>_. Inr env))"

definition envelope_to_json :: "b64 \<Rightarrow> json_codec \<Rightarrow> nonce_envelope \<Rightarrow> rstr" where
  "envelope_to_json E J e = js_write J (envelope_ser E e)"

definition envelope_sign ::
  "('sk, 'vk, 'sig) prims \<Rightarrow> bs58 \<Rightarrow> signer \<Rightarrow> nonce_envelope \<Rightarrow> signed_assertion result" where
  "envelope_sign P B S e =
     bind_res (nonce_sign P B S (as_ref e)) (\<lambda>signature.
       Inr \<lparr>sa_version = ENVELOPE_VERSION, sa_type = ASSERTION_TYPE, sa_envelope = e,
            sa_device_id = sg_device_id S, sa_signature = signature\<rparr>)"

definition assertion_names :: "rstr list" where
  "assertion_names = map ascii [''envelope_version'', ''envelope_type'', ''nonce_envelope'',
     ''device_id'', ''signature'']"

definition assertion_ser :: "b64 \<Rightarrow> signed_assertion \<Rightarrow> json" where
  "assertion_ser E a = JObj (zip assertion_names
     [JPos (ucast (sa_version a)), JStr (sa_type a), envelope_ser E (sa_envelope a),
      JStr (sa_device_id a), b64_serialize E (sa_signature a)])"

definition assertion_de :: "b64 \<Rightarrow> json \<Rightarrow> signed_assertion option" where
  "assertion_de E v = do {
     es \<leftarrow> struct_entries assertion_names v;
     version \<leftarrow> the_field es (ascii ''envelope_version'') \<bind> de_u8;
     type \<leftarrow> the_field es (ascii ''envelope_type'') \<bind> as_str;
     env \<leftarrow> the_field es (ascii ''nonce_envelope'') \<bind> envelope_de E;
     device_id \<leftarrow> the_field es (ascii ''device_id'') \<bind> as_str;
     signature \<leftarrow> the_field es (ascii ''signature'') \<bind> b64_deserialize E;
     Some \<lparr>sa_version = version, sa_type = type, sa_envelope = env, sa_device_id = device_id,
       sa_signature = signature\<rparr> }"

definition assertion_to_json :: "b64 \<Rightarrow> json_codec \<Rightarrow> signed_assertion \<Rightarrow> rstr" where
  "assertion_to_json E J a = js_write J (assertion_ser E a)"

definition assertion_from_json :: "b64 \<Rightarrow> json_codec \<Rightarrow> rstr \<Rightarrow> signed_assertion result" where
  "assertion_from_json E J txt = ok_or (js_parse J txt \<bind> assertion_de E) InvalidFormat"

section \<open>What validation promises\<close>

lemma nonce_validate_Inr:
  "nonce_validate P B e = Inr u \<longleftrightarrow>
     nr_version e = 1 \<and> length (nr_nonce e) = 32 \<and> (\<exists>d. did_parse P B (nr_did e) = Inr d) \<and>
     nr_issued_at e < nr_expires_at e \<and> nr_expires_at e - nr_issued_at e \<le> 300 \<and>
     length (nr_did e) < 65536 \<and> length (nr_audience e) < 65536 \<and>
     length (nr_purpose e) < 65536 \<and> length (nr_issuer e) < 65536"
  by (auto simp: nonce_validate_def ENVELOPE_VERSION_def MAX_TTL_SECS_def result_iffs
      split: if_splits)

text \<open>The lifetime as numbers: validated envelopes never wrap.\<close>

lemma lifetime_iff:
  fixes iss ex :: u64
  shows "iss < ex \<and> ex - iss \<le> 300 \<longleftrightarrow> unat iss < unat ex \<and> unat ex - unat iss \<le> 300"
proof (cases "iss < ex")
  case True
  then have "unat (ex - iss) = unat ex - unat iss" by (intro unat_sub) simp
  with True show ?thesis by (simp add: word_less_nat_alt word_le_nat_alt)
qed (simp add: word_less_nat_alt)

lemma validated_lifetime:
  assumes "nonce_validate P B e = Inr u"
  shows "unat (nr_expires_at e) - unat (nr_issued_at e) \<in> {1..300}"
    and "unat (nr_issued_at e) < unat (nr_expires_at e)"
proof -
  from assms have lt: "nr_issued_at e < nr_expires_at e" and le: "nr_expires_at e - nr_issued_at e \<le> 300"
    by (simp_all add: nonce_validate_Inr)
  show less: "unat (nr_issued_at e) < unat (nr_expires_at e)"
    using lt by (simp add: word_less_nat_alt)
  have "unat (nr_expires_at e - nr_issued_at e) = unat (nr_expires_at e) - unat (nr_issued_at e)"
    using lt by (intro unat_sub) simp
  with le less show "unat (nr_expires_at e) - unat (nr_issued_at e) \<in> {1..300}"
    by (simp add: word_le_nat_alt)
qed

section \<open>What the signature binds\<close>

definition nonce_wf :: "nonce_ref \<Rightarrow> bool" where
  "nonce_wf e \<longleftrightarrow> list_all (\<lambda>field. length field < 65536)
     [nr_nonce e, nr_did e, nr_audience e, nr_purpose e, nr_issuer e]"

definition nonce_body :: "nonce_ref \<Rightarrow> bytes" where
  "nonce_body e =
     nr_version e # str16 (nr_nonce e) @ str16 (nr_did e) @ str16 (nr_audience e)
     @ str16 (nr_purpose e) @ u64_to_be (nr_issued_at e) @ u64_to_be (nr_expires_at e)
     @ str16 (nr_issuer e)"

lemma lp_str16: "length b < 65536 \<Longrightarrow> lp b = str16 b"
  by (simp add: lp_def str16_def len_as_u16_def)

lemma canonical_message_body: "nonce_wf e \<Longrightarrow> canonical_message e = NONCE_DOMAIN @ nonce_body e"
  by (simp add: canonical_message_def nonce_body_def nonce_wf_def lp_str16)

lemma validated_wf: "nonce_validate P B e = Inr u \<Longrightarrow> nonce_wf e"
  by (simp add: nonce_validate_Inr nonce_wf_def)

lemma nonce_body_inj:
  assumes "nonce_wf x" "nonce_wf y" "nonce_body x = nonce_body y"
  shows "x = y"
proof -
  note str16_append_inj [dest]
  have v: "nr_version x = nr_version y" using assms(3) by (simp add: nonce_body_def)
  have 1: "nr_nonce x = nr_nonce y \<and>
      str16 (nr_did x) @ str16 (nr_audience x) @ str16 (nr_purpose x) @ u64_to_be (nr_issued_at x)
        @ u64_to_be (nr_expires_at x) @ str16 (nr_issuer x) =
      str16 (nr_did y) @ str16 (nr_audience y) @ str16 (nr_purpose y) @ u64_to_be (nr_issued_at y)
        @ u64_to_be (nr_expires_at y) @ str16 (nr_issuer y)"
    using assms by (intro str16_append_inj) (auto simp: nonce_body_def nonce_wf_def)
  have 2: "nr_did x = nr_did y \<and>
      str16 (nr_audience x) @ str16 (nr_purpose x) @ u64_to_be (nr_issued_at x)
        @ u64_to_be (nr_expires_at x) @ str16 (nr_issuer x) =
      str16 (nr_audience y) @ str16 (nr_purpose y) @ u64_to_be (nr_issued_at y)
        @ u64_to_be (nr_expires_at y) @ str16 (nr_issuer y)"
    using assms 1 by (intro str16_append_inj) (auto simp: nonce_wf_def)
  have 3: "nr_audience x = nr_audience y \<and>
      str16 (nr_purpose x) @ u64_to_be (nr_issued_at x) @ u64_to_be (nr_expires_at x)
        @ str16 (nr_issuer x) =
      str16 (nr_purpose y) @ u64_to_be (nr_issued_at y) @ u64_to_be (nr_expires_at y)
        @ str16 (nr_issuer y)"
    using assms 2 by (intro str16_append_inj) (auto simp: nonce_wf_def)
  have 4: "nr_purpose x = nr_purpose y \<and>
      u64_to_be (nr_issued_at x) @ u64_to_be (nr_expires_at x) @ str16 (nr_issuer x) =
      u64_to_be (nr_issued_at y) @ u64_to_be (nr_expires_at y) @ str16 (nr_issuer y)"
    using assms 3 by (intro str16_append_inj) (auto simp: nonce_wf_def)
  then have 5: "nr_issued_at x = nr_issued_at y" "nr_expires_at x = nr_expires_at y"
    "str16 (nr_issuer x) = str16 (nr_issuer y)" by simp_all
  have "nr_issuer x = nr_issuer y"
    using str16_append_inj [of "nr_issuer x" "[]" "nr_issuer y" "[]"] 5(3) assms
    by (simp add: nonce_wf_def)
  with v 1 2 3 4 5 show ?thesis by (intro nonce_ref.equality) simp_all
qed

interpretation nonce_form: signed_form canonical_message nonce_body nonce_wf NONCE_DOMAIN
  by unfold_locales (simp_all add: canonical_message_body nonce_body_inj)

text \<open>
  The prefix is the length as a number, saturated: two big-endian bytes, \<open>u16::MAX\<close> for every
  longer text, and the text in full.
\<close>

lemma lp_bytes: "lp b = be_bytes 2 (min (length b) 65535) @ b"
proof (cases "length b \<le> 65535")
  case True
  then have "unat (of_nat (length b) :: u16) = length b"
    by (simp only: unat_of_nat) (simp add: take_bit_nat_eq_self_iff)
  with True show ?thesis by (simp add: lp_def u16_to_be_def min_absorb1)
next
  case False
  have "unat (65535 :: u16) = 65535" by simp
  with False show ?thesis by (simp add: lp_def u16_to_be_def min_absorb2)
qed

lemma lp_prefix: "from_be (take 2 (lp b)) = min (length b) 65535" and lp_text: "drop 2 (lp b) = b"
proof -
  have "min (length b) 65535 < 256 ^ 2" by (simp add: min_less_iff_disj)
  then show "from_be (take 2 (lp b)) = min (length b) 65535" "drop 2 (lp b) = b"
    by (simp_all only: lp_bytes take_append drop_append length_be_bytes from_be_be_bytes take_all drop_all
        diff_self_eq_0 take_0 drop_0 append_Nil append_Nil2 order_refl mod_less)
qed

lemma lp_long: "65535 < length b \<Longrightarrow> lp b = u16_to_be 65535 @ b"
  by (simp add: lp_def)

text \<open>
  So past \<open>u16::MAX\<close> the prefix keeps nothing apart: an audience can swallow the fields after it when
  the issuer repeats them. Only \<open>validate\<close> rules such envelopes out.
\<close>

lemma saturated_collision:
  assumes "65535 < length a"
  shows "\<exists>issuer more. more \<noteq> [] \<and>
    canonical_message (e\<lparr>nr_audience := a, nr_issuer := issuer\<rparr>) =
    canonical_message (e\<lparr>nr_audience := a @ more\<rparr>)"
proof -
  define times where "times = u64_to_be (nr_issued_at e) @ u64_to_be (nr_expires_at e)"
  define issuer where "issuer = lp (nr_purpose e) @ times @ lp (nr_issuer e)"
  obtain pre where pre: "lp issuer = pre @ issuer" by (simp add: lp_bytes)
  define more where "more = lp (nr_purpose e) @ times @ pre"
  have "length times = 16" by (simp add: times_def)
  then have "more \<noteq> []" by (auto simp: more_def)
  moreover from assms have "lp (a @ more) = lp a @ more" by (simp add: lp_long)
  then have "lp a @ lp (nr_purpose e) @ times @ lp issuer =
      lp (a @ more) @ lp (nr_purpose e) @ times @ lp (nr_issuer e)"
    by (simp only: pre) (simp only: more_def issuer_def append_assoc)
  then have "canonical_message (e\<lparr>nr_audience := a, nr_issuer := issuer\<rparr>) =
      canonical_message (e\<lparr>nr_audience := a @ more\<rparr>)"
    by (simp add: canonical_message_def times_def)
  ultimately show ?thesis by blast
qed

section \<open>Signing\<close>

lemma nonce_sign_Inr:
  "nonce_sign P B S e = Inr sg \<longleftrightarrow>
     nonce_validate P B e = Inr () \<and> sg = sg_sign_prehash S (sha256 P (canonical_message e))"
  by (auto simp: nonce_sign_def result_iffs canonical_bytes_def)

context device_signer
begin

lemma nonce_signature_verifies:
  "nonce_sign P B S e = Inr sg \<Longrightarrow> verify_prehash P pk (canonical_bytes P e) sg = Inr ()"
  by (auto simp: nonce_sign_Inr canonical_bytes_def sign_hash_verifies)

lemma assertion_verifies:
  assumes "envelope_sign P B S e = Inr a"
  shows "verify_prehash P pk (canonical_bytes P (as_ref (sa_envelope a))) (sa_signature a) = Inr ()"
    and "sa_envelope a = e" and "sa_device_id a = sg_device_id S" and "length (sa_signature a) = 64"
  using assms nonce_signature_verifies sign_length
  by (auto simp: envelope_sign_def result_iffs nonce_sign_Inr)

end

section \<open>The JSON shapes come back\<close>

lemma the_field_zip:
  "distinct ks \<Longrightarrow> length ks = length vs \<Longrightarrow> i < length ks \<Longrightarrow> the_field (zip ks vs) (ks ! i) = Some (vs ! i)"
proof (induction ks vs arbitrary: i rule: list_induct2')
  case (4 k ks v vs)
  have none: "filter (\<lambda>e. fst e = k) (zip ks vs) = []"
    using 4(2) by (auto simp: filter_empty_conv dest: set_zip_leftD)
  show ?case
  proof (cases i)
    case 0
    with none show ?thesis by (simp add: the_field_def)
  next
    case (Suc j)
    with 4 have "the_field (zip ks vs) (ks ! j) = Some (vs ! j)" "k \<noteq> ks ! j" by auto
    with Suc show ?thesis by (simp add: the_field_def)
  qed
qed simp_all

lemma envelope_de_ser:
  assumes "b64_ok E"
  shows "envelope_de E (envelope_ser E e) = Some e"
  using b64_okD(1) [OF assms]
  by (simp add: envelope_de_def envelope_ser_def struct_entries_def envelope_names_def the_field_def
      b64_serialize_def b64_deserialize_def)

lemma assertion_de_ser:
  assumes "b64_ok E"
  shows "assertion_de E (assertion_ser E a) = Some a"
  using b64_okD(1) [OF assms] envelope_de_ser [OF assms, of "sa_envelope a"]
  by (simp add: assertion_de_def assertion_ser_def struct_entries_def assertion_names_def the_field_def
      b64_serialize_def b64_deserialize_def)

definition envelope_text_wf :: "nonce_envelope \<Rightarrow> bool" where
  "envelope_text_wf e \<longleftrightarrow> list_all utf8_valid [ne_type e, ne_did e, ne_audience e, ne_purpose e, ne_issuer e]"

lemma envelope_plain:
  assumes "b64_ok E" "envelope_text_wf e"
  shows "json_plain (Suc d) (envelope_ser E e)"
  using assms(2) utf8_valid_ascii_bytes [OF b64_okD(3) [OF assms(1)]]
  by (simp add: envelope_ser_def envelope_names_def envelope_text_wf_def b64_serialize_def
      utf8_valid_ascii_text)

lemma envelope_json_roundtrip:
  assumes "codec_ok J" "b64_ok E" "envelope_text_wf e"
  shows "envelope_from_json P B E J (envelope_to_json E J e) =
    bind_res (envelope_validate P B e) (\<lambda>_. Inr e)"
  using codec_okD [OF assms(1)] envelope_plain [OF assms(2,3), of 126] envelope_de_ser [OF assms(2)]
  by (simp add: envelope_from_json_def envelope_to_json_def)

lemma assertion_json_roundtrip:
  assumes "codec_ok J" "b64_ok E" "envelope_text_wf (sa_envelope a)"
    "utf8_valid (sa_type a)" "utf8_valid (sa_device_id a)"
  shows "assertion_from_json E J (assertion_to_json E J a) = Inr a"
proof -
  have "json_plain JSON_DEPTH (assertion_ser E a)"
  proof -
    have "json_plain JSON_DEPTH (assertion_ser E a)"
      using envelope_plain [OF assms(2,3), of 125] assms(4,5)
        utf8_valid_ascii_bytes [OF b64_okD(3) [OF assms(2)]]
      by (simp add: assertion_ser_def assertion_names_def b64_serialize_def utf8_valid_ascii_text)
    then show ?thesis by simp
  qed
  with codec_okD [OF assms(1)] assertion_de_ser [OF assms(2)] show ?thesis
    by (simp add: assertion_from_json_def assertion_to_json_def)
qed

end
