(* ===== verification/Setup.thy ===== *)
theory Setup
  imports Envelope Kv
begin

text \<open>
  \<open>crates/rusty_esp_mid-core/src/setup.rs\<close>: the signature over a setup session's Reply and the
  two records the session keeps in the settings store.
\<close>

section \<open>The Reply signature\<close>

definition REPLY_DOMAIN :: bytes where "REPLY_DOMAIN = ascii ''janus-setup-v1/reply'' @ [0x0A]"
abbreviation SHARE_LEN :: nat where "SHARE_LEN \<equiv> 65"
abbreviation CONFIRM_LEN :: nat where "CONFIRM_LEN \<equiv> 32"
definition KV_SETUP_VERIFIER :: bytes where "KV_SETUP_VERIFIER = ascii ''setup.v''"
abbreviation SETUP_VERIFIER_LEN :: nat where "SETUP_VERIFIER_LEN \<equiv> 118"
definition KV_SETUP_FAILURES :: bytes where "KV_SETUP_FAILURES = ascii ''setup.fail''"

definition reply_prehash ::
  "('sk, 'vk, 'sig) prims \<Rightarrow> bytes \<Rightarrow> bytes \<Rightarrow> bytes \<Rightarrow> bytes \<Rightarrow> bytes result" where
  "reply_prehash P ctx share_p share_v confirm_v =
     (if length ctx > 65535 then Inl InvalidFormat
      else Inr (sha256 P
        (REPLY_DOMAIN @ u16_to_be (of_nat (length ctx)) @ ctx @ share_p @ share_v @ confirm_v)))"

definition sign_reply :: "signer \<Rightarrow> bytes \<Rightarrow> bytes" where
  "sign_reply S prehash = sg_sign_prehash S prehash"

definition verify_reply ::
  "('sk, 'vk, 'sig) prims \<Rightarrow> bytes \<Rightarrow> bytes \<Rightarrow> bytes \<Rightarrow> unit result" where
  "verify_reply P device_pubkey prehash signature = verify_prehash P device_pubkey prehash signature"

section \<open>The stored records\<close>

definition load_verifier :: "'s kv \<Rightarrow> 's \<Rightarrow> bytes option result" where
  "load_verifier K s =
     (case kv_get K s KV_SETUP_VERIFIER SETUP_VERIFIER_LEN of
        Inr None \<Rightarrow> Inr None
      | Inr (Some v) \<Rightarrow> if length v = SETUP_VERIFIER_LEN then Inr (Some v) else Inl Corrupt
      | Inl (BufferTooSmall _) \<Rightarrow> Inl Corrupt
      | Inl e \<Rightarrow> Inl e)"

definition store_verifier :: "'s kv \<Rightarrow> 's \<Rightarrow> bytes \<Rightarrow> unit result \<times> 's" where
  "store_verifier K s verifier = kv_put K s KV_SETUP_VERIFIER verifier"

definition load_failures :: "'s kv \<Rightarrow> 's \<Rightarrow> u8 result" where
  "load_failures K s =
     (case kv_get K s KV_SETUP_FAILURES 1 of
        Inr None \<Rightarrow> Inr 0
      | Inr (Some [b]) \<Rightarrow> Inr b
      | Inr (Some _) \<Rightarrow> Inl Corrupt
      | Inl (BufferTooSmall _) \<Rightarrow> Inl Corrupt
      | Inl e \<Rightarrow> Inl e)"

definition store_failures :: "'s kv \<Rightarrow> 's \<Rightarrow> u8 \<Rightarrow> unit result \<times> 's" where
  "store_failures K s count = kv_put K s KV_SETUP_FAILURES [count]"

section \<open>What the signature binds\<close>

text \<open>A Reply: the context, the two shares and the confirmation.\<close>

type_synonym reply = "bytes \<times> bytes \<times> bytes \<times> bytes"

definition reply_wf :: "reply \<Rightarrow> bool" where
  "reply_wf = (\<lambda>(ctx, p, v, c).
     length ctx < 65536 \<and> length p = SHARE_LEN \<and> length v = SHARE_LEN \<and> length c = CONFIRM_LEN)"

definition reply_body :: "reply \<Rightarrow> bytes" where
  "reply_body = (\<lambda>(ctx, p, v, c). str16 ctx @ p @ v @ c)"

definition reply_message :: "reply \<Rightarrow> bytes" where
  "reply_message r = REPLY_DOMAIN @ reply_body r"

lemma reply_prehash_message:
  "length ctx < 65536 \<Longrightarrow>
     reply_prehash P ctx p v c = Inr (sha256 P (reply_message (ctx, p, v, c)))"
  by (simp add: reply_prehash_def reply_message_def reply_body_def str16_def len_as_u16_def)

lemma reply_prehash_Inr:
  "reply_prehash P ctx p v c = Inr h \<longleftrightarrow>
     length ctx < 65536 \<and> h = sha256 P (reply_message (ctx, p, v, c))"
  using reply_prehash_message [of ctx P p v c]
  by (cases "length ctx < 65536") (auto simp: reply_prehash_def)

interpretation reply_form: signed_form reply_message reply_body reply_wf REPLY_DOMAIN
proof
  fix x y :: reply
  assume wf: "reply_wf x" "reply_wf y" and eq: "reply_body x = reply_body y"
  obtain c p v k where x: "x = (c, p, v, k)" by (cases x)
  obtain c' p' v' k' where y: "y = (c', p', v', k')" by (cases y)
  from eq wf have "c = c' \<and> p @ v @ k = p' @ v' @ k'"
    by (intro str16_append_inj) (auto simp: x y reply_body_def reply_wf_def)
  with wf show "x = y" by (auto simp: x y reply_wf_def)
qed (simp add: reply_message_def)

section \<open>The records come back\<close>

context kv_store
begin

lemma load_verifier_value:
  assumes "inv s" "load_verifier K s = Inr r"
  shows "r = contents s KV_SETUP_VERIFIER \<and> (\<forall>v. r = Some v \<longrightarrow> length v = SETUP_VERIFIER_LEN)"
proof (cases "kv_get K s KV_SETUP_VERIFIER SETUP_VERIFIER_LEN")
  case (Inl e)
  with assms(2) show ?thesis by (cases e) (simp_all add: load_verifier_def)
next
  case (Inr got)
  with get_value [OF assms(1) Inr] assms(2) show ?thesis
    by (auto simp: load_verifier_def split: option.splits if_splits)
qed

lemma load_failures_value:
  assumes "inv s" "load_failures K s = Inr n"
  shows "contents s KV_SETUP_FAILURES = Some [n] \<or> contents s KV_SETUP_FAILURES = None \<and> n = 0"
proof (cases "kv_get K s KV_SETUP_FAILURES 1")
  case (Inl e)
  with assms(2) show ?thesis by (cases e) (simp_all add: load_failures_def)
next
  case (Inr got)
  with get_value [OF assms(1) Inr] assms(2) show ?thesis
    by (auto simp: load_failures_def split: option.splits list.splits)
qed

end

context kv_reliable
begin

text \<open>A record of the wrong length is \<open>Corrupt\<close>, shorter or longer: the session fails closed.\<close>

lemma load_verifier_exact:
  "inv s \<Longrightarrow> load_verifier K s =
     (case contents s KV_SETUP_VERIFIER of
        None \<Rightarrow> Inr None
      | Some v \<Rightarrow> if length v = SETUP_VERIFIER_LEN then Inr (Some v) else Inl Corrupt)"
  by (auto simp: load_verifier_def get_works split: option.splits)

lemma load_failures_exact:
  "inv s \<Longrightarrow> load_failures K s =
     (case contents s KV_SETUP_FAILURES of
        None \<Rightarrow> Inr 0 | Some [n] \<Rightarrow> Inr n | Some _ \<Rightarrow> Inl Corrupt)"
  by (auto simp: load_failures_def get_works split: option.splits list.splits)

lemma failures_stored:
  assumes "inv s" "storable [n]"
  obtains s' where "store_failures K s n = (Inr (), s')" "inv s'" "load_failures K s' = Inr n"
proof (rule put_runs [OF assms, of KV_SETUP_FAILURES])
  fix s'
  assume "kv_put K s KV_SETUP_FAILURES [n] = (Inr (), s')" "inv s'"
    "contents s' = (contents s)(KV_SETUP_FAILURES \<mapsto> [n])"
  moreover from this have "load_failures K s' = Inr n"
    using load_failures_exact [of s'] by simp
  ultimately show thesis by (intro that) (simp_all add: store_failures_def)
qed

lemma verifier_stored:
  assumes "inv s" "storable v" "length v = SETUP_VERIFIER_LEN"
  obtains s' where "store_verifier K s v = (Inr (), s')" "inv s'" "load_verifier K s' = Inr (Some v)"
proof (rule put_runs [OF assms(1,2), of KV_SETUP_VERIFIER])
  fix s'
  assume "kv_put K s KV_SETUP_VERIFIER v = (Inr (), s')" "inv s'"
    "contents s' = (contents s)(KV_SETUP_VERIFIER \<mapsto> v)"
  moreover from this assms(3) have "load_verifier K s' = Inr (Some v)"
    using load_verifier_exact [of s'] by simp
  ultimately show thesis by (intro that) (simp_all add: store_verifier_def)
qed

end

context device_signer
begin

lemma reply_signature_verifies:
  "reply_prehash P ctx p v c = Inr h \<Longrightarrow> verify_reply P pk h (sign_reply S h) = Inr ()"
  by (auto simp: verify_reply_def sign_reply_def reply_prehash_Inr sign_hash_verifies)

end

end
