(* ===== verification/Manifest.thy ===== *)
theory Manifest
  imports Key_Correct Envelope
begin

text \<open>
  \<open>crates/rusty_esp_mid-core/src/manifest.rs\<close>: signing the capability manifest and the maker's
  attestation. \<open>Manifest::encode\<close> is \<open>rusty_esp_core\<close>'s: a parameter \<open>enc\<close>, from the manifest
  and the caller's buffer to the length written (or the error) and the buffer after the call.
\<close>

section \<open>The model\<close>

definition MANIFEST_DOMAIN :: bytes where "MANIFEST_DOMAIN = ascii ''janus-manifest-v1'' @ [0x0A]"
definition MAKER_DOMAIN :: bytes where "MAKER_DOMAIN = ascii ''janus-maker-v1'' @ [0x0A]"

definition domain_prehash :: "('sk, 'vk, 'sig) prims \<Rightarrow> bytes \<Rightarrow> bytes \<Rightarrow> bytes" where
  "domain_prehash P sep bs = sha256 P (sep @ bs)"

definition sign_manifest_bytes :: "('sk, 'vk, 'sig) prims \<Rightarrow> bytes \<Rightarrow> signer \<Rightarrow> bytes" where
  "sign_manifest_bytes P manifest_bytes S =
     sg_sign_prehash S (domain_prehash P MANIFEST_DOMAIN manifest_bytes)"

type_synonym 'm encoder = "'m \<Rightarrow> bytes \<Rightarrow> nat result \<times> bytes"

text \<open>\<open>&out[..n]\<close> panics when \<open>n\<close> is past the buffer.\<close>

definition sign_manifest ::
  "('sk, 'vk, 'sig) prims \<Rightarrow> 'm encoder \<Rightarrow> 'm \<Rightarrow> signer \<Rightarrow> bytes \<Rightarrow> (nat \<times> bytes) result \<times> bytes"
where
  "sign_manifest P enc manifest S out =
     (case enc manifest out of
        (Inl e, out) \<Rightarrow> (Inl e, out)
      | (Inr n, out) \<Rightarrow>
          if n > length out then (Inl Panic, out)
          else (Inr (n, sign_manifest_bytes P (take n out) S), out))"

definition sign_manifest_cached ::
  "('sk, 'vk, 'sig) prims \<Rightarrow> 'm encoder \<Rightarrow> 's kv \<Rightarrow> 's \<Rightarrow> 'm \<Rightarrow> ('sk, 'vk) device_key \<Rightarrow> bytes \<Rightarrow> bytes
     \<Rightarrow> (nat \<times> bytes) result \<times> bytes \<times> 's"
where
  "sign_manifest_cached P enc K s manifest key name out =
     (case enc manifest out of
        (Inl e, out) \<Rightarrow> (Inl e, out, s)
      | (Inr n, out) \<Rightarrow>
          if n > length out then (Inl Panic, out, s)
          else
            (case sign_prehash_cached P K s key name (domain_prehash P MANIFEST_DOMAIN (take n out)) of
               (sig, s) \<Rightarrow> (Inr (n, sig), out, s)))"

definition verify_manifest ::
  "('sk, 'vk, 'sig) prims \<Rightarrow> bytes \<Rightarrow> bytes \<Rightarrow> bytes \<Rightarrow> unit result" where
  "verify_manifest P manifest_bytes signature device_pubkey =
     verify_prehash P device_pubkey (domain_prehash P MANIFEST_DOMAIN manifest_bytes) signature"

text \<open>\<open>model.len() as u16\<close> keeps the low 16 bits of the length.\<close>

definition maker_prehash :: "('sk, 'vk, 'sig) prims \<Rightarrow> rstr \<Rightarrow> rstr \<Rightarrow> bytes" where
  "maker_prehash P model firmware =
     sha256 P (MAKER_DOMAIN @ u16_to_be (len_as_u16 model) @ model
       @ u16_to_be (len_as_u16 firmware) @ firmware)"

definition verify_maker ::
  "('sk, 'vk, 'sig) prims \<Rightarrow> rstr \<Rightarrow> rstr \<Rightarrow> bytes \<Rightarrow> bytes \<Rightarrow> unit result" where
  "verify_maker P model firmware signature maker_pubkey =
     verify_prehash P maker_pubkey (maker_prehash P model firmware) signature"

section \<open>Manifest signatures\<close>

definition manifest_message :: "bytes \<Rightarrow> bytes" where
  "manifest_message m = MANIFEST_DOMAIN @ m"

interpretation manifest_form: signed_form manifest_message "\<lambda>m. m" "\<lambda>_. True" MANIFEST_DOMAIN
  by unfold_locales (simp_all add: manifest_message_def)

definition encoder_ok :: "'m encoder \<Rightarrow> bool" where
  "encoder_ok enc \<longleftrightarrow> (\<forall>m out n out'. enc m out = (Inr n, out') \<longrightarrow> n \<le> length out')"

lemma sign_manifest_Inr:
  "sign_manifest P enc m S out = (Inr (n, sg), out') \<longleftrightarrow>
     enc m out = (Inr n, out') \<and> n \<le> length out' \<and> sg = sign_manifest_bytes P (take n out') S"
  by (auto simp: sign_manifest_def split: prod.splits sum.splits if_splits)

context device_signer
begin

lemma manifest_signature_verifies:
  "verify_manifest P m (sign_manifest_bytes P m S) pk = Inr ()"
  by (simp add: verify_manifest_def sign_manifest_bytes_def domain_prehash_def sign_hash_verifies)

lemma sign_manifest_verifies:
  "sign_manifest P enc m S out = (Inr (n, sg), out') \<Longrightarrow> verify_manifest P (take n out') sg pk = Inr ()"
  by (auto simp: sign_manifest_Inr manifest_signature_verifies)

end

text \<open>Remembering the signature changes nothing but the store.\<close>

context kv_store
begin

lemma sign_manifest_cached_correct:
  assumes P: "prims_ok P" and s: "inv s" and honest: "sig_honest P key (contents s name)"
    and st: "\<And>v. length v = 128 \<Longrightarrow> storable v"
  shows "case sign_manifest_cached P enc K s m key name out of (r, out', s') \<Rightarrow>
    (r, out') = sign_manifest P enc m (key_signer P key) out \<and>
    inv s' \<and> sig_honest P key (contents s' name) \<and> (\<forall>j. j \<noteq> name \<longrightarrow> contents s' j = contents s j)"
proof (cases "enc m out")
  case (Pair res out')
  show ?thesis
  proof (cases res)
    case (Inl e)
    with Pair s honest show ?thesis by (simp add: sign_manifest_cached_def sign_manifest_def)
  next
    case (Inr n)
    let ?h = "domain_prehash P MANIFEST_DOMAIN (take n out')"
    have "length ?h = 32" by (simp add: domain_prehash_def prims_okD(1) [OF P])
    note run = sign_prehash_cached_correct [OF P s this honest st]
    show ?thesis
      using Pair Inr s honest run
      by (cases "sign_prehash_cached P K s key name ?h")
        (auto simp: sign_manifest_cached_def sign_manifest_def sign_manifest_bytes_def key_signer_def)
  qed
qed

end

section \<open>Maker attestations\<close>

definition maker_wf :: "rstr \<times> rstr \<Rightarrow> bool" where
  "maker_wf = (\<lambda>(model, firmware). length model < 65536 \<and> length firmware < 65536)"

definition maker_body :: "rstr \<times> rstr \<Rightarrow> bytes" where
  "maker_body = (\<lambda>(model, firmware). str16 model @ str16 firmware)"

definition maker_message :: "rstr \<times> rstr \<Rightarrow> bytes" where
  "maker_message mf = MAKER_DOMAIN @ maker_body mf"

lemma maker_prehash_message: "maker_prehash P model firmware = sha256 P (maker_message (model, firmware))"
  by (simp add: maker_prehash_def maker_message_def maker_body_def str16_def)

lemma maker_body_inj:
  assumes "maker_wf x" "maker_wf y" "maker_body x = maker_body y"
  shows "x = y"
proof -
  obtain a b where x: "x = (a, b)" by (cases x)
  obtain c d where y: "y = (c, d)" by (cases y)
  have "a = c \<and> str16 b = str16 d"
    using assms by (intro str16_append_inj) (auto simp: x y maker_body_def maker_wf_def)
  with assms str16_append_inj [of b "[]" d "[]"] show ?thesis by (simp add: x y maker_wf_def)
qed

interpretation maker_form: signed_form maker_message maker_body maker_wf MAKER_DOMAIN
  by unfold_locales (simp_all add: maker_message_def maker_body_inj)

lemma maker_signature_verifies:
  assumes "device_signer P S pk"
  shows "verify_maker P model firmware (sg_sign_prehash S (maker_prehash P model firmware)) pk = Inr ()"
  using device_signer.sign_hash_verifies [OF assms]
  by (simp add: verify_maker_def maker_prehash_message)

text \<open>
  The lengths are cast, not checked: 65,536 bytes of model and no firmware sign as no model and
  65,536 bytes of firmware.
\<close>

lemma maker_prehash_wraps:
  "maker_prehash P (replicate 65536 0) [] = maker_prehash P [] (replicate 65536 0)"
proof -
  have z: "u16_to_be 0 = replicate 2 0" by code_simp
  have w: "len_as_u16 (replicate 65536 0) = 0" by (simp add: len_as_u16_def)
  have "replicate 65536 (0 :: u8) @ replicate 2 0 = replicate 2 0 @ replicate 65536 0"
    by (simp flip: replicate_add)
  then show ?thesis by (simp add: maker_prehash_def w z) (simp add: len_as_u16_def z)
qed

end
