(* ===== verification/Token.thy ===== *)
theory Token
  imports Did Jws
begin

text \<open>
  \<open>crates/rusty_esp_mid-core/src/roster.rs\<close> and \<open>token.rs\<close>: the one-entry genesis roster a
  device signs with its own key, and the self-issued token that embeds it. The types of
  \<open>mid_types\<close> appear with the fields the sources set; its canonical form of a roster
  (\<open>canon\<close>) and the serialization of a payload (\<open>to_vec\<close>) are parameters.
\<close>

section \<open>The genesis roster\<close>

definition VM_TYPE_ECDSA_P256 :: rstr where
  "VM_TYPE_ECDSA_P256 = ascii ''EcdsaSecp256r1VerificationKey2019''"

record verification_method =
  vm_id :: rstr
  vm_type :: rstr
  vm_controller :: rstr
  vm_public_key_multibase :: rstr

record genesis_roster =
  gr_version :: u64
  gr_did :: rstr
  gr_methods :: "verification_method list"
  gr_signed_at :: u64
  gr_self_signed :: rstr

definition make_verification_method :: "bs58 \<Rightarrow> did \<Rightarrow> rstr \<Rightarrow> verification_method result" where
  "make_verification_method B d device_id =
     bind_res (to_did_string B d) (\<lambda>did_s.
     bind_res (to_multibase_string B d) (\<lambda>mb.
       Inr \<lparr>vm_id = did_s @ ascii ''#'' @ device_id, vm_type = VM_TYPE_ECDSA_P256,
            vm_controller = did_s, vm_public_key_multibase = mb\<rparr>))"

definition sign_genesis_roster ::
  "('sk, 'vk, 'sig) prims \<Rightarrow> bs58 \<Rightarrow> b64 \<Rightarrow> (genesis_roster \<Rightarrow> bytes) \<Rightarrow> did \<Rightarrow> signer \<Rightarrow> u64
     \<Rightarrow> genesis_roster result"
where
  "sign_genesis_roster P B E canon d S signed_at =
     bind_res (to_did_string B d) (\<lambda>did_s.
     bind_res (make_verification_method B d (sg_device_id S)) (\<lambda>vm.
       let genesis = \<lparr>gr_version = 1, gr_did = did_s, gr_methods = [vm], gr_signed_at = signed_at,
             gr_self_signed = []\<rparr>;
           prehash = sha256 P (canon genesis) in
       Inr (genesis\<lparr>gr_self_signed := b64_encode E (sg_sign_prehash S prehash)\<rparr>)))"

section \<open>The token\<close>

datatype attested_by = SelfAttested

record 'o claim_value =
  cv_value :: json
  cv_attested_by :: attested_by
  cv_verified_at_signup :: "'o option"
  cv_computed_at :: "'o option"
  cv_formula_version :: "'o option"

definition self_attested :: "rstr \<Rightarrow> 'o claim_value" where
  "self_attested s = \<lparr>cv_value = JStr s, cv_attested_by = SelfAttested, cv_verified_at_signup = None,
     cv_computed_at = None, cv_formula_version = None\<rparr>"

record embedded_vm =
  ev_id :: rstr
  ev_type :: rstr
  ev_controller :: rstr
  ev_public_key_multibase :: rstr

definition embedded_vm_of :: "verification_method \<Rightarrow> embedded_vm" where
  "embedded_vm_of vm = \<lparr>ev_id = vm_id vm, ev_type = vm_type vm, ev_controller = vm_controller vm,
     ev_public_key_multibase = vm_public_key_multibase vm\<rparr>"

record sign_in_request =
  rq_audience :: rstr
  rq_nonce :: rstr

record 'o jwt_payload =
  jp_iss :: rstr
  jp_sub :: rstr
  jp_aud :: rstr
  jp_iat :: u64
  jp_exp :: u64
  jp_nonce :: rstr
  jp_claims :: "(rstr \<times> 'o claim_value) list"
  jp_genesis :: genesis_roster
  jp_chain :: "unit list"
  jp_vm :: embedded_vm

text \<open>\<open>u64::saturating_sub\<close> and \<open>saturating_add\<close>.\<close>

definition sat_sub64 :: "u64 \<Rightarrow> u64 \<Rightarrow> u64" where
  "sat_sub64 a b = (if b \<le> a then a - b else 0)"

definition sat_add64 :: "u64 \<Rightarrow> u64 \<Rightarrow> u64" where
  "sat_add64 a b = (if unat a + unat b < 2 ^ 64 then a + b else - 1)"

definition build_self_issued_token ::
  "('sk, 'vk, 'sig) prims \<Rightarrow> bs58 \<Rightarrow> b64 \<Rightarrow> (genesis_roster \<Rightarrow> bytes) \<Rightarrow> ('o jwt_payload \<Rightarrow> bytes option)
     \<Rightarrow> did \<Rightarrow> signer \<Rightarrow> sign_in_request \<Rightarrow> u64 \<Rightarrow> u64 \<Rightarrow> (rstr \<times> 'o claim_value) list \<Rightarrow> rstr result"
where
  "build_self_issued_token P B E canon to_vec d S request iat ttl_secs claims =
     (if rq_audience request = [] \<or> rq_nonce request = [] \<or> ttl_secs = 0 then Inl InvalidFormat
      else
        bind_res (sign_genesis_roster P B E canon d S (max (sat_sub64 iat 1) 1)) (\<lambda>genesis.
        bind_res (ok_or (case gr_methods genesis of [] \<Rightarrow> None | vm # _ \<Rightarrow> Some vm) Corrupt) (\<lambda>vm.
        bind_res (to_did_string B d) (\<lambda>did_s.
        let payload = \<lparr>jp_iss = did_s, jp_sub = did_s, jp_aud = rq_audience request, jp_iat = iat,
              jp_exp = sat_add64 iat ttl_secs, jp_nonce = rq_nonce request, jp_claims = claims,
              jp_genesis = genesis, jp_chain = [], jp_vm = embedded_vm_of vm\<rparr> in
        bind_res (ok_or (to_vec payload) InvalidFormat) (\<lambda>json.
          Inr (build_jws_compact P E json S))))))"

section \<open>The roster is self-certifying\<close>

text \<open>What the self signature does not cover, and the code relies on not being covered: itself.\<close>

definition canon_ok :: "(genesis_roster \<Rightarrow> bytes) \<Rightarrow> bool" where
  "canon_ok canon \<longleftrightarrow> (\<forall>g x. canon (g\<lparr>gr_self_signed := x\<rparr>) = canon g)"

lemma to_did_string_runs:
  assumes "bs58_ok B" "valid_did P d"
  obtains s mb where "to_did_string B d = Inr s" "did_parse P B s = Inr d"
    "to_multibase_string B d = Inr mb" "parse_multibase P B mb = Inr d"
  using assms by (rule to_did_string_valid) (blast intro: parse_strings)

lemma canon_okD:
  "canon_ok canon \<Longrightarrow>
     canon \<lparr>gr_version = v, gr_did = d, gr_methods = ms, gr_signed_at = t, gr_self_signed = x\<rparr> =
     canon \<lparr>gr_version = v, gr_did = d, gr_methods = ms, gr_signed_at = t, gr_self_signed = []\<rparr>"
  unfolding canon_ok_def by (metis genesis_roster.update_convs(5))

context device_signer
begin

lemma genesis_self_signed:
  assumes "b64_ok E" "canon_ok canon" "sign_genesis_roster P B E canon d S at = Inr g"
  shows "\<exists>sig. b64_decode E (gr_self_signed g) = Some sig \<and>
    verify_prehash P pk (sha256 P (canon g)) sig = Inr ()"
  using assms(3) b64_okD(1) [OF assms(1)] sign_hash_verifies
  by (auto simp: sign_genesis_roster_def Let_def result_iffs
      canon_okD [OF assms(2), where x = "b64_encode E b" for b])

end

lemma sign_genesis_roster_runs:
  assumes "bs58_ok B" "valid_did P d"
  obtains s vm sig where "to_did_string B d = Inr s" "did_parse P B s = Inr d"
    "sign_genesis_roster P B E canon d S at = Inr \<lparr>gr_version = 1, gr_did = s, gr_methods = [vm],
       gr_signed_at = at, gr_self_signed = sig\<rparr>"
    "vm_controller vm = s" "vm_id vm = s @ ascii ''#'' @ sg_device_id S"
    "parse_multibase P B (vm_public_key_multibase vm) = Inr d"
  using assms
  by (rule to_did_string_runs)
    (simp add: sign_genesis_roster_def make_verification_method_def Let_def that)

section \<open>The token's window\<close>

lemma unat_sat_add64: "unat (sat_add64 a b) = min (unat a + unat b) (2 ^ 64 - 1)"
proof (cases "unat a + unat b < 2 ^ 64")
  case True
  then show ?thesis by (simp add: sat_add64_def unat_word_ariths(1))
next
  case False
  have "unat (- 1 :: u64) = 2 ^ 64 - 1" by (simp add: unsigned_minus_1_eq_mask mask_eq_exp_minus_1)
  with False show ?thesis by (simp add: sat_add64_def)
qed

lemma unat_genesis_time: "unat (max (sat_sub64 iat 1) 1) = max (unat iat - 1) 1"
proof -
  have "unat (sat_sub64 iat 1) = unat iat - 1"
    by (cases "iat = 0") (simp_all add: sat_sub64_def unat_minus_one word_le_nat_alt
        unat_gt_0 Suc_le_eq)
  then show ?thesis by (simp add: max_def word_le_nat_alt)
qed

section \<open>The token\<close>

lemma build_token_error:
  "rq_audience request = [] \<or> rq_nonce request = [] \<or> ttl_secs = 0 \<Longrightarrow>
     build_self_issued_token P B E canon to_vec d S request iat ttl_secs claims = Inl InvalidFormat"
  by (simp add: build_self_issued_token_def)

lemma build_token_Inr:
  assumes "bs58_ok B" "valid_did P d"
    and "build_self_issued_token P B E canon to_vec d S request iat ttl_secs claims = Inr t"
  obtains payload json vm where "to_vec payload = Some json" "t = build_jws_compact P E json S"
    "did_parse P B (jp_iss payload) = Inr d" "jp_sub payload = jp_iss payload"
    "jp_aud payload = rq_audience request" "jp_nonce payload = rq_nonce request"
    "jp_aud payload \<noteq> []" "jp_nonce payload \<noteq> []"
    "jp_iat payload = iat" "unat (jp_exp payload) = min (unat iat + unat ttl_secs) (2 ^ 64 - 1)"
    "sign_genesis_roster P B E canon d S (max (sat_sub64 iat 1) 1) = Inr (jp_genesis payload)"
    "gr_did (jp_genesis payload) = jp_iss payload"
    "gr_methods (jp_genesis payload) = [vm]" "jp_vm payload = embedded_vm_of vm" "vm_controller vm = jp_iss payload"
    "parse_multibase P B (vm_public_key_multibase vm) = Inr d"
    "unat (gr_signed_at (jp_genesis payload)) = max (unat iat - 1) 1"
    "jp_chain payload = []" "jp_claims payload = claims" "ttl_secs \<noteq> 0"
proof -
  from assms(1,2) show thesis
  proof (rule sign_genesis_roster_runs [where E = E and canon = canon and S = S
        and at = "max (sat_sub64 iat 1) 1"])
    fix s vm sig
    assume s: "to_did_string B d = Inr s" "did_parse P B s = Inr d"
      and g: "sign_genesis_roster P B E canon d S (max (sat_sub64 iat 1) 1) =
        Inr \<lparr>gr_version = 1, gr_did = s, gr_methods = [vm],
          gr_signed_at = max (sat_sub64 iat 1) 1, gr_self_signed = sig\<rparr>"
      and vm: "vm_controller vm = s" "parse_multibase P B (vm_public_key_multibase vm) = Inr d"
    from assms(3) show thesis
      by (auto simp: build_self_issued_token_def Let_def s g vm bind_res_eq_Inr unat_sat_add64 unat_genesis_time
          split: if_splits intro!: that)
  qed
qed

end
