(* ===== verification/Claims.thy ===== *)
theory Claims
  imports Adoption_Wire Setup Kms Status Manifest Jws
begin

text \<open>
  The six forms the library signs or verifies under a separator of their own, as one form: a
  claim of any kind, its message, and the well-formedness its source checks. A hash stands for
  at most one claim of at most one kind, and what a compact JWS signs is none of them.
\<close>

section \<open>An adoption as it is read off the wire\<close>

definition adoption_wf :: "adoption_fields \<Rightarrow> bool" where
  "adoption_wf f \<longleftrightarrow> fields_wf f \<and> validate f = Inr () \<and> wire_view f = f"

definition adoption_body :: "adoption_fields \<Rightarrow> bytes" where
  "adoption_body f = drop (length ADOPTION_DOMAIN) (canonical f)"

lemma canonical_domain: "canonical f = ADOPTION_DOMAIN @ adoption_body f"
  by (simp add: adoption_body_def canonical_def)

interpretation adoption_form: signed_form canonical adoption_body adoption_wf ADOPTION_DOMAIN
proof
  fix f g
  assume "adoption_wf f" "adoption_wf g" "adoption_body f = adoption_body g"
  then have "wire_view f = wire_view g" "wire_view f = f" "wire_view g = g"
    using canonical_inj [of f g] by (simp_all add: adoption_wf_def canonical_domain)
  then show "f = g" by simp
qed (rule canonical_domain)

section \<open>A claim of any kind\<close>

datatype claim =
    AdoptionClaim adoption_fields
  | NonceClaim nonce_ref
  | StatusClaim status_proof
  | ReplyClaim reply
  | ManifestClaim bytes
  | MakerClaim "rstr \<times> rstr"

fun claim_message :: "claim \<Rightarrow> bytes" where
  "claim_message (AdoptionClaim f) = canonical f"
| "claim_message (NonceClaim e) = canonical_message e"
| "claim_message (StatusClaim p) = status_message p"
| "claim_message (ReplyClaim r) = reply_message r"
| "claim_message (ManifestClaim m) = manifest_message m"
| "claim_message (MakerClaim mf) = maker_message mf"

fun claim_domain :: "claim \<Rightarrow> bytes" where
  "claim_domain (AdoptionClaim f) = ADOPTION_DOMAIN"
| "claim_domain (NonceClaim e) = NONCE_DOMAIN"
| "claim_domain (StatusClaim p) = STATUS_DOMAIN"
| "claim_domain (ReplyClaim r) = REPLY_DOMAIN"
| "claim_domain (ManifestClaim m) = MANIFEST_DOMAIN"
| "claim_domain (MakerClaim mf) = MAKER_DOMAIN"

fun claim_wf :: "claim \<Rightarrow> bool" where
  "claim_wf (AdoptionClaim f) = adoption_wf f"
| "claim_wf (NonceClaim e) = nonce_wf e"
| "claim_wf (StatusClaim p) = status_wf p"
| "claim_wf (ReplyClaim r) = reply_wf r"
| "claim_wf (ManifestClaim m) = True"
| "claim_wf (MakerClaim mf) = maker_wf mf"

lemma claim_starts: "claim_wf x \<Longrightarrow> starts_with (claim_message x) (claim_domain x)"
  using adoption_form.message_starts nonce_form.message_starts status_form.message_starts
    reply_form.message_starts manifest_form.message_starts maker_form.message_starts
  by (cases x) simp_all

definition DOMAINS :: "bytes list" where
  "DOMAINS = [ADOPTION_DOMAIN, NONCE_DOMAIN, STATUS_DOMAIN, REPLY_DOMAIN, MANIFEST_DOMAIN, MAKER_DOMAIN]"

lemma domains_separate: "list_all (\<lambda>a. list_all (\<lambda>b. a = b \<or> separate a b) DOMAINS) DOMAINS"
  by code_simp

lemma claim_domain_in: "claim_domain x \<in> set DOMAINS"
  by (cases x) (simp_all add: DOMAINS_def)

lemma claim_domains_apart: "claim_domain x \<noteq> claim_domain y \<Longrightarrow> separate (claim_domain x) (claim_domain y)"
  using domains_separate claim_domain_in [of x] claim_domain_in [of y] unfolding list_all_iff by blast

lemma domains_distinct: "distinct DOMAINS"
  by code_simp

lemmas domains_apart = domains_distinct [unfolded DOMAINS_def, simplified]

lemma claim_message_inj:
  assumes "claim_wf x" "claim_wf y" "claim_message x = claim_message y"
  shows "x = y"
proof -
  have "claim_domain x = claim_domain y"
    using separate_messages [OF claim_starts [OF assms(1)] claim_starts [OF assms(2)]]
      claim_domains_apart [of x y] assms(3) by blast
  then have "\<exists>f g. x = AdoptionClaim f \<and> y = AdoptionClaim g \<or> (\<exists>f g. x = NonceClaim f \<and> y = NonceClaim g) \<or>
      (\<exists>f g. x = StatusClaim f \<and> y = StatusClaim g) \<or> (\<exists>f g. x = ReplyClaim f \<and> y = ReplyClaim g) \<or>
      (\<exists>f g. x = ManifestClaim f \<and> y = ManifestClaim g) \<or> (\<exists>f g. x = MakerClaim f \<and> y = MakerClaim g)"
    using domains_apart by (cases x; cases y) (simp_all del: split_paired_Ex)
  with assms show ?thesis
    by (elim exE disjE conjE; simp only: claim_wf.simps claim_message.simps claim.inject)
      (blast intro: adoption_form.message_inj nonce_form.message_inj status_form.message_inj
        reply_form.message_inj manifest_form.message_inj [OF TrueI TrueI] maker_form.message_inj)+
qed

text \<open>A compact JWS has no domain, and needs none: every domain ends in a line feed, and what is
  signed of a JWS holds none.\<close>

lemma domains_end_line: "list_all (\<lambda>d. last d = 0x0A \<and> d \<noteq> []) DOMAINS"
  by code_simp

lemma jws_input_no_claim:
  assumes "b64_ok E" "claim_wf x"
  shows "claim_message x \<noteq> b64_encode E a @ [0x2E] @ b64_encode E b"
proof
  assume eq: "claim_message x = b64_encode E a @ [0x2E] @ b64_encode E b"
  have "0x0A \<in> set (claim_domain x)"
    using domains_end_line claim_domain_in [of x] unfolding list_all_iff by (metis last_in_set)
  moreover have "set (claim_domain x) \<subseteq> set (claim_message x)"
    using claim_starts [OF assms(2)] by (auto simp: starts_with_iff)
  ultimately have "0x0A \<in> set (claim_message x)" by blast
  then show False using b64_okD(5) [OF assms(1)] by (simp add: eq)
qed

interpretation claim_form: signed_form claim_message claim_message claim_wf "[]"
  by unfold_locales (simp_all add: claim_message_inj)

end
