(* ===== verification/Prop_Signed.thy ===== *)
theory Prop_Signed
  imports Settings_Samples Kms Setup Manifest Token Claims
begin

text \<open>
  What the signed forms promise (\<open>kms.rs\<close>, \<open>status.rs\<close>, \<open>setup.rs\<close>, \<open>manifest.rs\<close>, \<open>jws.rs\<close>,
  \<open>roster.rs\<close>, \<open>token.rs\<close>): the properties.
\<close>

section \<open>The KMS nonce envelope\<close>


text \<open>C30. A signed assertion carries the envelope it was asked for, under the signer's id, with a
  signature that verifies over the envelope's canonical hash; no other envelope the signer would
  sign has that hash, short of a SHA-256 collision.\<close>

theorem kms_assertion_verifies:
  assumes "device_signer P S pk" "envelope_sign P B S e = Inr a"
  shows "sa_envelope a = e \<and> sa_device_id a = sg_device_id S \<and> length (sa_signature a) = 64
    \<and> verify_prehash P pk (canonical_bytes P (as_ref e)) (sa_signature a) = Inr ()
    \<and> (\<forall>e'. nonce_validate P B e' = Inr () \<and> canonical_bytes P e' = canonical_bytes P (as_ref e) \<longrightarrow>
         e' = as_ref e \<or> hash_collision P (canonical_message e') (canonical_message (as_ref e)))"
proof -
  from assms(2) have "nonce_wf (as_ref e)"
    by (auto simp: envelope_sign_def bind_res_eq_Inr nonce_sign_Inr intro: validated_wf)
  then show ?thesis
    using device_signer.assertion_verifies [OF assms] nonce_form.prehash_binds [of _ "as_ref e" P]
    by (auto simp: canonical_bytes_def dest: validated_wf)
qed

definition sample_envelope :: nonce_envelope where
  "sample_envelope = \<lparr>ne_version = 1, ne_type = NONCE_TYPE, ne_nonce = replicate 32 4,
     ne_did = sample_did_text, ne_audience = ascii ''kms'', ne_purpose = ascii ''unlock'',
     ne_issued_at = 100, ne_expires_at = 400, ne_issuer = ascii ''hub''\<rparr>"

lemma sample_envelope_valid: "nonce_validate sample_prims sample_bs58 (as_ref sample_envelope) = Inr ()"
  using sample_did_text by (simp add: nonce_validate_Inr as_ref_def sample_envelope_def)

lemma sample_assertion:
  "\<exists>a. envelope_sign sample_prims sample_bs58 (key_signer sample_prims sample_key) sample_envelope = Inr a"
  using sample_envelope_valid by (simp add: envelope_sign_def bind_res_eq_Inr nonce_sign_Inr)

theorem kms_assertion_verifies_witness:
  "\<exists>a. envelope_sign sample_prims sample_bs58 (key_signer sample_prims sample_key) sample_envelope = Inr a
     \<and> sa_envelope a = sample_envelope
     \<and> verify_prehash sample_prims sample_pk (canonical_bytes sample_prims (as_ref sample_envelope))
         (sa_signature a) = Inr ()"
  using sample_assertion kms_assertion_verifies [OF sample_signer] by blast


text \<open>C31. The JSON forms come back: a signed assertion reads back as it was written, and an envelope
  reads back exactly when it is valid, and with the error of \<open>validate\<close> otherwise.\<close>

theorem kms_json_roundtrip:
  assumes "codec_ok J" "b64_ok E" "envelope_text_wf (sa_envelope a)"
    and "utf8_valid (sa_type a)" "utf8_valid (sa_device_id a)"
  shows "assertion_from_json E J (assertion_to_json E J a) = Inr a
    \<and> envelope_from_json P B E J (envelope_to_json E J (sa_envelope a)) =
        bind_res (envelope_validate P B (sa_envelope a)) (\<lambda>_. Inr (sa_envelope a))"
  using assertion_json_roundtrip [OF assms] envelope_json_roundtrip [OF assms(1,2,3)] by blast

theorem kms_json_roundtrip_witness:
  "envelope_from_json sample_prims sample_bs58 sample_b64 sample_codec
     (envelope_to_json sample_b64 sample_codec sample_envelope) = Inr sample_envelope"
proof -
  define a where "a = \<lparr>sa_version = 1, sa_type = ASSERTION_TYPE, sa_envelope = sample_envelope,
     sa_device_id = ascii ''cam-1'', sa_signature = []\<rparr>"
  have "envelope_text_wf (sa_envelope a)" "utf8_valid (sa_type a)" "utf8_valid (sa_device_id a)"
    using sample_did_text(3)
    by (simp_all add: a_def envelope_text_wf_def sample_envelope_def NONCE_TYPE_def ASSERTION_TYPE_def
        utf8_valid_ascii_text)
  from kms_json_roundtrip [OF sample_codec_ok sample_b64_ok this, of sample_prims sample_bs58]
  show ?thesis
    using sample_envelope_valid by (simp add: a_def envelope_validate_def) (simp add: sample_envelope_def)
qed

section \<open>The status document\<close>

text \<open>C32. A status answer verifies under the DID it names; the signed hash is that of the bytes
  \<open>write\<close> lays out; and it is the hash of no other status (another nonce, owner, grant), short of
  a SHA-256 collision.\<close>

theorem status_answer_binds:
  assumes "device_signer P S pk" "status_wf p"
    and "did_parse P B (sp_device_did p) = Inr d" "did_pubkey d = pk"
  shows "(\<exists>sig. status_sign P S p = Inr sig \<and> status_verify P B p sig = Inr ())
    \<and> (\<forall>out. status_len p \<le> length out \<longrightarrow>
         fst (status_write p out) = Inr (status_len p) \<and>
         status_prehash P p = Inr (sha256 P (take (status_len p) (snd (status_write p out)))))
    \<and> (\<forall>q. status_wf q \<and> status_prehash P q = status_prehash P p \<longrightarrow>
         q = p \<or> hash_collision P (status_message q) (status_message p))"
proof -
  have fit: "status_lens_fit q" if "status_wf q" for q
    using that by (simp add: status_wf_def status_lens_fit_def)
  have len: "length (sp_nonce p) = 32" "length (sp_adoption_hash p) = 32"
    using assms(2) by (simp_all add: status_wf_def)
  have pre: "status_prehash P q = Inr (sha256 P (status_message q))" if "status_wf q" for q
    using fit [OF that] by (simp add: status_prehash_eq)
  have "\<exists>sig. status_sign P S p = Inr sig \<and> status_verify P B p sig = Inr ()"
    using device_signer.status_signature_verifies [OF assms(1,3,4) fit [OF assms(2)]]
    by (auto simp: bind_res_eq_Inr)
  moreover have "fst (status_write p out) = Inr (status_len p) \<and>
      status_prehash P p = Inr (sha256 P (take (status_len p) (snd (status_write p out))))"
    if "status_len p \<le> length out" for out
    using status_write_message [OF len fit [OF assms(2)] that] pre [OF assms(2)]
    by (simp flip: status_len_message [OF len])
  moreover have "q = p \<or> hash_collision P (status_message q) (status_message p)"
    if "status_wf q" "status_prehash P q = status_prehash P p" for q
    using status_form.prehash_binds [OF that(1) assms(2)] that(2) pre [OF that(1)] pre [OF assms(2)]
    by simp
  ultimately show ?thesis by blast
qed

definition sample_status :: status_proof where
  "sample_status = adopted sample_prims (replicate 32 3) sample_did_text sample_did_text KIND_ADOPTION_V1 [1, 2, 3]"

lemma sample_status_wf: "status_wf sample_status"
  using sample_did_text(2) prims_okD(1) [OF sample_prims_ok]
  by (simp add: status_wf_def sample_status_def adopted_def KIND_ADOPTION_V1_def)

theorem status_answer_binds_witness:
  "\<exists>sig. status_sign sample_prims (key_signer sample_prims sample_key) sample_status = Inr sig
     \<and> status_verify sample_prims sample_bs58 sample_status sig = Inr ()"
proof -
  have "did_parse sample_prims sample_bs58 (sp_device_did sample_status) = Inr (key_did sample_prims sample_key)"
    using sample_did_text(1) by (simp add: sample_status_def adopted_def)
  from status_answer_binds [OF sample_signer sample_status_wf this sample_pk_key] show ?thesis by blast
qed

text \<open>The query's nonce is 64 lowercase hexadecimal digits, exactly: \<open>parse_nonce_hex\<close> answers
  the 32 bytes whose digits the text is, and \<open>InvalidFormat\<close> for every other text.\<close>

lemma nonce_hex_exact:
  "(parse_nonce_hex s = Inr nonce \<longleftrightarrow> length nonce = 32 \<and> s = concat (map hex_byte nonce))
    \<and> parse_nonce_hex s \<in> {Inl InvalidFormat} \<union> range Inr"
  using parse_nonce_hex_Inr parse_nonce_hex_error by (cases "parse_nonce_hex s") blast+

text \<open>The signed document says what was signed: its signature is over the claims it shows, its
  adoption fields are the adoption's, its plain fields are the plain document's, and a caller's
  extra field can add to the contract's fields but never stand for one.\<close>

lemma status_document_fields:
  assumes "doc_signed P E d nonce sign = Inr doc"
  shows "json_get doc k =
    (if k = ascii ''device_sig'' then
       Some (JStr (b64_encode E (sign (sha256 P (status_message (doc_proof P d nonce))))))
     else if k \<in> {ascii ''owner_did'', ascii ''adoption_kind'', ascii ''adoption''} then
       adoption_field E d k
     else if k \<in> set CONTRACT_FIELDS then json_get (doc_plain d) k
     else json_get (JObj (sd_extra d)) k)"
  using assms by (rule doc_signed_get)

definition sample_document :: status_document where
  "sample_document = \<lparr>sd_device_did = ascii ''did:mata:d'', sd_maker_did = None, sd_model = ascii ''cam'',
     sd_node_id = None, sd_adoption = None,
     sd_extra = [(ascii ''model'', JStr (ascii ''forged'')), (ascii ''uptime'', JPos 7)]\<rparr>"

lemma status_document_fields_witness:
  "\<exists>doc. doc_signed sample_prims sample_b64 sample_document (replicate 32 3)
        (sign_prehash sample_prims sample_key) = Inr doc
     \<and> json_get doc (ascii ''model'') = Some (JStr (ascii ''cam''))
     \<and> json_get doc (ascii ''uptime'') = Some (JPos 7)
     \<and> json_get doc (ascii ''owner_did'') = None"
proof -
  have "status_lens_fit (doc_proof sample_prims sample_document (replicate 32 3))"
    by (simp add: status_lens_fit_def doc_proof_def sample_document_def unadopted_def)
  then obtain doc where doc: "doc_signed sample_prims sample_b64 sample_document (replicate 32 3)
      (sign_prehash sample_prims sample_key) = Inr doc"
    by (simp add: doc_signed_def status_prehash_eq Let_def)
  show ?thesis
    using status_document_fields [OF doc, of "ascii ''model''"] status_document_fields [OF doc, of "ascii ''uptime''"]
      status_document_fields [OF doc, of "ascii ''owner_did''"] doc
    by (simp add: CONTRACT_FIELDS_def doc_plain_def plain_entries_def sample_document_def adoption_field_def)
qed

section \<open>Setup\<close>

text \<open>C33. A Reply's signature verifies under the device's key, and its hash is that of no other
  context, share or confirmation, short of a SHA-256 collision; a context whose length does not
  fit its prefix is refused.\<close>

theorem setup_reply_binds:
  assumes "device_signer P S pk" "reply_wf (ctx, p, v, c)"
  shows "(\<exists>h. reply_prehash P ctx p v c = Inr h \<and> verify_reply P pk h (sign_reply S h) = Inr ())
    \<and> (\<forall>ctx' p' v' c'. reply_wf (ctx', p', v', c') \<and>
         reply_prehash P ctx' p' v' c' = reply_prehash P ctx p v c \<longrightarrow>
         (ctx', p', v', c') = (ctx, p, v, c) \<or>
         hash_collision P (reply_message (ctx', p', v', c')) (reply_message (ctx, p, v, c)))
    \<and> (\<forall>ctx'. 65536 \<le> length ctx' \<longrightarrow> reply_prehash P ctx' p v c = Inl InvalidFormat)"
proof -
  have pre: "reply_prehash P x y z w = Inr (sha256 P (reply_message (x, y, z, w)))"
    if "reply_wf (x, y, z, w)" for x y z w
    using that by (simp add: reply_prehash_message reply_wf_def)
  have "(ctx', p', v', c') = (ctx, p, v, c) \<or>
      hash_collision P (reply_message (ctx', p', v', c')) (reply_message (ctx, p, v, c))"
    if "reply_wf (ctx', p', v', c')" "reply_prehash P ctx' p' v' c' = reply_prehash P ctx p v c"
    for ctx' p' v' c'
    using reply_form.prehash_binds [OF that(1) assms(2)] that(2) pre [OF that(1)] pre [OF assms(2)]
    by simp
  moreover have "verify_reply P pk h (sign_reply S h) = Inr ()" if "reply_prehash P ctx p v c = Inr h" for h
    by (rule device_signer.reply_signature_verifies [OF assms(1) that])
  moreover have "reply_prehash P ctx' p v c = Inl InvalidFormat" if "65536 \<le> length ctx'" for ctx'
    using that by (simp add: reply_prehash_def)
  ultimately show ?thesis using pre [OF assms(2)] by blast
qed

theorem setup_reply_binds_witness:
  "\<exists>h. reply_prehash sample_prims [1, 2] (replicate 65 4) (replicate 65 5) (replicate 32 6) = Inr h
     \<and> verify_reply sample_prims sample_pk h (sign_reply (key_signer sample_prims sample_key) h) = Inr ()"
proof -
  have "reply_wf ([1, 2], replicate 65 4, replicate 65 5, replicate 32 6)"
    by (simp add: reply_wf_def)
  from setup_reply_binds [OF sample_signer this] show ?thesis by blast
qed

text \<open>The setup records fail closed: over a working store each reads as exactly what it holds, a
  record of any other length as \<open>Corrupt\<close> (never as absent, never as no failures), and what was
  stored is what is read.\<close>

lemma setup_records_exact:
  assumes "kv_reliable K contents good storable" "good s"
  shows "load_verifier K s =
      (case contents s KV_SETUP_VERIFIER of
         None \<Rightarrow> Inr None
       | Some v \<Rightarrow> if length v = SETUP_VERIFIER_LEN then Inr (Some v) else Inl Corrupt)
    \<and> load_failures K s =
      (case contents s KV_SETUP_FAILURES of
         None \<Rightarrow> Inr 0 | Some [n] \<Rightarrow> Inr n | Some _ \<Rightarrow> Inl Corrupt)
    \<and> (\<forall>n. storable [n] \<longrightarrow>
         (\<exists>s'. store_failures K s n = (Inr (), s') \<and> good s' \<and> load_failures K s' = Inr n))
    \<and> (\<forall>v. storable v \<and> length v = SETUP_VERIFIER_LEN \<longrightarrow>
         (\<exists>s'. store_verifier K s v = (Inr (), s') \<and> good s' \<and> load_verifier K s' = Inr (Some v)))"
proof (intro conjI allI impI)
  fix n assume "storable [n]"
  with assms show "\<exists>s'. store_failures K s n = (Inr (), s') \<and> good s' \<and> load_failures K s' = Inr n"
    by (rule kv_reliable.failures_stored) blast
next
  fix v assume "storable v \<and> length v = SETUP_VERIFIER_LEN"
  then have "storable v" "length v = SETUP_VERIFIER_LEN" by simp_all
  with assms show "\<exists>s'. store_verifier K s v = (Inr (), s') \<and> good s' \<and> load_verifier K s' = Inr (Some v)"
    by (rule kv_reliable.verifier_stored) blast
qed (rule kv_reliable.load_verifier_exact [OF assms], rule kv_reliable.load_failures_exact [OF assms])

lemma setup_records_exact_witness:
  "load_failures mem_kv [(KV_SETUP_FAILURES, [3, 4])] = Inl Corrupt
    \<and> load_verifier mem_kv [(KV_SETUP_FAILURES, [3, 4])] = Inr None"
proof -
  have "KV_SETUP_VERIFIER \<noteq> KV_SETUP_FAILURES"
    by (simp add: KV_SETUP_VERIFIER_def KV_SETUP_FAILURES_def)
  with setup_records_exact [OF mem.kv_reliable_axioms TrueI] show ?thesis by simp
qed

section \<open>Manifests and makers\<close>

text \<open>C34. A signed manifest verifies: the signature \<open>sign_manifest\<close> answers holds for exactly the bytes
  it wrote, and signing through the cache answers the same signature and bytes, touching no
  other key of the store.\<close>

theorem manifest_signature_holds:
  assumes "prims_ok P" "wf_key P key" "kv_store K contents good storable" "good s"
    and "sig_honest P key (contents s name)" "\<And>v. length v = 128 \<Longrightarrow> storable v"
    and "sign_manifest_cached P enc K s m key name out = (Inr (n, sig), out', s')"
  shows "verify_manifest P (take n out') sig (did_pubkey (key_did P key)) = Inr ()
    \<and> sign_manifest P enc m (key_signer P key) out = (Inr (n, sig), out')
    \<and> good s' \<and> sig_honest P key (contents s' name)
    \<and> (\<forall>j. j \<noteq> name \<longrightarrow> contents s' j = contents s j)"
proof -
  note c = kv_store.sign_manifest_cached_correct
    [OF assms(3,1,4,5,6), where enc = enc and m = m and out = out, unfolded assms(7) prod.case]
  note run = c [THEN conjunct1, symmetric]
  have "verify_manifest P (take n out') sig (did_pubkey (key_did P key)) = Inr ()"
    using key_signer_provides [OF assms(1,2)] run by (rule device_signer.sign_manifest_verifies)
  with run c [THEN conjunct2] show ?thesis by blast
qed

definition sample_encoder :: "bytes encoder" where
  "sample_encoder m out = (Inr (length m), m @ drop (length m) out)"

lemma sample_manifest_run:
  "\<exists>sig s'. sign_manifest_cached sample_prims sample_encoder mem_kv [] [1, 2, 3] sample_key [5] (replicate 8 0)
     = (Inr (3, sig), [1, 2, 3] @ replicate 5 0, s')"
  by (simp add: sign_manifest_cached_def sample_encoder_def split: prod.splits)

theorem manifest_signature_holds_witness:
  "\<exists>sig. verify_manifest sample_prims [1, 2, 3] sig (did_pubkey (key_did sample_prims sample_key)) = Inr ()
     \<and> sign_manifest sample_prims sample_encoder [1, 2, 3] (key_signer sample_prims sample_key) (replicate 8 0) =
       (Inr (3, sig), [1, 2, 3] @ replicate 5 0)"
proof -
  obtain sig s' where run: "sign_manifest_cached sample_prims sample_encoder mem_kv [] [1, 2, 3] sample_key [5]
      (replicate 8 0) = (Inr (3, sig), [1, 2, 3] @ replicate 5 0, s')"
    using sample_manifest_run by blast
  have "sig_honest sample_prims sample_key (map_of [] [5])" by (simp add: sig_honest_def)
  from manifest_signature_holds [OF sample_prims_ok sample_key_wf mem.kv_store_axioms TrueI this TrueI run]
  show ?thesis by auto
qed

text \<open>C35. A maker's attestation verifies for the model and firmware it names and, while both fit a
  16-bit length, for no others short of a SHA-256 collision. Past that the lengths wrap: 65,536
  bytes of model and no firmware have the hash of no model and 65,536 bytes of firmware.\<close>

theorem maker_attestation_binds:
  assumes "device_signer P S pk" "maker_wf (model, firmware)"
  shows "verify_maker P model firmware (sg_sign_prehash S (maker_prehash P model firmware)) pk = Inr ()
    \<and> (\<forall>m f. maker_wf (m, f) \<and> maker_prehash P m f = maker_prehash P model firmware \<longrightarrow>
         (m, f) = (model, firmware) \<or> hash_collision P (maker_message (m, f)) (maker_message (model, firmware)))
    \<and> maker_prehash P (replicate 65536 0) [] = maker_prehash P [] (replicate 65536 0)"
proof -
  have "(m, f) = (model, firmware) \<or> hash_collision P (maker_message (m, f)) (maker_message (model, firmware))"
    if "maker_wf (m, f)" "maker_prehash P m f = maker_prehash P model firmware" for m f
    using maker_form.prehash_binds [OF that(1) assms(2), of P] that(2)
    by (simp only: maker_prehash_message simp_thms)
  with maker_signature_verifies [OF assms(1)] maker_prehash_wraps show ?thesis by blast
qed

theorem maker_attestation_binds_witness:
  "verify_maker sample_prims (ascii ''cam'') (ascii ''1.0'')
     (sg_sign_prehash (key_signer sample_prims sample_key) (maker_prehash sample_prims (ascii ''cam'') (ascii ''1.0'')))
     sample_pk = Inr ()"
proof -
  have "maker_wf (ascii ''cam'', ascii ''1.0'')" by (simp add: maker_wf_def)
  from maker_attestation_binds [OF sample_signer this] show ?thesis by blast
qed

section \<open>Tokens\<close>

text \<open>C36. A compact JWS carries what it was given: it splits at its full stops into three segments
  that decode to the fixed header, the payload and a 64-byte signature, and the signature verifies
  under the signer's key for the first two as they stand. The text determines the payload, whoever
  signed; its hash is that of no other payload, and of none of the six forms the library signs under a
  domain (an adoption, a KMS nonce, a status, a setup Reply, a manifest, a maker's attestation),
  short of a SHA-256 collision.\<close>

theorem jws_carries_its_payload:
  assumes "b64_ok E" "device_signer P S pk"
  shows "\<exists>h p s sig. split_on 0x2E (build_jws_compact P E m S) = [h, p, s]
    \<and> b64_decode E h = Some JWS_HEADER_JSON \<and> b64_decode E p = Some m
    \<and> b64_decode E s = Some sig \<and> length sig = 64
    \<and> verify_prehash P pk (sha256 P (h @ [0x2E] @ p)) sig = Inr ()
    \<and> (\<forall>m' S'. build_jws_compact P E m' S' = build_jws_compact P E m S \<longrightarrow> m' = m)
    \<and> (\<forall>m'. sha256 P (h @ [0x2E] @ b64_encode E m') = sha256 P (h @ [0x2E] @ p) \<longrightarrow>
         m' = m \<or> hash_collision P (h @ [0x2E] @ b64_encode E m') (h @ [0x2E] @ p))
    \<and> (\<forall>x. claim_wf x \<and> sha256 P (claim_message x) = sha256 P (h @ [0x2E] @ p) \<longrightarrow>
         hash_collision P (claim_message x) (h @ [0x2E] @ p))"
proof -
  let ?h = "b64_encode E JWS_HEADER_JSON" and ?p = "b64_encode E m"
  obtain sig where seg: "split_on 0x2E (build_jws_compact P E m S) = [?h, ?p, b64_encode E sig]"
    "length sig = 64" "verify_prehash P pk (sha256 P (?h @ [0x2E] @ ?p)) sig = Inr ()"
    using device_signer.jws_segments [OF assms(2,1), of m] by blast
  have "m' = m \<or> hash_collision P (?h @ [0x2E] @ b64_encode E m') (?h @ [0x2E] @ ?p)"
    if "sha256 P (?h @ [0x2E] @ b64_encode E m') = sha256 P (?h @ [0x2E] @ ?p)" for m'
    using that b64_encode_inj [OF assms(1), of m' m] by (auto simp: hash_collision_def)
  moreover have "hash_collision P (claim_message x) (?h @ [0x2E] @ ?p)"
    if "claim_wf x" "sha256 P (claim_message x) = sha256 P (?h @ [0x2E] @ ?p)" for x
    using that(2) jws_input_no_claim [OF assms(1) that(1), of JWS_HEADER_JSON m]
    by (simp add: hash_collision_def)
  moreover have "\<forall>m' S'. build_jws_compact P E m' S' = build_jws_compact P E m S \<longrightarrow> m' = m"
    using jws_payload_unique [OF assms(1)] by blast
  ultimately show ?thesis
    using seg b64_okD(1) [OF assms(1)]
    by (intro exI [of _ ?h] exI [of _ ?p] exI [of _ "b64_encode E sig"] exI [of _ sig]) simp
qed

theorem jws_carries_its_payload_witness:
  "\<exists>h p s sig. split_on 0x2E (build_jws_compact sample_prims sample_b64 (ascii ''hello'') (key_signer sample_prims sample_key)) =
      [h, p, s]
     \<and> b64_decode sample_b64 p = Some (ascii ''hello'') \<and> b64_decode sample_b64 s = Some sig
     \<and> verify_prehash sample_prims sample_pk (sha256 sample_prims (h @ [0x2E] @ p)) sig = Inr ()"
  using jws_carries_its_payload [OF sample_b64_ok sample_signer, of "ascii ''hello''"] by blast

text \<open>C37. A token says what was asked. A built token is a compact JWS whose signature verifies under the
  device's key and whose payload is issued by and about the device's DID for the requested audience
  and nonce, from \<open>iat\<close> for the requested lifetime, which is not zero (saturating, never wrapping). It
  embeds an empty chain and the genesis roster of that DID, dated a second before \<open>iat\<close> (but not
  before 1) and signed by the same key, and the roster's one verification method, whose key is the
  DID's. An empty audience or nonce or a zero lifetime is refused.\<close>

theorem token_says_what_was_asked:
  assumes "bs58_ok B" "b64_ok E" "canon_ok canon" "device_signer P S pk" "valid_did P d"
    and "build_self_issued_token P B E canon to_vec d S request iat ttl_secs claims = Inr t"
  shows "(\<exists>payload json h p s sig vm. to_vec payload = Some json
    \<and> split_on 0x2E t = [h, p, s] \<and> b64_decode E h = Some JWS_HEADER_JSON \<and> b64_decode E p = Some json
    \<and> b64_decode E s = Some sig \<and> verify_prehash P pk (sha256 P (h @ [0x2E] @ p)) sig = Inr ()
    \<and> did_parse P B (jp_iss payload) = Inr d \<and> jp_sub payload = jp_iss payload
    \<and> jp_aud payload = rq_audience request \<and> jp_aud payload \<noteq> []
    \<and> jp_nonce payload = rq_nonce request \<and> jp_nonce payload \<noteq> []
    \<and> jp_iat payload = iat \<and> unat (jp_exp payload) = min (unat iat + unat ttl_secs) (2 ^ 64 - 1)
    \<and> ttl_secs \<noteq> 0 \<and> jp_claims payload = claims \<and> jp_chain payload = []
    \<and> gr_did (jp_genesis payload) = jp_iss payload
    \<and> unat (gr_signed_at (jp_genesis payload)) = max (unat iat - 1) 1
    \<and> gr_methods (jp_genesis payload) = [vm] \<and> jp_vm payload = embedded_vm_of vm
    \<and> vm_controller vm = jp_iss payload \<and> parse_multibase P B (vm_public_key_multibase vm) = Inr d
    \<and> (\<exists>sig. b64_decode E (gr_self_signed (jp_genesis payload)) = Some sig \<and>
         verify_prehash P pk (sha256 P (canon (jp_genesis payload))) sig = Inr ()))
   \<and> (\<forall>request' ttl'. rq_audience request' = [] \<or> rq_nonce request' = [] \<or> ttl' = 0 \<longrightarrow>
        build_self_issued_token P B E canon to_vec d S request' iat ttl' claims = Inl InvalidFormat)"
    (is "?token \<and> _")
proof (rule conjI)
  from assms(1,5,6) obtain payload json vm where p: "to_vec payload = Some json" "t = build_jws_compact P E json S"
    "did_parse P B (jp_iss payload) = Inr d" "jp_sub payload = jp_iss payload"
    "jp_aud payload = rq_audience request" "jp_nonce payload = rq_nonce request"
    "jp_aud payload \<noteq> []" "jp_nonce payload \<noteq> []"
    "jp_iat payload = iat" "unat (jp_exp payload) = min (unat iat + unat ttl_secs) (2 ^ 64 - 1)"
    "sign_genesis_roster P B E canon d S (max (sat_sub64 iat 1) 1) = Inr (jp_genesis payload)"
    "gr_did (jp_genesis payload) = jp_iss payload"
    and vm: "gr_methods (jp_genesis payload) = [vm]" "jp_vm payload = embedded_vm_of vm"
    "vm_controller vm = jp_iss payload" "parse_multibase P B (vm_public_key_multibase vm) = Inr d"
    "unat (gr_signed_at (jp_genesis payload)) = max (unat iat - 1) 1"
    "jp_chain payload = []" "jp_claims payload = claims" "ttl_secs \<noteq> 0"
    by (rule build_token_Inr)
  let ?h = "b64_encode E JWS_HEADER_JSON" and ?p = "b64_encode E json"
  obtain sig where "split_on 0x2E t = [?h, ?p, b64_encode E sig]"
    "verify_prehash P pk (sha256 P (?h @ [0x2E] @ ?p)) sig = Inr ()"
    using device_signer.jws_segments [OF assms(4,2), of json] unfolding p(2) by blast
  with p vm device_signer.genesis_self_signed [OF assms(4,2,3) p(11)] b64_okD(1) [OF assms(2)] show ?token
    by (intro exI [of _ payload] exI [of _ json] exI [of _ ?h] exI [of _ ?p] exI [of _ "b64_encode E sig"]
        exI [of _ sig] exI [of _ vm]) simp
qed (use build_token_error in blast)

lemma sample_token:
  "\<exists>t. build_self_issued_token sample_prims sample_bs58 sample_b64 (\<lambda>g. gr_did g)
     (\<lambda>payload :: unit jwt_payload. Some (jp_iss payload)) (key_did sample_prims sample_key)
     (key_signer sample_prims sample_key) \<lparr>rq_audience = ascii ''hub'', rq_nonce = [1]\<rparr> 100 60 [] = Inr t"
proof -
  from sample_bs58_ok sample_did_valid show ?thesis
  proof (rule sign_genesis_roster_runs [where E = sample_b64 and canon = "\<lambda>g. gr_did g"
        and S = "key_signer sample_prims sample_key" and at = "max (sat_sub64 100 1) 1"])
    fix s vm sig
    assume "to_did_string sample_bs58 (key_did sample_prims sample_key) = Inr s"
      "sign_genesis_roster sample_prims sample_bs58 sample_b64 (\<lambda>g. gr_did g) (key_did sample_prims sample_key)
        (key_signer sample_prims sample_key) (max (sat_sub64 100 1) 1) =
       Inr \<lparr>gr_version = 1, gr_did = s, gr_methods = [vm], gr_signed_at = max (sat_sub64 100 1) 1,
         gr_self_signed = sig\<rparr>"
    then show ?thesis by (simp add: build_self_issued_token_def Let_def ascii_def)
  qed
qed

theorem token_says_what_was_asked_witness:
  "\<exists>t payload h p s. build_self_issued_token sample_prims sample_bs58 sample_b64 (\<lambda>g. gr_did g)
       (\<lambda>payload :: unit jwt_payload. Some (jp_iss payload)) (key_did sample_prims sample_key)
       (key_signer sample_prims sample_key) \<lparr>rq_audience = ascii ''hub'', rq_nonce = [1]\<rparr> 100 60 [] = Inr t
     \<and> split_on 0x2E t = [h, p, s] \<and> b64_decode sample_b64 p = Some (jp_iss payload)
     \<and> jp_aud payload = ascii ''hub'' \<and> unat (jp_exp (payload :: unit jwt_payload)) = 160
     \<and> build_self_issued_token sample_prims sample_bs58 sample_b64 (\<lambda>g. gr_did g)
         (\<lambda>payload :: unit jwt_payload. Some (jp_iss payload)) (key_did sample_prims sample_key)
         (key_signer sample_prims sample_key) \<lparr>rq_audience = ascii ''hub'', rq_nonce = [1]\<rparr> 100 0 [] = Inl InvalidFormat"
proof -
  obtain t where t: "build_self_issued_token sample_prims sample_bs58 sample_b64 (\<lambda>g. gr_did g)
     (\<lambda>payload :: unit jwt_payload. Some (jp_iss payload)) (key_did sample_prims sample_key)
     (key_signer sample_prims sample_key) \<lparr>rq_audience = ascii ''hub'', rq_nonce = [1]\<rparr> 100 60 [] = Inr t"
    using sample_token by blast
  have "canon_ok (\<lambda>g. gr_did g)" by (simp add: canon_ok_def)
  note claim = token_says_what_was_asked [OF sample_bs58_ok sample_b64_ok this sample_signer sample_did_valid t]
  from claim [THEN conjunct1]
  obtain payload h p s where "split_on 0x2E t = [h, p, s]" "b64_decode sample_b64 p = Some (jp_iss payload)"
    "jp_aud payload = ascii ''hub''" "unat (jp_exp (payload :: unit jwt_payload)) = 160" by auto
  with t claim [THEN conjunct2] show ?thesis by blast
qed

end
