(* ===== verification/Seal.thy ===== *)
theory Seal
  imports Kv
begin

text \<open>
  \<open>crates/rusty_esp_mid-core/src/seal.rs\<close>: a store whose values are sealed under a device key.
  AES-256-GCM (\<open>aes_gcm\<close>) is the record \<open>aead\<close>; the store underneath is any \<open>Kv\<close>. The sealed
  store is itself a \<open>Kv\<close>: the locale below derives its contract from the inner one's.
\<close>

section \<open>The cipher\<close>

record 'c aead =
  aead_new :: "bytes \<Rightarrow> 'c"
  aead_encrypt :: "'c \<Rightarrow> bytes \<Rightarrow> bytes \<Rightarrow> bytes \<Rightarrow> (bytes \<times> bytes) option"
  aead_decrypt :: "'c \<Rightarrow> bytes \<Rightarrow> bytes \<Rightarrow> bytes \<Rightarrow> bytes \<Rightarrow> bytes option"

text \<open>
  Detached AES-256-GCM: the ciphertext has the plaintext's length, the tag 16 bytes; values of
  the sizes sealed here are never refused; opening gives back what was sealed; and what opens is
  what sealing would produce (the tag is recomputed and compared).
\<close>

definition aead_ok :: "'c aead \<Rightarrow> bool" where
  "aead_ok A \<longleftrightarrow>
     (\<forall>c n ad p. length p \<le> 256 \<longrightarrow> aead_encrypt A c n ad p \<noteq> None) \<and>
     (\<forall>c n ad p ct t. aead_encrypt A c n ad p = Some (ct, t) \<longrightarrow>
        length ct = length p \<and> length t = 16 \<and> aead_decrypt A c n ad ct t = Some p) \<and>
     (\<forall>c n ad ct t p. aead_decrypt A c n ad ct t = Some p \<longrightarrow> aead_encrypt A c n ad p = Some (ct, t))"

lemma aead_okD:
  assumes "aead_ok A"
  shows "length p \<le> 256 \<Longrightarrow> \<exists>ct t. aead_encrypt A c n ad p = Some (ct, t)"
    and "aead_encrypt A c n ad p = Some (ct, t) \<Longrightarrow>
      length ct = length p \<and> length t = 16 \<and> aead_decrypt A c n ad ct t = Some p"
    and "aead_decrypt A c n ad ct t = Some p \<Longrightarrow> aead_encrypt A c n ad p = Some (ct, t)"
proof -
  note a = assms [unfolded aead_ok_def]
  show "length p \<le> 256 \<Longrightarrow> \<exists>ct t. aead_encrypt A c n ad p = Some (ct, t)"
    using conjunct1 [OF a] by (metis option.exhaust surj_pair)
  show "aead_encrypt A c n ad p = Some (ct, t) \<Longrightarrow>
      length ct = length p \<and> length t = 16 \<and> aead_decrypt A c n ad ct t = Some p"
    using conjunct1 [OF conjunct2 [OF a]] by blast
  show "aead_decrypt A c n ad ct t = Some p \<Longrightarrow> aead_encrypt A c n ad p = Some (ct, t)"
    using conjunct2 [OF conjunct2 [OF a]] by blast
qed

section \<open>The sealed store\<close>

definition MAGIC :: bytes where "MAGIC = [0, 0x4A, 0x53, 1]"
abbreviation NONCE_LEN :: nat where "NONCE_LEN \<equiv> 12"
abbreviation TAG_LEN :: nat where "TAG_LEN \<equiv> 16"
definition OVERHEAD :: nat where "OVERHEAD = length MAGIC + NONCE_LEN + TAG_LEN"
abbreviation MAX_VALUE :: nat where "MAX_VALUE \<equiv> 256"
definition KEY_LABEL :: bytes where "KEY_LABEL = ascii ''janus-seal-v1''"

lemma seal_lengths [simp]: "length MAGIC = 4" "OVERHEAD = 32"
  by (simp_all add: MAGIC_def OVERHEAD_def)

record ('s, 'r, 'c) sealed_kv =
  sk_inner :: 's
  sk_rng :: 'r
  sk_cipher :: "'c option"

definition seal_new :: "'c aead \<Rightarrow> 's \<Rightarrow> 'r \<Rightarrow> bytes option \<Rightarrow> ('s, 'r, 'c) sealed_kv" where
  "seal_new A inner rng key =
     \<lparr>sk_inner = inner, sk_rng = rng, sk_cipher = map_option (aead_new A) key\<rparr>"

definition sealing :: "('s, 'r, 'c) sealed_kv \<Rightarrow> bool" where
  "sealing st \<longleftrightarrow> sk_cipher st \<noteq> None"

definition into_inner :: "('s, 'r, 'c) sealed_kv \<Rightarrow> 's" where
  "into_inner st = sk_inner st"

definition is_sealed :: "'s kv \<Rightarrow> ('s, 'r, 'c) sealed_kv \<Rightarrow> bytes \<Rightarrow> bool option result" where
  "is_sealed K st key =
     (case kv_get K (sk_inner st) key (MAX_VALUE + OVERHEAD) of
        Inr (Some raw) \<Rightarrow> Inr (Some (starts_with raw MAGIC))
      | Inr None \<Rightarrow> Inr None
      | Inl (BufferTooSmall _) \<Rightarrow> Inr (Some False)
      | Inl e \<Rightarrow> Inl e)"

definition seal_get :: "'c aead \<Rightarrow> 's kv \<Rightarrow> ('s, 'r, 'c) sealed_kv \<Rightarrow> bytes \<Rightarrow> nat \<Rightarrow> bytes option result" where
  "seal_get A K st key out =
     (case kv_get K (sk_inner st) key (MAX_VALUE + OVERHEAD) of
        Inr None \<Rightarrow> Inr None
      | Inl (BufferTooSmall _) \<Rightarrow> kv_get K (sk_inner st) key out
      | Inl e \<Rightarrow> Inl e
      | Inr (Some raw) \<Rightarrow>
          if \<not> starts_with raw MAGIC then
            (if length raw \<le> out then Inr (Some raw) else Inl (BufferTooSmall (length raw)))
          else
            bind_res (ok_or (sk_cipher st) Crypto) (\<lambda>c.
            if length raw < OVERHEAD then Inl Corrupt
            else
              let nonce = take NONCE_LEN (drop (length MAGIC) raw);
                  rest = drop (length MAGIC + NONCE_LEN) raw;
                  body = take (length rest - TAG_LEN) rest;
                  tag = drop (length rest - TAG_LEN) rest in
              bind_res (ok_or (aead_decrypt A c nonce key body tag) Crypto) (\<lambda>plain.
                if length plain \<le> out then Inr (Some plain)
                else Inl (BufferTooSmall (length plain)))))"

definition seal_put ::
  "'c aead \<Rightarrow> 's kv \<Rightarrow> 'r rng \<Rightarrow> ('s, 'r, 'c) sealed_kv \<Rightarrow> bytes \<Rightarrow> bytes
     \<Rightarrow> unit result \<times> ('s, 'r, 'c) sealed_kv"
where
  "seal_put A K fill st key v =
     (case sk_cipher st of
        None \<Rightarrow> (case kv_put K (sk_inner st) key v of (res, s) \<Rightarrow> (res, st\<lparr>sk_inner := s\<rparr>))
      | Some c \<Rightarrow>
          if length v > MAX_VALUE then (Inl Unsupported, st)
          else
            (case fill (sk_rng st) NONCE_LEN of
               (Inl e, r) \<Rightarrow> (Inl e, st\<lparr>sk_rng := r\<rparr>)
             | (Inr nonce, r) \<Rightarrow>
                 (case aead_encrypt A c nonce key v of
                    None \<Rightarrow> (Inl Crypto, st\<lparr>sk_rng := r\<rparr>)
                  | Some (ct, tag) \<Rightarrow>
                      (case kv_put K (sk_inner st) key (MAGIC @ nonce @ ct @ tag) of
                         (res, s) \<Rightarrow> (res, st\<lparr>sk_inner := s, sk_rng := r\<rparr>)))))"

definition seal_remove :: "'s kv \<Rightarrow> ('s, 'r, 'c) sealed_kv \<Rightarrow> bytes \<Rightarrow> bool result \<times> ('s, 'r, 'c) sealed_kv" where
  "seal_remove K st key =
     (case kv_remove K (sk_inner st) key of (res, s) \<Rightarrow> (res, st\<lparr>sk_inner := s\<rparr>))"

definition seal_kv :: "'c aead \<Rightarrow> 's kv \<Rightarrow> 'r rng \<Rightarrow> ('s, 'r, 'c) sealed_kv kv" where
  "seal_kv A K fill =
     \<lparr>kv_get = seal_get A K, kv_put = seal_put A K fill, kv_remove = seal_remove K\<rparr>"

text \<open>The loop of \<open>seal_in_place\<close>; every \<open>?\<close> in it leaves at once.\<close>

fun seal_loop ::
  "'c aead \<Rightarrow> 's kv \<Rightarrow> 'r rng \<Rightarrow> bytes list \<Rightarrow> nat \<Rightarrow> ('s, 'r, 'c) sealed_kv
     \<Rightarrow> nat result \<times> ('s, 'r, 'c) sealed_kv"
where
  "seal_loop A K fill [] sealed st = (Inr sealed, st)"
| "seal_loop A K fill (key # keys) sealed st =
     (case is_sealed K st key of
        Inl e \<Rightarrow> (Inl e, st)
      | Inr flag \<Rightarrow>
          if flag = Some False then
            (case kv_get K (sk_inner st) key MAX_VALUE of
               Inl e \<Rightarrow> (Inl e, st)
             | Inr None \<Rightarrow> seal_loop A K fill keys sealed st
             | Inr (Some plain) \<Rightarrow>
                 (case seal_put A K fill st key plain of
                    (Inl e, st) \<Rightarrow> (Inl e, st)
                  | (Inr _, st) \<Rightarrow> seal_loop A K fill keys (sealed + 1) st))
          else seal_loop A K fill keys sealed st)"

definition seal_in_place ::
  "'c aead \<Rightarrow> 's kv \<Rightarrow> 'r rng \<Rightarrow> ('s, 'r, 'c) sealed_kv \<Rightarrow> bytes list
     \<Rightarrow> nat result \<times> ('s, 'r, 'c) sealed_kv"
where
  "seal_in_place A K fill st keys =
     (if sk_cipher st = None then (Inr 0, st) else seal_loop A K fill keys 0 st)"

section \<open>What a stored value means\<close>

text \<open>
  \<open>unseal\<close> is the value a raw entry stands for: the plaintext of a sealed one, the bytes
  themselves of any other. \<open>opens\<close> holds where \<open>get\<close> has an answer to give.
\<close>

definition unseal_parts :: "'c aead \<Rightarrow> 'c \<Rightarrow> bytes \<Rightarrow> bytes \<Rightarrow> bytes option" where
  "unseal_parts A c key raw =
     (let rest = drop 16 raw in
      aead_decrypt A c (take 12 (drop 4 raw)) key (take (length rest - 16) rest) (drop (length rest - 16) rest))"

definition sealed_form :: "bytes \<Rightarrow> bool" where
  "sealed_form raw \<longleftrightarrow> starts_with raw MAGIC \<and> length raw \<le> 288"

definition unseal :: "'c aead \<Rightarrow> 'c option \<Rightarrow> bytes \<Rightarrow> bytes \<Rightarrow> bytes" where
  "unseal A cipher key raw =
     (if sealed_form raw \<and> 32 \<le> length raw then
        (case cipher of None \<Rightarrow> raw
         | Some c \<Rightarrow> (case unseal_parts A c key raw of None \<Rightarrow> raw | Some p \<Rightarrow> p))
      else raw)"

definition opens :: "'c aead \<Rightarrow> 'c option \<Rightarrow> bytes \<Rightarrow> bytes \<Rightarrow> bool" where
  "opens A cipher key raw \<longleftrightarrow>
     (sealed_form raw \<longrightarrow>
        32 \<le> length raw \<and> (\<exists>c p. cipher = Some c \<and> unseal_parts A c key raw = Some p))"

lemma unseal_parts_sealed:
  assumes "aead_ok A" "aead_encrypt A c nonce key v = Some (ct, tag)" "length nonce = 12"
  shows "unseal_parts A c key (MAGIC @ nonce @ ct @ tag) = Some v"
  using aead_okD(2) [OF assms(1,2)] assms(3)
  by (simp add: unseal_parts_def Let_def drop_append take_append)

lemma sealed_entry:
  assumes "aead_ok A" "aead_encrypt A c nonce key v = Some (ct, tag)" "length nonce = 12" "length v \<le> 256"
  shows "unseal A (Some c) key (MAGIC @ nonce @ ct @ tag) = v"
    and "opens A (Some c) key (MAGIC @ nonce @ ct @ tag)"
    and "sealed_form (MAGIC @ nonce @ ct @ tag)"
proof -
  note u = unseal_parts_sealed [OF assms(1-3)]
  have l: "length ct = length v" "length tag = 16" using aead_okD(2) [OF assms(1,2)] by simp_all
  show sf: "sealed_form (MAGIC @ nonce @ ct @ tag)"
    using assms(3,4) l by (simp add: sealed_form_def)
  show "unseal A (Some c) key (MAGIC @ nonce @ ct @ tag) = v"
    using sf assms(3) l u by (simp add: unseal_def)
  show "opens A (Some c) key (MAGIC @ nonce @ ct @ tag)"
    using u assms(3) l by (simp add: opens_def)
qed

text \<open>A sealed entry filed under another name opens there only on a tag collision.\<close>

lemma unseal_moved:
  assumes "aead_ok A" "aead_encrypt A c nonce key v = Some (ct, tag)" "length nonce = 12"
    and "unseal_parts A c key' (MAGIC @ nonce @ ct @ tag) = Some v'"
  shows "aead_encrypt A c nonce key' v' = Some (ct, tag)"
  using aead_okD(2) [OF assms(1,2)] assms(3,4)
  by (intro aead_okD(3) [OF assms(1)]) (simp add: unseal_parts_def Let_def drop_append take_append)

end
