(* ===== verification/Seal_Correct.thy ===== *)
theory Seal_Correct
  imports Seal Samples
begin

text \<open>
  \<open>SealedKv\<close> is a \<open>Kv\<close>: over any store with the \<open>Kv\<close> contract it has the contract again, for
  the values the entries stand for, and over one that works it works. Then what sealing in place
  does, and what is at rest afterwards.
\<close>

section \<open>Reading\<close>

definition bounded :: "bytes \<Rightarrow> nat \<Rightarrow> bytes option result" where
  "bounded v n = (if length v \<le> n then Inr (Some v) else Inl (BufferTooSmall (length v)))"

lemma bounded_eq:
  "bounded v n = Inr r \<longleftrightarrow> length v \<le> n \<and> r = Some v"
  "bounded v n = Inl e \<longleftrightarrow> n < length v \<and> e = BufferTooSmall (length v)"
  "Inr r = bounded v n \<longleftrightarrow> length v \<le> n \<and> r = Some v"
  "Inl e = bounded v n \<longleftrightarrow> n < length v \<and> e = BufferTooSmall (length v)"
  by (auto simp: bounded_def)

definition sealed_contents ::
  "'c aead \<Rightarrow> ('s \<Rightarrow> bytes \<Rightarrow> bytes option) \<Rightarrow> ('s, 'r, 'c) sealed_kv \<Rightarrow> bytes \<Rightarrow> bytes option" where
  "sealed_contents A contents st k =
     map_option (unseal A (sk_cipher st) k) (contents (sk_inner st) k)"

abbreviation sealed_storable :: "bytes \<Rightarrow> bool" where
  "sealed_storable v \<equiv> length v \<le> MAX_VALUE"

lemma seal_get_raw:
  assumes "kv_get K (sk_inner st) k 288 = Inr (Some raw)" "length raw \<le> 288"
  shows "opens A (sk_cipher st) k raw \<Longrightarrow>
      seal_get A K st k n = bounded (unseal A (sk_cipher st) k raw) n"
    and "\<not> opens A (sk_cipher st) k raw \<Longrightarrow> seal_get A K st k n \<in> {Inl Crypto, Inl Corrupt}"
  using assms
  by (auto simp: seal_get_def opens_def unseal_def sealed_form_def bounded_def unseal_parts_def
      Let_def bind_res_def ok_or_def split: option.splits)

section \<open>The contract\<close>

locale sealed_store = kv_store K contents inv storable
  for K :: "'s kv" and contents :: "'s \<Rightarrow> bytes \<Rightarrow> bytes option" and inv :: "'s \<Rightarrow> bool"
    and storable :: "bytes \<Rightarrow> bool" +
  fixes A :: "'c aead" and fill :: "'r rng"
  assumes cipher_ok: "aead_ok A"
    and fill_ok: "rng_ok fill"
    and storable_raw: "length v \<le> 288 \<Longrightarrow> storable v"
begin

lemma seal_get_cases:
  assumes "inv (sk_inner st)"
  shows "contents (sk_inner st) k = None \<and> seal_get A K st k n = Inr None
    \<or> (\<exists>raw. contents (sk_inner st) k = Some raw \<and>
        (length raw \<le> 288 \<and> opens A (sk_cipher st) k raw \<and>
           seal_get A K st k n = bounded (unseal A (sk_cipher st) k raw) n
         \<or> length raw > 288 \<and> seal_get A K st k n = kv_get K (sk_inner st) k n))
    \<or> (\<exists>e. seal_get A K st k n = Inl e \<and> (\<forall>m. e \<noteq> BufferTooSmall m) \<and> e \<noteq> Panic)"
proof (cases "kv_get K (sk_inner st) k 288")
  case (Inl e)
  show ?thesis
  proof (cases "\<exists>m. e = BufferTooSmall m")
    case True
    with get_small [OF assms] Inl obtain v where "contents (sk_inner st) k = Some v" "288 < length v"
      by blast
    moreover have "seal_get A K st k n = kv_get K (sk_inner st) k n"
      using True Inl by (auto simp: seal_get_def)
    ultimately show ?thesis by blast
  next
    case False
    then have "seal_get A K st k n = Inl e" using Inl by (cases e) (simp_all add: seal_get_def)
    with False get_no_panic [OF assms, of k 288] Inl show ?thesis by auto
  qed
next
  case (Inr got)
  note v = get_value [OF assms Inr]
  show ?thesis
  proof (cases got)
    case None
    with Inr v show ?thesis by (simp add: seal_get_def)
  next
    case (Some raw)
    with v have c: "contents (sk_inner st) k = Some raw" and l: "length raw \<le> 288" by auto
    note g = seal_get_raw [OF Inr [unfolded Some] l]
    show ?thesis
    proof (cases "opens A (sk_cipher st) k raw")
      case True
      with g(1) c l show ?thesis by blast
    next
      case False
      with g(2) have "seal_get A K st k n \<in> {Inl Crypto, Inl Corrupt}" by blast
      then show ?thesis by auto
    qed
  qed
qed

lemma unseal_long: "length raw > 288 \<Longrightarrow> unseal A cipher k raw = raw"
  by (simp add: unseal_def sealed_form_def)

text \<open>What a write does, on every branch.\<close>

lemma seal_put_cases:
  assumes "seal_put A K fill st k v = (res, st')"
  shows "sk_cipher st' = sk_cipher st"
    and "(\<exists>raw. kv_put K (sk_inner st) k raw = (res, sk_inner st') \<and>
          (length v \<le> 256 \<longrightarrow> storable raw) \<and>
          (length v \<le> 256 \<longrightarrow> unseal A (sk_cipher st) k raw = v) \<and>
          (sk_cipher st \<noteq> None \<longrightarrow> opens A (sk_cipher st) k raw \<and> sealed_form raw \<and> length v \<le> 256))
       \<or> sk_inner st' = sk_inner st \<and> (\<exists>e. res = Inl e \<and> e \<noteq> Panic)"
proof -
  have "sk_cipher st' = sk_cipher st \<and> ((\<exists>raw. kv_put K (sk_inner st) k raw = (res, sk_inner st') \<and>
          (length v \<le> 256 \<longrightarrow> storable raw) \<and>
          (length v \<le> 256 \<longrightarrow> unseal A (sk_cipher st) k raw = v) \<and>
          (sk_cipher st \<noteq> None \<longrightarrow> opens A (sk_cipher st) k raw \<and> sealed_form raw \<and> length v \<le> 256))
       \<or> sk_inner st' = sk_inner st \<and> (\<exists>e. res = Inl e \<and> e \<noteq> Panic))"
  proof (cases "sk_cipher st")
    case None
    with assms have "kv_put K (sk_inner st) k v = (res, sk_inner st')" "sk_cipher st' = sk_cipher st"
      by (auto simp: seal_put_def split: prod.splits)
    with None storable_raw [of v] show ?thesis by (auto simp: unseal_def)
  next
    case (Some c)
    show ?thesis
    proof (cases "length v \<le> 256")
      case False
      with Some assms show ?thesis by (auto simp: seal_put_def)
    next
      case True
      obtain got r where f: "fill (sk_rng st) 12 = (got, r)" by (cases "fill (sk_rng st) 12")
      show ?thesis
      proof (cases got)
        case (Inl e)
        with f rng_okD(2) [OF fill_ok] have "e \<noteq> Panic" by simp
        with Some True assms f Inl show ?thesis by (auto simp: seal_put_def)
      next
        case (Inr nonce)
        then have n: "length nonce = 12" using f rng_okD(1) [OF fill_ok] by simp
        obtain ct tag where e: "aead_encrypt A c nonce k v = Some (ct, tag)"
          using aead_okD(1) [OF cipher_ok True] by blast
        let ?raw = "MAGIC @ nonce @ ct @ tag"
        have "kv_put K (sk_inner st) k ?raw = (res, sk_inner st')" "sk_cipher st' = sk_cipher st"
          using Some True assms f Inr e by (auto simp: seal_put_def split: prod.splits)
        moreover note sealed_entry [OF cipher_ok e n True]
        moreover from this have "storable ?raw"
          by (intro storable_raw) (simp only: sealed_form_def)
        ultimately show ?thesis using Some True by auto
      qed
    qed
  qed
  then show "sk_cipher st' = sk_cipher st"
    "(\<exists>raw. kv_put K (sk_inner st) k raw = (res, sk_inner st') \<and>
          (length v \<le> 256 \<longrightarrow> storable raw) \<and>
          (length v \<le> 256 \<longrightarrow> unseal A (sk_cipher st) k raw = v) \<and>
          (sk_cipher st \<noteq> None \<longrightarrow> opens A (sk_cipher st) k raw \<and> sealed_form raw \<and> length v \<le> 256))
       \<or> sk_inner st' = sk_inner st \<and> (\<exists>e. res = Inl e \<and> e \<noteq> Panic)" by blast+
qed

text \<open>What a write that succeeds leaves, with a key.\<close>

lemma sealed_at_rest:
  assumes i: "inv (sk_inner st)" and c: "sk_cipher st = Some c"
    and p: "seal_put A K fill st k v = (Inr (), st')"
  obtains nonce ct tag where "aead_encrypt A c nonce k v = Some (ct, tag)" "length nonce = 12"
    "length v \<le> 256" "sk_cipher st' = Some c"
    "contents (sk_inner st') k = Some (MAGIC @ nonce @ ct @ tag)"
proof -
  from p c have l: "length v \<le> 256" by (auto simp: seal_put_def split: if_splits)
  from p c l obtain nonce r where f: "fill (sk_rng st) 12 = (Inr nonce, r)"
    by (auto simp: seal_put_def split: prod.splits sum.splits)
  then have n: "length nonce = 12" using rng_okD(1) [OF fill_ok] by simp
  from aead_okD(1) [OF cipher_ok l] obtain ct tag where e: "aead_encrypt A c nonce k v = Some (ct, tag)"
    by blast
  have q: "kv_put K (sk_inner st) k (MAGIC @ nonce @ ct @ tag) = (Inr (), sk_inner st')"
    "sk_cipher st' = Some c"
    using p c l f e by (auto simp: seal_put_def split: prod.splits)
  have "storable (MAGIC @ nonce @ ct @ tag)"
    using sealed_entry(3) [OF cipher_ok e n l] by (intro storable_raw) (simp only: sealed_form_def)
  from put_value [OF i this q(1)] e n l q(2) show thesis by (intro that)
qed

text \<open>Read under another name, it opens only where the cipher collides.\<close>

lemma sealed_moved:
  assumes "inv (sk_inner st)" "sk_cipher st = Some c" "seal_put A K fill st k v = (Inr (), st')"
    and t: "inv (sk_inner t)" "sk_cipher t = Some c" "contents (sk_inner t) k' = contents (sk_inner st') k"
    and g: "seal_get A K t k' n = Inr r"
  shows "\<exists>nonce ct tag v'. r = Some v' \<and> aead_encrypt A c nonce k v = Some (ct, tag)
    \<and> aead_encrypt A c nonce k' v' = Some (ct, tag)"
  using assms(1-3)
proof (rule sealed_at_rest)
  fix nonce ct tag
  assume e: "aead_encrypt A c nonce k v = Some (ct, tag)" "length nonce = 12" "length v \<le> 256"
    and raw: "contents (sk_inner st') k = Some (MAGIC @ nonce @ ct @ tag)"
  let ?raw = "MAGIC @ nonce @ ct @ tag"
  have sf: "sealed_form ?raw" by (rule sealed_entry(3) [OF cipher_ok e])
  have o: "opens A (Some c) k' ?raw" and r: "r = Some (unseal A (Some c) k' ?raw)"
    using seal_get_cases [OF t(1), of k' n] g t(2,3) raw sf by (auto simp: bounded_eq sealed_form_def)
  from o sf obtain v' where u: "unseal_parts A c k' ?raw = Some v'" and l: "32 \<le> length ?raw"
    unfolding opens_def by auto
  with r sf have "r = Some v'" by (simp only: unseal_def if_True simp_thms option.case)
  with unseal_moved [OF cipher_ok e(1,2) u] e(1) show ?thesis by blast
qed

end

sublocale sealed_store \<subseteq> sealed: kv_store "seal_kv A K fill" "sealed_contents A contents"
  "\<lambda>st. inv (sk_inner st)" sealed_storable
proof
  fix st :: "('s, 'r, 'c) sealed_kv" and k v n
  assume i: "inv (sk_inner st)"
  note g = seal_get_cases [OF i, of k n]
  {
    fix r
    assume "kv_get (seal_kv A K fill) st k n = Inr r"
    then have "seal_get A K st k n = Inr r" by (simp add: seal_kv_def)
    with g get_value [OF i, of k n r] show "r = sealed_contents A contents st k \<and> (\<forall>v. r = Some v \<longrightarrow> length v \<le> n)"
      by (auto simp: sealed_contents_def bounded_eq unseal_long)
  next
    fix m
    assume "kv_get (seal_kv A K fill) st k n = Inl (BufferTooSmall m)"
    then have "seal_get A K st k n = Inl (BufferTooSmall m)" by (simp add: seal_kv_def)
    with g get_small [OF i, of k n m] show "\<exists>v. sealed_contents A contents st k = Some v \<and> n < length v \<and> m = length v"
      by (auto simp: sealed_contents_def bounded_eq unseal_long)
  next
    show "kv_get (seal_kv A K fill) st k n \<noteq> Inl Panic"
      using g get_no_panic [OF i, of k n] by (auto simp: seal_kv_def bounded_eq)
  next
    fix rp st'
    assume "kv_put (seal_kv A K fill) st k v = (rp, st')"
    then have "seal_put A K fill st k v = (rp, st')" by (simp add: seal_kv_def)
    note c = seal_put_cases [OF this]
    then show "inv (sk_inner st') \<and> (\<forall>j. j \<noteq> k \<longrightarrow> sealed_contents A contents st' j = sealed_contents A contents st j)"
      using put_frame [OF i] i by (auto simp: sealed_contents_def)
  next
    fix st'
    assume "kv_put (seal_kv A K fill) st k v = (Inr (), st')" and v: "sealed_storable v"
    then have "seal_put A K fill st k v = (Inr (), st')" by (simp add: seal_kv_def)
    note c = seal_put_cases [OF this]
    with v show "sealed_contents A contents st' k = Some v"
      using put_value [OF i] by (auto simp: sealed_contents_def)
  next
    fix e st'
    assume "kv_put (seal_kv A K fill) st k v = (Inl e, st')" and v: "sealed_storable v"
    then have "seal_put A K fill st k v = (Inl e, st')" by (simp add: seal_kv_def)
    note c = seal_put_cases [OF this]
    show "sealed_contents A contents st' k \<in> {sealed_contents A contents st k, None, Some v} \<and> e \<noteq> Panic"
    proof (cases "sk_inner st' = sk_inner st \<and> e \<noteq> Panic")
      case True
      with c(1) show ?thesis by (simp add: sealed_contents_def)
    next
      case False
      with c(2) v obtain raw where p: "kv_put K (sk_inner st) k raw = (Inl e, sk_inner st')"
        and raw: "storable raw" "unseal A (sk_cipher st) k raw = v" by auto
      from put_failed [OF i raw(1) p] raw(2) c(1) show ?thesis by (auto simp: sealed_contents_def)
    qed
  next
    fix rr st'
    assume "kv_remove (seal_kv A K fill) st k = (rr, st')"
    then have r: "kv_remove K (sk_inner st) k = (rr, sk_inner st')" "sk_cipher st' = sk_cipher st"
      by (auto simp: seal_kv_def seal_remove_def split: prod.splits)
    then show "inv (sk_inner st') \<and> (\<forall>j. j \<noteq> k \<longrightarrow> sealed_contents A contents st' j = sealed_contents A contents st j)"
      using remove_frame [OF i r(1)] by (simp add: sealed_contents_def)
  next
    fix b st'
    assume "kv_remove (seal_kv A K fill) st k = (Inr b, st')"
    then have r: "kv_remove K (sk_inner st) k = (Inr b, sk_inner st')" "sk_cipher st' = sk_cipher st"
      by (auto simp: seal_kv_def seal_remove_def split: prod.splits)
    then show "sealed_contents A contents st' k = None \<and> b = (sealed_contents A contents st k \<noteq> None)"
      using remove_value [OF i r(1)] by (simp add: sealed_contents_def)
  next
    fix e st'
    assume "kv_remove (seal_kv A K fill) st k = (Inl e, st')"
    then have r: "kv_remove K (sk_inner st) k = (Inl e, sk_inner st')" "sk_cipher st' = sk_cipher st"
      by (auto simp: seal_kv_def seal_remove_def split: prod.splits)
    then show "sealed_contents A contents st' k \<in> {sealed_contents A contents st k, None} \<and> e \<noteq> Panic"
      using remove_failed [OF i r(1)] by (auto simp: sealed_contents_def)
  }
qed

context sealed_store
begin

lemma contract:
  "kv_store (seal_kv A K fill) (sealed_contents A contents) (\<lambda>st. inv (sk_inner st)) sealed_storable"
  by (rule sealed.kv_store_axioms)

end

section \<open>Over a store that works\<close>

text \<open>
  Every entry opens under the key: nothing was moved, cut short or written under another key.
\<close>

definition all_open ::
  "'c aead \<Rightarrow> ('s \<Rightarrow> bytes \<Rightarrow> bytes option) \<Rightarrow> ('s, 'r, 'c) sealed_kv \<Rightarrow> bool" where
  "all_open A contents st \<longleftrightarrow> sk_cipher st \<noteq> None \<and>
     (\<forall>k raw. contents (sk_inner st) k = Some raw \<longrightarrow> opens A (sk_cipher st) k raw)"

locale healthy_store = sealed_store K contents inv storable A fill + inner: kv_reliable K contents inv storable
  for K :: "'s kv" and contents :: "'s \<Rightarrow> bytes \<Rightarrow> bytes option" and inv :: "'s \<Rightarrow> bool"
    and storable :: "bytes \<Rightarrow> bool" and A :: "'c aead" and fill :: "'r rng" +
  assumes fill_works: "\<exists>bs r'. fill r n = (Inr bs, r')"
begin

lemma healthy_get:
  assumes i: "inv (sk_inner st)" and o: "all_open A contents st"
  shows "seal_get A K st k n =
    (case sealed_contents A contents st k of None \<Rightarrow> Inr None | Some v \<Rightarrow> bounded v n)"
proof (cases "contents (sk_inner st) k")
  case None
  then show ?thesis using inner.get_works [OF i, of k 288]
    by (simp add: seal_get_def sealed_contents_def)
next
  case (Some raw)
  show ?thesis
  proof (cases "length raw \<le> 288")
    case True
    with Some have "kv_get K (sk_inner st) k 288 = Inr (Some raw)"
      using inner.get_works [OF i, of k 288] by simp
    from seal_get_raw(1) [OF this True] Some o show ?thesis
      by (simp add: sealed_contents_def all_open_def)
  next
    case False
    with Some show ?thesis
      using inner.get_works [OF i, of k 288] inner.get_works [OF i, of k n]
      by (simp add: seal_get_def sealed_contents_def unseal_long bounded_def)
  qed
qed

lemma healthy_put:
  assumes i: "inv (sk_inner st)" and o: "all_open A contents st" and v: "length v \<le> 256"
  obtains raw st' where "seal_put A K fill st k v = (Inr (), st')" "inv (sk_inner st')"
    "all_open A contents st'" "sealed_form raw" "sk_cipher st' = sk_cipher st"
    "contents (sk_inner st') = (contents (sk_inner st))(k \<mapsto> raw)"
    "unseal A (sk_cipher st) k raw = v"
proof -
  from o obtain c where c: "sk_cipher st = Some c" by (auto simp: all_open_def)
  obtain nonce r where f: "fill (sk_rng st) 12 = (Inr nonce, r)" using fill_works by blast
  then have n: "length nonce = 12" using rng_okD(1) [OF fill_ok] by simp
  obtain ct tag where e: "aead_encrypt A c nonce k v = Some (ct, tag)"
    using aead_okD(1) [OF cipher_ok v] by blast
  let ?raw = "MAGIC @ nonce @ ct @ tag"
  note s = sealed_entry [OF cipher_ok e n v]
  have "storable ?raw" using s(3) by (intro storable_raw) (simp only: sealed_form_def)
  from inner.put_runs [OF i this, of k] obtain s' where p: "kv_put K (sk_inner st) k ?raw = (Inr (), s')"
    and s': "inv s'" "contents s' = (contents (sk_inner st))(k \<mapsto> ?raw)" .
  let ?st = "st\<lparr>sk_inner := s', sk_rng := r\<rparr>"
  show thesis
  proof (rule that)
    show "seal_put A K fill st k v = (Inr (), ?st)"
      using c v f e p by (simp add: seal_put_def)
    show "all_open A contents ?st" using o c s(2) s'(2) by (auto simp: all_open_def)
  qed (use s s' c in simp_all)
qed

lemma put_all_open:
  assumes i: "inv (sk_inner st)" and o: "all_open A contents st"
    and p: "seal_put A K fill st k v = (res, st')"
  shows "all_open A contents st'"
proof -
  note c = seal_put_cases [OF p]
  show ?thesis
  proof (cases "sk_inner st' = sk_inner st")
    case True
    with o c(1) show ?thesis by (simp add: all_open_def)
  next
    case False
    with c(2) o obtain raw where q: "kv_put K (sk_inner st) k raw = (res, sk_inner st')"
      and raw: "storable raw" "opens A (sk_cipher st) k raw" by (auto simp: all_open_def)
    have "contents (sk_inner st') k \<in> {contents (sk_inner st) k, None, Some raw}"
      using q put_value [OF i raw(1)] put_failed [OF i raw(1)] by (cases res) auto
    with put_frame [OF i q] o raw(2) c(1) show ?thesis
      unfolding all_open_def by (metis insertE option.distinct(1) option.inject singletonD)
  qed
qed

lemma remove_all_open:
  assumes i: "inv (sk_inner st)" and o: "all_open A contents st"
    and r: "kv_remove K (sk_inner st) k = (res, sk_inner st')" "sk_cipher st' = sk_cipher st"
  shows "all_open A contents st'"
proof -
  have "contents (sk_inner st') k \<in> {contents (sk_inner st) k, None}"
    using r(1) remove_value [OF i] remove_failed [OF i] by (cases res) auto
  with remove_frame [OF i r(1)] o r(2) show ?thesis
    unfolding all_open_def by (metis insertE option.distinct(1) singletonD)
qed

end

sublocale healthy_store \<subseteq> healthy: kv_reliable "seal_kv A K fill" "sealed_contents A contents"
  "\<lambda>st. inv (sk_inner st) \<and> all_open A contents st" sealed_storable
proof
  fix st :: "('s, 'r, 'c) sealed_kv" and k v n
  assume o: "inv (sk_inner st) \<and> all_open A contents st"
  then have i: "inv (sk_inner st)" by simp
  show get: "kv_get (seal_kv A K fill) st k n =
      (case sealed_contents A contents st k of None \<Rightarrow> Inr None
       | Some v \<Rightarrow> if length v \<le> n then Inr (Some v) else Inl (BufferTooSmall (length v)))"
    using healthy_get [of st k n] o by (simp add: seal_kv_def bounded_def split: option.splits)
  {
    fix r assume "kv_get (seal_kv A K fill) st k n = Inr r"
    then show "r = sealed_contents A contents st k \<and> (\<forall>v. r = Some v \<longrightarrow> length v \<le> n)"
      by (rule sealed.get_value [OF i])
  next
    fix m assume "kv_get (seal_kv A K fill) st k n = Inl (BufferTooSmall m)"
    then show "\<exists>v. sealed_contents A contents st k = Some v \<and> n < length v \<and> m = length v"
      by (rule sealed.get_small [OF i])
  next
    show "kv_get (seal_kv A K fill) st k n \<noteq> Inl Panic" by (rule sealed.get_no_panic [OF i])
  next
    fix rp st' assume p: "kv_put (seal_kv A K fill) st k v = (rp, st')"
    then have "seal_put A K fill st k v = (rp, st')" by (simp add: seal_kv_def)
    then have "all_open A contents st'" using put_all_open [OF i] o by blast
    with sealed.put_frame [OF i p] show "(inv (sk_inner st') \<and> all_open A contents st') \<and>
        (\<forall>j. j \<noteq> k \<longrightarrow> sealed_contents A contents st' j = sealed_contents A contents st j)" by simp
  next
    fix st' assume "kv_put (seal_kv A K fill) st k v = (Inr (), st')" "sealed_storable v"
    then show "sealed_contents A contents st' k = Some v" by (intro sealed.put_value [OF i])
  next
    fix e st' assume "kv_put (seal_kv A K fill) st k v = (Inl e, st')" "sealed_storable v"
    then show "sealed_contents A contents st' k \<in> {sealed_contents A contents st k, None, Some v} \<and> e \<noteq> Panic"
      by (intro sealed.put_failed [OF i])
  next
    fix rr st' assume p: "kv_remove (seal_kv A K fill) st k = (rr, st')"
    then have r: "kv_remove K (sk_inner st) k = (rr, sk_inner st')" "sk_cipher st' = sk_cipher st"
      by (auto simp: seal_kv_def seal_remove_def split: prod.splits)
    then have "all_open A contents st'" using remove_all_open [OF i _ r] o by blast
    with sealed.remove_frame [OF i p] show "(inv (sk_inner st') \<and> all_open A contents st') \<and>
        (\<forall>j. j \<noteq> k \<longrightarrow> sealed_contents A contents st' j = sealed_contents A contents st j)" by simp
  next
    fix b st' assume "kv_remove (seal_kv A K fill) st k = (Inr b, st')"
    then show "sealed_contents A contents st' k = None \<and> b = (sealed_contents A contents st k \<noteq> None)"
      by (rule sealed.remove_value [OF i])
  next
    fix e st' assume "kv_remove (seal_kv A K fill) st k = (Inl e, st')"
    then show "sealed_contents A contents st' k \<in> {sealed_contents A contents st k, None} \<and> e \<noteq> Panic"
      by (rule sealed.remove_failed [OF i])
  next
    assume "sealed_storable v"
    then show "\<exists>s'. kv_put (seal_kv A K fill) st k v = (Inr (), s')"
      using healthy_put [of st v k] o by (auto simp: seal_kv_def)
  next
    obtain b s' where "kv_remove K (sk_inner st) k = (Inr b, s')"
      using inner.remove_works [OF i, of k] by blast
    then show "\<exists>b s'. kv_remove (seal_kv A K fill) st k = (Inr b, s')"
      by (simp add: seal_kv_def seal_remove_def)
  }
qed

section \<open>Sealing in place\<close>

context healthy_store
begin

text \<open>The entries \<open>seal_in_place\<close> has still to seal: present, and in the clear.\<close>

lemma is_sealed_exact:
  assumes i: "inv (sk_inner st)"
  shows "is_sealed K st k = Inr (map_option sealed_form (contents (sk_inner st) k))"
  using inner.get_works [OF i, of k 288]
  by (auto simp: is_sealed_def sealed_form_def split: option.splits)

lemma unseal_plain: "\<not> sealed_form raw \<Longrightarrow> unseal A cipher k raw = raw"
  by (simp add: unseal_def)

text \<open>One pass: every listed value that fits is sealed where it lies and still reads the same.\<close>

lemma seal_loop_seals:
  assumes "inv (sk_inner st)" "all_open A contents st"
    and "\<forall>k \<in> set keys. \<forall>raw. contents (sk_inner st) k = Some raw \<longrightarrow>
      sealed_form raw \<or> length raw \<le> 256"
  shows "\<exists>n st'. seal_loop A K fill keys m st = (Inr (m + n), st') \<and>
    inv (sk_inner st') \<and> all_open A contents st' \<and>
    sealed_contents A contents st' = sealed_contents A contents st \<and>
    (\<forall>k \<in> set keys. is_sealed K st' k \<in> {Inr None, Inr (Some True)}) \<and>
    (\<forall>k raw. contents (sk_inner st) k = Some raw \<longrightarrow> sealed_form raw \<longrightarrow>
       contents (sk_inner st') k = Some raw)"
  using assms
proof (induction keys arbitrary: m st)
  case Nil
  then show ?case by auto
next
  case (Cons k keys)
  note i = Cons.prems(1) and o = Cons.prems(2)
  show ?case
  proof (cases "\<exists>raw. contents (sk_inner st) k = Some raw \<and> \<not> sealed_form raw")
    case False
    then have flag: "is_sealed K st k \<in> {Inr None, Inr (Some True)}"
      using is_sealed_exact [OF i, of k] by (cases "contents (sk_inner st) k") auto
    with Cons.IH [OF i o, of m] Cons.prems(3) obtain n st' where
      st': "seal_loop A K fill keys m st = (Inr (m + n), st')" "inv (sk_inner st')"
        "all_open A contents st'" "sealed_contents A contents st' = sealed_contents A contents st"
        "\<forall>k \<in> set keys. is_sealed K st' k \<in> {Inr None, Inr (Some True)}"
        "\<forall>k raw. contents (sk_inner st) k = Some raw \<longrightarrow> sealed_form raw \<longrightarrow>
          contents (sk_inner st') k = Some raw" by auto
    have "is_sealed K st' k \<in> {Inr None, Inr (Some True)}"
    proof (cases "contents (sk_inner st) k")
      case None
      then have "sealed_contents A contents st' k = None" using st'(4) by (simp add: sealed_contents_def)
      then show ?thesis using is_sealed_exact [OF st'(2), of k] by (simp add: sealed_contents_def)
    next
      case (Some raw)
      with False st'(6) have "contents (sk_inner st') k = Some raw" "sealed_form raw" by auto
      then show ?thesis using is_sealed_exact [OF st'(2), of k] by simp
    qed
    then have flags: "\<forall>j \<in> set (k # keys). is_sealed K st' j \<in> {Inr None, Inr (Some True)}"
      using st'(5) by simp
    have run: "seal_loop A K fill (k # keys) m st = (Inr (m + n), st')"
      using flag st'(1) by auto
    show ?thesis
      by (intro exI [of _ n] exI [of _ st'] conjI run st' flags)
  next
    case True
    then obtain raw where raw: "contents (sk_inner st) k = Some raw" "\<not> sealed_form raw" by blast
    with Cons.prems(3) have l: "length raw \<le> 256" by auto
    from i o l
    show ?thesis
    proof (rule healthy_put [where k = k])
      fix raw1 st1
      assume p: "seal_put A K fill st k raw = (Inr (), st1)" "inv (sk_inner st1)"
        "all_open A contents st1" "sealed_form raw1" "sk_cipher st1 = sk_cipher st"
        "contents (sk_inner st1) = (contents (sk_inner st))(k \<mapsto> raw1)"
        "unseal A (sk_cipher st) k raw1 = raw"
      have same: "sealed_contents A contents st1 = sealed_contents A contents st"
        using p raw by (auto simp: sealed_contents_def fun_eq_iff unseal_plain)
      have "\<forall>k \<in> set keys. \<forall>raw. contents (sk_inner st1) k = Some raw \<longrightarrow> sealed_form raw \<or> length raw \<le> 256"
        using Cons.prems(3) p(4,6) by auto
      from Cons.IH [OF p(2,3) this, of "m + 1"] obtain n st' where
        st': "seal_loop A K fill keys (m + 1) st1 = (Inr (m + 1 + n), st')" "inv (sk_inner st')"
          "all_open A contents st'" "sealed_contents A contents st' = sealed_contents A contents st1"
          "\<forall>k \<in> set keys. is_sealed K st' k \<in> {Inr None, Inr (Some True)}"
          "\<forall>k raw. contents (sk_inner st1) k = Some raw \<longrightarrow> sealed_form raw \<longrightarrow>
            contents (sk_inner st') k = Some raw" by blast
      have "kv_get K (sk_inner st) k 256 = Inr (Some raw)"
        using inner.get_works [OF i, of k 256] raw l by simp
      then have run: "seal_loop A K fill (k # keys) m st = (Inr (m + (1 + n)), st')"
        using is_sealed_exact [OF i, of k] raw p(1) st'(1) by simp
      have "contents (sk_inner st') k = Some raw1" using st'(6) p(4,6) by simp
      then have flag: "is_sealed K st' k = Inr (Some True)"
        using is_sealed_exact [OF st'(2), of k] p(4) by simp
      have kept: "\<forall>j raw. contents (sk_inner st) j = Some raw \<longrightarrow> sealed_form raw \<longrightarrow>
          contents (sk_inner st') j = Some raw"
      proof (intro allI impI)
        fix j r assume j: "contents (sk_inner st) j = Some r" "sealed_form r"
        with raw have "j \<noteq> k" by auto
        with j p(6) have "contents (sk_inner st1) j = Some r" by simp
        with j(2) st'(6) show "contents (sk_inner st') j = Some r" by blast
      qed
      have flags: "\<forall>j \<in> set (k # keys). is_sealed K st' j \<in> {Inr None, Inr (Some True)}"
        using flag st'(5) by simp
      show ?thesis
        by (intro exI [of _ "1 + n"] exI [of _ st'] conjI run st'(2,3) flags kept)
          (simp add: st'(4) same)
    qed
  qed
qed

end

section \<open>A sample cipher\<close>

definition sample_aead :: "bytes aead" where
  "sample_aead = \<lparr>
     aead_new = (\<lambda>k. k),
     aead_encrypt = (\<lambda>c n ad p. if length p \<le> 256
        then Some (map (\<lambda>x. x + sum_list c + 1) p, replicate 15 0 @ [sum_list (c @ n @ ad @ p)]) else None),
     aead_decrypt = (\<lambda>c n ad ct t. let p = map (\<lambda>x. x - sum_list c - 1) ct in
        if length ct \<le> 256 \<and> t = replicate 15 0 @ [sum_list (c @ n @ ad @ p)] then Some p else None) \<rparr>"

lemma sample_aead_ok: "aead_ok sample_aead"
  by (auto simp: aead_ok_def sample_aead_def Let_def o_def split: if_splits)

interpretation sealed_mem: healthy_store mem_kv map_of "\<lambda>_. True" "\<lambda>_. True" sample_aead sample_rng
  by unfold_locales (auto simp: sample_aead_ok sample_rng_ok sample_rng_def)

end
