(* ===== verification/Prop_Stores.thy ===== *)
theory Prop_Stores
  imports Seal_Correct Settings_Samples
begin

text \<open>
  What the stores promise (\<open>seal.rs\<close>, \<open>settings_adoption.rs\<close>): the properties.
\<close>

section \<open>Values at rest\<close>

text \<open>C19. The sealing wrapper is a \<open>Kv\<close>: over any store with the \<open>Kv\<close> contract, failures included, it
  has the contract again for the values the entries stand for; and with a key, a write that
  succeeds leaves the value sealed, at 32 bytes over its length, and never in the clear.\<close>

theorem sealed_store_is_store:
  assumes "sealed_store K contents good storable A fill"
  shows "kv_store (seal_kv A K fill) (sealed_contents A contents) (\<lambda>st. good (sk_inner st))
      (\<lambda>v. length v \<le> MAX_VALUE)
    \<and> (\<forall>st k v st'. good (sk_inner st) \<and> sealing st \<and> seal_put A K fill st k v = (Inr (), st') \<longrightarrow>
         (\<exists>raw. contents (sk_inner st') k = Some raw \<and> starts_with raw MAGIC
            \<and> length raw = length v + OVERHEAD \<and> unseal A (sk_cipher st') k raw = v))"
proof (intro conjI allI impI)
  show "kv_store (seal_kv A K fill) (sealed_contents A contents) (\<lambda>st. good (sk_inner st))
      (\<lambda>v. length v \<le> MAX_VALUE)"
    using assms by (rule sealed_store.contract)
  fix st k v st'
  assume p: "good (sk_inner st) \<and> sealing st \<and> seal_put A K fill st k v = (Inr (), st')"
  then obtain c where c: "sk_cipher st = Some c" by (auto simp: sealing_def)
  note A = sealed_store.cipher_ok [OF assms]
  from assms p c obtain nonce ct tag where e: "aead_encrypt A c nonce k v = Some (ct, tag)"
      "length nonce = 12" "length v \<le> 256" "sk_cipher st' = Some c"
      "contents (sk_inner st') k = Some (MAGIC @ nonce @ ct @ tag)"
    by (auto elim: sealed_store.sealed_at_rest)
  show "\<exists>raw. contents (sk_inner st') k = Some raw \<and> starts_with raw MAGIC
      \<and> length raw = length v + OVERHEAD \<and> unseal A (sk_cipher st') k raw = v"
    using e sealed_entry(1) [OF A e(1-3)] aead_okD(2) [OF A e(1)] by simp
qed

theorem sealed_store_is_store_witness:
  "\<exists>raw. map_of (sk_inner (snd (seal_put sample_aead mem_kv sample_rng
       (seal_new sample_aead [] 5 (Some [3])) [1] [7, 8, 9]))) [1] = Some raw
     \<and> starts_with raw MAGIC \<and> length raw = 35"
proof -
  let ?st = "seal_new sample_aead [] 5 (Some [3]) :: (mem, u8, bytes) sealed_kv"
  have "fst (seal_put sample_aead mem_kv sample_rng ?st [1] [7, 8, 9]) = Inr ()"
    by (simp add: seal_put_def seal_new_def sample_rng_def sample_aead_def mem_kv_def mem_put_def)
  then obtain st' where p: "seal_put sample_aead mem_kv sample_rng ?st [1] [7, 8, 9] = (Inr (), st')"
    by (metis prod.collapse)
  moreover have "sealing ?st" by (simp add: sealing_def seal_new_def)
  ultimately have "\<exists>raw. map_of (sk_inner st') [1] = Some raw \<and> starts_with raw MAGIC \<and>
      length raw = length [7, 8, 9 :: u8] + OVERHEAD \<and> unseal sample_aead (sk_cipher st') [1] raw = [7, 8, 9]"
    using sealed_store_is_store [OF sealed_mem.sealed_store_axioms] by blast
  with p show ?thesis by auto
qed





text \<open>C21. A sealed value is bound to its name: filed under another name and read there, it is refused,
  or the cipher gave two names' values one ciphertext and tag under one nonce.\<close>

theorem sealed_value_bound_to_name:
  assumes "sealed_store K contents good storable A fill"
    and "good (sk_inner st)" "sk_cipher st = Some c" "seal_put A K fill st k v = (Inr (), st')"
    and "good (sk_inner t)" "sk_cipher t = Some c"
    and "contents (sk_inner t) k' = contents (sk_inner st') k"
    and "seal_get A K t k' n = Inr r"
  shows "\<exists>nonce ct tag v'. r = Some v' \<and> aead_encrypt A c nonce k v = Some (ct, tag)
    \<and> aead_encrypt A c nonce k' v' = Some (ct, tag)"
  using sealed_store.sealed_moved [OF assms(1-3,4,5,6,7,8)] by blast

theorem sealed_value_bound_to_name_witness:
  "\<exists>nonce ct tag v'. Some [7, 8, 9] = Some v' \<and> aead_encrypt sample_aead [3] nonce [1] [7, 8, 9] = Some (ct, tag)
     \<and> aead_encrypt sample_aead [3] nonce [1] v' = Some (ct, tag)"
proof -
  let ?st = "seal_new sample_aead [] 5 (Some [3]) :: (mem, u8, bytes) sealed_kv"
  obtain st' where p: "seal_put sample_aead mem_kv sample_rng ?st [1] [7, 8, 9] = (Inr (), st')"
    and c: "sk_cipher st' = Some [3]"
    by (simp add: seal_put_def seal_new_def sample_rng_def sample_aead_def mem_kv_def mem_put_def)
  have g: "seal_get sample_aead mem_kv st' [1] 9 = Inr (Some [7, 8, 9])"
    using p by (auto simp: seal_put_def seal_new_def sample_rng_def sample_aead_def mem_kv_def mem_put_def
        seal_get_def mem_get_def Let_def MAGIC_def starts_with_def)
  show ?thesis
    using sealed_value_bound_to_name [OF sealed_mem.sealed_store_axioms TrueI _ p TrueI c refl g]
    by (simp add: seal_new_def sample_aead_def)
qed

section \<open>Adoption through the settings\<close>

text \<open>C22. A boot's outcome, when no store fails: nothing in the settings and nothing done; or refused,
  with the identity untouched, the settings cleared, and no admissible statement dropped; or the
  owner taken: the container, its kind, the pin and the provisional mark written, nothing else
  of the identity changed, the settings cleared.\<close>

theorem settings_boot_outcome:
  assumes "boot_stores S sc sgood sst I ic igood ist" "sgood s" "igood i"
    and "apply_settings P B E J S I s i my_did = (Inr out, s', i')"
  shows "(out = Nothing \<and> s' = s \<and> i' = i \<and> sc s SETTINGS_ADOPT = None)
    \<or> (\<exists>why. out = Refused why \<and> i' = i \<and> sc s' = (sc s)(SETTINGS_ADOPT := None) \<and>
        (\<forall>container c. sc s SETTINGS_ADOPT = Some container \<and> length container \<le> ADOPT_MAX \<and>
           check_statement P B E J container my_did = Inr c \<longrightarrow>
           \<not> pin_allows (pin_in (ic i)) (genesis_pubkey (ck_pin c)) (roster_version (ck_pin c))))
    \<or> (\<exists>container c. sc s SETTINGS_ADOPT = Some container \<and> length container \<le> ADOPT_MAX \<and>
        check_statement P B E J container my_did = Inr c \<and>
        pin_allows (pin_in (ic i)) (genesis_pubkey (ck_pin c)) (roster_version (ck_pin c)) \<and>
        out = owner_taken (pin_in (ic i)) c \<and>
        ic i' = ic i ++ map_of (rev (owner_entries c container)) \<and>
        sc s' = (sc s)(SETTINGS_ADOPT := None))"
  using assms
proof (rule boot_stores.apply_Inr)
  assume "out = Nothing" "s' = s" "i' = i" "sc s SETTINGS_ADOPT = None"
  then show ?thesis by blast
next
  fix why
  assume r: "out = Refused why" "i' = i" "sc s' = (sc s)(SETTINGS_ADOPT := None)"
    and no: "\<And>container c. sc s SETTINGS_ADOPT = Some container \<Longrightarrow> length container \<le> ADOPT_MAX \<Longrightarrow>
      check_statement P B E J container my_did = Inr c \<Longrightarrow>
      \<exists>pinned. stored_pin I i = Inr pinned \<and>
        \<not> pin_allows pinned (genesis_pubkey (ck_pin c)) (roster_version (ck_pin c))"
  have "\<not> pin_allows (pin_in (ic i)) (genesis_pubkey (ck_pin c)) (roster_version (ck_pin c))"
    if "sc s SETTINGS_ADOPT = Some container" "length container \<le> ADOPT_MAX"
      "check_statement P B E J container my_did = Inr c" for container c
    using no [OF that] boot_stores.stored_pin_in [OF assms(1,3)] by metis
  with r show ?thesis by blast
next
  fix container c pinned
  assume t: "sc s SETTINGS_ADOPT = Some container" "length container \<le> ADOPT_MAX"
    "check_statement P B E J container my_did = Inr c" "stored_pin I i = Inr pinned"
    "pin_allows pinned (genesis_pubkey (ck_pin c)) (roster_version (ck_pin c))"
    "out = owner_taken pinned c" "sc s' = (sc s)(SETTINGS_ADOPT := None)"
    "ic i' = ic i ++ map_of (rev (owner_entries c container))"
  with boot_stores.stored_pin_in [OF assms(1,3) t(4)] show ?thesis by blast
qed

lemma sample_boot:
  "apply_settings sample_prims sample_bs58 sample_b64 sample_codec mem_kv mem_kv
     [(SETTINGS_ADOPT, sample_container)] [] sample_did_text =
   (Inr (owner_taken None sample_checked), [], rev (owner_entries sample_checked sample_container))"
proof -
  have "kv_get mem_kv [(SETTINGS_ADOPT, sample_container)] SETTINGS_ADOPT ADOPT_MAX = Inr (Some sample_container)"
    using length_sample_container by (simp add: mem_kv_def mem_get_def)
  moreover have "stored_pin mem_kv [] = Inr None"
    by (simp add: stored_pin_def mem_kv_def mem_get_def)
  ultimately have "apply_settings sample_prims sample_bs58 sample_b64 sample_codec mem_kv mem_kv
      [(SETTINGS_ADOPT, sample_container)] [] sample_did_text =
    (case put_each mem_kv [] (owner_entries sample_checked sample_container) of
       (Inl e, i) \<Rightarrow> (Inl e, [(SETTINGS_ADOPT, sample_container)], i)
     | (Inr _, i) \<Rightarrow> clear_then mem_kv [(SETTINGS_ADOPT, sample_container)] i (owner_taken None sample_checked))"
    using sample_check by (intro apply_admitted) (simp_all add: pin_allows_def)
  then show ?thesis
    by (simp add: owner_entries_def mem_kv_def mem_put_def clear_then_def mem_remove_def)
qed

theorem settings_boot_outcome_witness:
  "\<exists>container c. map_of [(SETTINGS_ADOPT, sample_container)] SETTINGS_ADOPT = Some container
     \<and> check_statement sample_prims sample_bs58 sample_b64 sample_codec container sample_did_text = Inr c
     \<and> owner_taken None sample_checked = owner_taken (pin_in Map.empty) c"
  using settings_boot_outcome [OF mem_boot.boot_stores_axioms TrueI TrueI sample_boot]
  by (auto simp: owner_taken_def pin_in_def)

text \<open>The owner stays across boots: a device whose identity store holds a pin, booted any number of
  times with anything at all in its settings, keeps that owner's key and never goes back to an
  older roster.\<close>

lemma settings_owner_pinned:
  assumes "boot_stores S sc sgood sst I ic igood ist" "igood i" "pin_in (ic i) = Some p"
    and "boots P B E J S I my_did sgood i j"
  shows "igood j \<and> (\<exists>q. pin_in (ic j) = Some q \<and> genesis_pubkey q = genesis_pubkey p
    \<and> roster_version p \<le> roster_version q)"
  using assms(1,4,2,3) by (rule boot_stores.boots_pinned)

lemma sample_taken_pin:
  "pin_in (map_of (rev (owner_entries sample_checked sample_container))) = Some (ck_pin sample_checked)"
  using mem_boot.owner_entries_pin [OF sample_check, of Map.empty] by simp

lemma settings_owner_pinned_witness:
  "\<exists>q. pin_in (map_of (rev (owner_entries sample_checked sample_container))) = Some q
     \<and> genesis_pubkey q = did_pubkey (key_did sample_prims sample_key) \<and> 3 \<le> roster_version q"
proof -
  have "boots sample_prims sample_bs58 sample_b64 sample_codec mem_kv mem_kv sample_did_text (\<lambda>_ :: mem. True)
      (rev (owner_entries sample_checked sample_container)) (rev (owner_entries sample_checked sample_container))"
    by (rule boots.none)
  from settings_owner_pinned [OF mem_boot.boot_stores_axioms TrueI sample_taken_pin this]
  show ?thesis by (simp add: sample_checked_def)
qed

text \<open>A boot cut short is redone harmlessly: if it stops with an error while the settings still hold
  the container, a later boot that succeeds takes the same owner and leaves the identity exactly
  as an undisturbed boot would have.\<close>

lemma settings_boot_redone:
  assumes "boot_stores S sc sgood sst I ic igood ist" "sgood s" "igood i"
    and "sc s SETTINGS_ADOPT = Some container" "length container \<le> ADOPT_MAX"
    and "check_statement P B E J container my_did = Inr c" "stored_pin I i = Inr pinned"
    and "pin_allows pinned (genesis_pubkey (ck_pin c)) (roster_version (ck_pin c))"
    and "apply_settings P B E J S I s i my_did = (Inl e, s1, i1)"
    and "sc s1 SETTINGS_ADOPT = Some container"
    and "apply_settings P B E J S I s1 i1 my_did = (Inr out, s2, i2)"
  shows "(\<exists>pinned'. out = owner_taken pinned' c)
    \<and> ic i2 = ic i ++ map_of (rev (owner_entries c container)) \<and> sc s2 SETTINGS_ADOPT = None"
  by (rule boot_stores.apply_redo(3) [OF assms])

lemma flaky_admitted:
  assumes "stored_pin flaky_kv i = Inr None"
  shows "apply_settings sample_prims sample_bs58 sample_b64 sample_codec mem_kv flaky_kv
      [(SETTINGS_ADOPT, sample_container)] i sample_did_text =
    (case put_each flaky_kv i (owner_entries sample_checked sample_container) of
       (Inl e, i) \<Rightarrow> (Inl e, [(SETTINGS_ADOPT, sample_container)], i)
     | (Inr _, i) \<Rightarrow> clear_then mem_kv [(SETTINGS_ADOPT, sample_container)] i (owner_taken None sample_checked))"
  using sample_check length_sample_container assms
  by (intro apply_admitted) (simp_all add: pin_allows_def mem_kv_def mem_get_def)

lemma flaky_runs:
  "\<exists>i1 i2 out s2.
     apply_settings sample_prims sample_bs58 sample_b64 sample_codec mem_kv flaky_kv
       [(SETTINGS_ADOPT, sample_container)] ([], Some (Suc (Suc 0))) sample_did_text =
       (Inl Hardware, [(SETTINGS_ADOPT, sample_container)], i1) \<and>
     apply_settings sample_prims sample_bs58 sample_b64 sample_codec mem_kv flaky_kv
       [(SETTINGS_ADOPT, sample_container)] i1 sample_did_text = (Inr out, s2, i2)"
proof -
  let ?i1 = "([(KV_ADOPTION_KIND, KIND_MATA_STATEMENT), (KV_ADOPTION, sample_container)], None) :: flaky"
  have "stored_pin flaky_kv ([], Some (Suc (Suc 0))) = Inr None" "stored_pin flaky_kv ?i1 = Inr None"
    by (simp_all add: stored_pin_def flaky_kv_def mem_get_def)
  note runs = this [THEN flaky_admitted]
  have "put_each flaky_kv ([], Some (Suc (Suc 0))) (owner_entries sample_checked sample_container) =
      (Inl Hardware, ?i1)"
    by (simp add: owner_entries_def flaky_kv_def flaky_put_def)
  moreover have "\<exists>i2. put_each flaky_kv ?i1 (owner_entries sample_checked sample_container) = (Inr (), i2)"
    by (simp add: owner_entries_def flaky_kv_def flaky_put_def)
  ultimately show ?thesis
    using runs by (auto simp: clear_then_def mem_kv_def mem_remove_def)
qed

lemma settings_boot_redone_witness:
  "\<exists>i1 i2 out s2.
     apply_settings sample_prims sample_bs58 sample_b64 sample_codec mem_kv flaky_kv
       [(SETTINGS_ADOPT, sample_container)] ([], Some (Suc (Suc 0))) sample_did_text =
       (Inl Hardware, [(SETTINGS_ADOPT, sample_container)], i1)
     \<and> apply_settings sample_prims sample_bs58 sample_b64 sample_codec mem_kv flaky_kv
       [(SETTINGS_ADOPT, sample_container)] i1 sample_did_text = (Inr out, s2, i2)
     \<and> map_of (fst i2) = map_of (rev (owner_entries sample_checked sample_container))"
proof -
  obtain i1 i2 out s2 where runs:
    "apply_settings sample_prims sample_bs58 sample_b64 sample_codec mem_kv flaky_kv
       [(SETTINGS_ADOPT, sample_container)] ([], Some (Suc (Suc 0))) sample_did_text =
       (Inl Hardware, [(SETTINGS_ADOPT, sample_container)], i1)"
    "apply_settings sample_prims sample_bs58 sample_b64 sample_codec mem_kv flaky_kv
       [(SETTINGS_ADOPT, sample_container)] i1 sample_did_text = (Inr out, s2, i2)"
    using flaky_runs by blast
  have "stored_pin flaky_kv ([], Some (Suc (Suc 0))) = Inr None"
    by (simp add: stored_pin_def flaky_kv_def mem_get_def)
  moreover have "pin_allows None (genesis_pubkey (ck_pin sample_checked)) (roster_version (ck_pin sample_checked))"
    by (simp add: pin_allows_def)
  ultimately have "map_of (fst i2) = map_of (rev (owner_entries sample_checked sample_container))"
    using settings_boot_redone [OF flaky_boot.boot_stores_axioms TrueI TrueI _ length_sample_container
        sample_check _ _ runs(1) _ runs(2)] by simp
  with runs show ?thesis by (intro exI conjI)
qed

text \<open>C24. Forgetting the owner forgets the owner only: over a working store with a readable pin or none,
  \<open>forget\<close> removes the adoption, its kind, the mark and the pin, answers whether a pin was held, and
  keeps every other entry, the device key among them; the next owner is then a first owner.\<close>

theorem forget_forgets_owner_only:
  assumes "kv_reliable I contents good storable" "good i"
    and "contents i KV_OWNER_PIN = None \<or> (\<exists>p :: owner_pin. length (genesis_pubkey p) = 33 \<and>
      contents i KV_OWNER_PIN = Some (genesis_pubkey p @ u32_to_be (roster_version p)))"
  shows "\<exists>i'. forget I i = (Inr (contents i KV_OWNER_PIN \<noteq> None), i') \<and> good i'
    \<and> contents i' = contents i |` (- {KV_ADOPTION, KV_ADOPTION_KIND, KV_PIN_PROVISIONAL, KV_OWNER_PIN})
    \<and> contents i' KV_KEY = contents i KV_KEY \<and> stored_pin I i' = Inr None"
proof -
  obtain i' where f: "forget I i = (Inr (pin_in (contents i) \<noteq> None), i')" "good i'"
      "contents i' = contents i |` (- owner_keys)"
    using assms by (rule kv_reliable.forget_runs)
  have "pin_in (contents i) \<noteq> None \<longleftrightarrow> contents i KV_OWNER_PIN \<noteq> None"
    using assms(3)
  proof
    assume "\<exists>p :: owner_pin. length (genesis_pubkey p) = 33 \<and>
      contents i KV_OWNER_PIN = Some (genesis_pubkey p @ u32_to_be (roster_version p))"
    then obtain p :: owner_pin where "length (genesis_pubkey p) = 33"
      "contents i KV_OWNER_PIN = Some (genesis_pubkey p @ u32_to_be (roster_version p))" by blast
    with pin_decode_encode [of p] show ?thesis by (simp add: pin_in_def)
  qed (simp add: pin_in_def)
  moreover have "KV_KEY \<notin> owner_keys"
    by (simp add: owner_keys_def KV_KEY_def KV_ADOPTION_def KV_ADOPTION_KIND_def KV_PIN_PROVISIONAL_def
        KV_OWNER_PIN_def)
  moreover have "contents i' KV_OWNER_PIN = None" using f(3) by (simp add: owner_keys_def)
  then have "stored_pin I i' = Inr None"
    using kv_reliable.get_works [OF assms(1) f(2), of KV_OWNER_PIN PIN_LEN] by (simp add: stored_pin_def)
  ultimately show ?thesis using f by (auto simp: owner_keys_def)
qed

theorem forget_forgets_owner_only_witness:
  "\<exists>i'. forget mem_kv ((KV_KEY, [1]) # rev (owner_entries sample_checked sample_container)) = (Inr True, i')
     \<and> map_of i' KV_KEY = Some [1] \<and> map_of i' KV_ADOPTION = None"
proof -
  let ?i = "(KV_KEY, [1]) # rev (owner_entries sample_checked sample_container)"
  have ne: "KV_KEY \<noteq> KV_OWNER_PIN" by (simp add: KV_KEY_def KV_OWNER_PIN_def)
  have p: "map_of ?i KV_OWNER_PIN =
      Some (genesis_pubkey (ck_pin sample_checked) @ u32_to_be (roster_version (ck_pin sample_checked)))"
    using ne by (simp add: owner_entries_def)
  have l: "length (genesis_pubkey (ck_pin sample_checked)) = 33"
    by (rule check_statement_pin_length [OF sample_check])
  have "map_of ?i KV_OWNER_PIN = None \<or> (\<exists>p :: owner_pin. length (genesis_pubkey p) = 33 \<and>
      map_of ?i KV_OWNER_PIN = Some (genesis_pubkey p @ u32_to_be (roster_version p)))"
    using p l by blast
  from forget_forgets_owner_only [OF mem.kv_reliable_axioms TrueI this] obtain i' where
    f: "forget mem_kv ?i = (Inr (map_of ?i KV_OWNER_PIN \<noteq> None), i')"
    and c: "map_of i' = map_of ?i |` (- {KV_ADOPTION, KV_ADOPTION_KIND, KV_PIN_PROVISIONAL, KV_OWNER_PIN})"
    and k: "map_of i' KV_KEY = map_of ?i KV_KEY" by blast
  have "map_of i' KV_ADOPTION = None" by (simp add: c)
  moreover have "map_of i' KV_KEY = Some [1]" by (simp add: k)
  ultimately show ?thesis using f p by (intro exI [of _ i']) simp
qed

end
