(* ===== verification/Esp_Nvs.thy ===== *)
theory Esp_Nvs
  imports Kv
begin

text \<open>
  The \<open>esp-idf\<close> track of \<open>crates/rusty_esp_mid-esp\<close>, \<open>idf/nvs.rs\<close>: ESP-IDF's NVS behind the
  \<open>Kv\<close> seam. The namespace (\<open>EspNvs\<close>) is the record \<open>esp_nvs\<close> and \<open>check_key\<close> a parameter; the
  locale \<open>idf_namespace\<close> states what ESP-IDF documents of a namespace, and the \<open>Kv\<close> contract is
  derived from it.
\<close>

section \<open>Protection\<close>

datatype protection = Plaintext | Encrypted

text \<open>How well a partition protects, as an order.\<close>

instantiation protection :: linorder
begin

definition less_eq_protection :: "protection \<Rightarrow> protection \<Rightarrow> bool" where
  "less_eq_protection a b \<longleftrightarrow> a = Plaintext \<or> b = Encrypted"

definition less_protection :: "protection \<Rightarrow> protection \<Rightarrow> bool" where
  "less_protection a b \<longleftrightarrow> a = Plaintext \<and> b = Encrypted"

instance
proof
  fix a b c :: protection
  show "(a < b) = (a \<le> b \<and> \<not> b \<le> a)"
    by (cases a; cases b) (simp_all add: less_eq_protection_def less_protection_def)
  show "a \<le> a" by (cases a) (simp_all add: less_eq_protection_def)
  show "a \<le> b \<Longrightarrow> b \<le> c \<Longrightarrow> a \<le> c"
    by (cases a; cases b) (simp_all add: less_eq_protection_def)
  show "a \<le> b \<Longrightarrow> b \<le> a \<Longrightarrow> a = b"
    by (cases a; cases b) (simp_all add: less_eq_protection_def)
  show "a \<le> b \<or> b \<le> a"
    by (cases a; cases b) (simp_all add: less_eq_protection_def)
qed

end

text \<open>The build's configuration: the two \<open>CONFIG_*\<close> flags and the crate feature.\<close>

record build_config =
  bc_nvs_encryption :: bool
  bc_flash_encryption :: bool
  bc_allow_insecure_dev :: bool

definition protection_of :: "build_config \<Rightarrow> protection" where
  "protection_of cfg = (if bc_nvs_encryption cfg \<and> bc_flash_encryption cfg then Encrypted else Plaintext)"

definition IDENTITY_PARTITION :: rstr where "IDENTITY_PARTITION = ascii ''identity''"

definition refuse_plaintext :: "build_config \<Rightarrow> unit result" where
  "refuse_plaintext cfg =
     (if protection_of cfg = Plaintext \<and> \<not> bc_allow_insecure_dev cfg then Inl Denied else Inr ())"

section \<open>The namespace\<close>

datatype esp_error = NvsNotFound | NvsInvalidLength | NvsInvalidName | NvsNotEnoughSpace | EspOther nat

definition map_esp :: "esp_error \<Rightarrow> error" where
  "map_esp e = (case e of
     NvsNotFound \<Rightarrow> Corrupt
   | NvsInvalidLength \<Rightarrow> InvalidFormat
   | NvsInvalidName \<Rightarrow> InvalidFormat
   | NvsNotEnoughSpace \<Rightarrow> BufferTooSmall 0
   | EspOther _ \<Rightarrow> Hardware)"

definition esp_res :: "esp_error + 'a \<Rightarrow> 'a result" where
  "esp_res r = (case r of Inl e \<Rightarrow> Inl (map_esp e) | Inr x \<Rightarrow> Inr x)"

record 'n esp_nvs =
  blob_len :: "'n \<Rightarrow> bytes \<Rightarrow> esp_error + nat option"
  get_blob :: "'n \<Rightarrow> bytes \<Rightarrow> nat \<Rightarrow> esp_error + bytes option"
  str_len :: "'n \<Rightarrow> bytes \<Rightarrow> esp_error + nat option"
  get_str :: "'n \<Rightarrow> bytes \<Rightarrow> nat \<Rightarrow> esp_error + rstr option"
  set_blob :: "'n \<Rightarrow> bytes \<Rightarrow> bytes \<Rightarrow> (esp_error + unit) \<times> 'n"
  nvs_remove :: "'n \<Rightarrow> bytes \<Rightarrow> (esp_error + bool) \<times> 'n"

record 'n esp_nvs_kv =
  en_nvs :: 'n
  en_protection :: protection

text \<open>\<open>nvs_new\<close> is \<open>EspNvs::new(partition, namespace, true)\<close>, \<open>take_partition\<close> \<open>EspCustomNvsPartition::take\<close>.\<close>

definition open_unchecked_in ::
  "build_config \<Rightarrow> ('p \<Rightarrow> rstr \<Rightarrow> esp_error + 'n) \<Rightarrow> 'p \<Rightarrow> rstr \<Rightarrow> 'n esp_nvs_kv result" where
  "open_unchecked_in cfg nvs_new part namespace =
     bind_res (esp_res (nvs_new part namespace)) (\<lambda>nvs.
       Inr \<lparr>en_nvs = nvs, en_protection = protection_of cfg\<rparr>)"

definition open_in ::
  "build_config \<Rightarrow> ('p \<Rightarrow> rstr \<Rightarrow> esp_error + 'n) \<Rightarrow> 'p \<Rightarrow> rstr \<Rightarrow> 'n esp_nvs_kv result" where
  "open_in cfg nvs_new part namespace =
     bind_res (refuse_plaintext cfg) (\<lambda>_. open_unchecked_in cfg nvs_new part namespace)"

text \<open>The default \<open>nvs\<close> partition's two constructors: \<open>EspNvsKv::open\<close> and \<open>open_unchecked\<close>.\<close>

definition open_default ::
  "build_config \<Rightarrow> ('p \<Rightarrow> rstr \<Rightarrow> esp_error + 'n) \<Rightarrow> 'p \<Rightarrow> rstr \<Rightarrow> 'n esp_nvs_kv result" where
  "open_default cfg nvs_new part namespace = open_in cfg nvs_new part namespace"

definition open_unchecked_default ::
  "build_config \<Rightarrow> ('p \<Rightarrow> rstr \<Rightarrow> esp_error + 'n) \<Rightarrow> 'p \<Rightarrow> rstr \<Rightarrow> 'n esp_nvs_kv result" where
  "open_unchecked_default cfg nvs_new part namespace = open_unchecked_in cfg nvs_new part namespace"

definition open_custom_unchecked ::
  "build_config \<Rightarrow> (rstr \<Rightarrow> esp_error + 'p) \<Rightarrow> ('p \<Rightarrow> rstr \<Rightarrow> esp_error + 'n) \<Rightarrow> rstr \<Rightarrow> rstr
     \<Rightarrow> 'n esp_nvs_kv result"
where
  "open_custom_unchecked cfg take_partition nvs_new label namespace =
     bind_res (esp_res (take_partition label)) (\<lambda>part.
       open_unchecked_in cfg nvs_new part namespace)"

definition open_custom ::
  "build_config \<Rightarrow> (rstr \<Rightarrow> esp_error + 'p) \<Rightarrow> ('p \<Rightarrow> rstr \<Rightarrow> esp_error + 'n) \<Rightarrow> rstr \<Rightarrow> rstr
     \<Rightarrow> 'n esp_nvs_kv result"
where
  "open_custom cfg take_partition nvs_new label namespace =
     bind_res (refuse_plaintext cfg) (\<lambda>_. open_custom_unchecked cfg take_partition nvs_new label namespace)"

section \<open>The \<open>Kv\<close> operations\<close>

definition get_str_value :: "'n esp_nvs \<Rightarrow> 'n \<Rightarrow> bytes \<Rightarrow> nat \<Rightarrow> bytes option result" where
  "get_str_value N nvs key out =
     bind_res (esp_res (str_len N nvs key)) (\<lambda>got.
       case got of
         None \<Rightarrow> Inr None
       | Some with_nul \<Rightarrow>
           let len = with_nul - 1 in
           if out < len then Inl (BufferTooSmall len)
           else bind_res (esp_res (get_str N nvs key (max with_nul 1))) (\<lambda>s.
             case s of
               None \<Rightarrow> Inr None
             | Some s \<Rightarrow> if length s \<le> out then Inr (Some s) else Inl Panic))"

definition nvs_kv_get ::
  "'n esp_nvs \<Rightarrow> (bytes \<Rightarrow> unit result) \<Rightarrow> 'n \<Rightarrow> bytes \<Rightarrow> nat \<Rightarrow> bytes option result" where
  "nvs_kv_get N check_key nvs key out =
     bind_res (check_key key) (\<lambda>_.
     bind_res (esp_res (blob_len N nvs key)) (\<lambda>got.
       case got of
         None \<Rightarrow> get_str_value N nvs key out
       | Some len \<Rightarrow>
           if out < len then Inl (BufferTooSmall len)
           else esp_res (get_blob N nvs key out)))"

definition nvs_kv_put ::
  "'n esp_nvs \<Rightarrow> (bytes \<Rightarrow> unit result) \<Rightarrow> 'n \<Rightarrow> bytes \<Rightarrow> bytes \<Rightarrow> unit result \<times> 'n" where
  "nvs_kv_put N check_key nvs key v =
     (case check_key key of
        Inl e \<Rightarrow> (Inl e, nvs)
      | Inr _ \<Rightarrow>
        (case str_len N nvs key of
           Inl e \<Rightarrow> (Inl (map_esp e), nvs)
         | Inr None \<Rightarrow> (case set_blob N nvs key v of (r, nvs) \<Rightarrow> (esp_res r, nvs))
         | Inr (Some _) \<Rightarrow>
             (case nvs_remove N nvs key of
                (Inl e, nvs) \<Rightarrow> (Inl (map_esp e), nvs)
              | (Inr _, nvs) \<Rightarrow> (case set_blob N nvs key v of (r, nvs) \<Rightarrow> (esp_res r, nvs)))))"

definition nvs_kv_remove ::
  "'n esp_nvs \<Rightarrow> (bytes \<Rightarrow> unit result) \<Rightarrow> 'n \<Rightarrow> bytes \<Rightarrow> bool result \<times> 'n" where
  "nvs_kv_remove N check_key nvs key =
     (case check_key key of
        Inl e \<Rightarrow> (Inl e, nvs)
      | Inr _ \<Rightarrow> (case nvs_remove N nvs key of (r, nvs) \<Rightarrow> (esp_res r, nvs)))"

definition nvs_kv :: "'n esp_nvs \<Rightarrow> (bytes \<Rightarrow> unit result) \<Rightarrow> 'n kv" where
  "nvs_kv N check_key = \<lparr>kv_get = nvs_kv_get N check_key, kv_put = nvs_kv_put N check_key,
     kv_remove = nvs_kv_remove N check_key\<rparr>"

section \<open>What ESP-IDF documents of a namespace\<close>

text \<open>A key holds a blob or a NUL-terminated string; \<open>nvs_get_str\<close> counts the NUL.\<close>

datatype nvs_entry = NvsBlob bytes | NvsStr rstr

fun entry_value :: "nvs_entry \<Rightarrow> bytes" where
  "entry_value (NvsBlob b) = b"
| "entry_value (NvsStr s) = s"

locale idf_namespace =
  fixes N :: "'n esp_nvs" and check_key :: "bytes \<Rightarrow> unit result"
    and entry :: "'n \<Rightarrow> bytes \<Rightarrow> nvs_entry option"
  assumes key_errors: "check_key k = Inl e \<Longrightarrow> e = InvalidFormat"
    and blob_len_value: "blob_len N n k = Inr r \<Longrightarrow>
      r = (case entry n k of Some (NvsBlob b) \<Rightarrow> Some (length b) | _ \<Rightarrow> None)"
    and get_blob_value: "get_blob N n k cap = Inr rb \<Longrightarrow>
      rb = (case entry n k of Some (NvsBlob b) \<Rightarrow> Some b | _ \<Rightarrow> None)"
    and str_len_value: "str_len N n k = Inr r \<Longrightarrow>
      r = (case entry n k of Some (NvsStr s) \<Rightarrow> Some (length s + 1) | _ \<Rightarrow> None)"
    and get_str_value: "get_str N n k cap = Inr rt \<Longrightarrow>
      rt = (case entry n k of Some (NvsStr s) \<Rightarrow> Some s | _ \<Rightarrow> None)"
    and reads_need_no_space: "blob_len N n k \<noteq> Inl NvsNotEnoughSpace"
      "get_blob N n k cap \<noteq> Inl NvsNotEnoughSpace"
      "str_len N n k \<noteq> Inl NvsNotEnoughSpace" "get_str N n k cap \<noteq> Inl NvsNotEnoughSpace"
    and set_blob_frame: "set_blob N n k v = (rs, n') \<Longrightarrow> j \<noteq> k \<Longrightarrow> entry n' j = entry n j"
    and set_blob_done: "set_blob N n k v = (Inr u, n') \<Longrightarrow> entry n' k = Some (NvsBlob v)"
    and set_blob_failed: "set_blob N n k v = (Inl e', n') \<Longrightarrow>
      entry n' k \<in> {entry n k, Some (NvsBlob v)}"
    and remove_frame: "nvs_remove N n k = (rr, n') \<Longrightarrow> j \<noteq> k \<Longrightarrow> entry n' j = entry n j"
    and remove_done: "nvs_remove N n k = (Inr b, n') \<Longrightarrow> entry n' k = None \<and> (b \<longleftrightarrow> entry n k \<noteq> None)"
    and remove_failed: "nvs_remove N n k = (Inl e', n') \<Longrightarrow> entry n' k \<in> {entry n k, None}"

definition nvs_contents :: "('n \<Rightarrow> bytes \<Rightarrow> nvs_entry option) \<Rightarrow> 'n \<Rightarrow> bytes \<Rightarrow> bytes option" where
  "nvs_contents entry n k = map_option entry_value (entry n k)"

lemma map_esp_no_panic [simp]: "map_esp e \<noteq> Panic"
  by (simp add: map_esp_def split: esp_error.splits)

lemma map_esp_small: "map_esp e = BufferTooSmall m \<longleftrightarrow> e = NvsNotEnoughSpace \<and> m = 0"
  by (auto simp: map_esp_def split: esp_error.splits)

lemma esp_res_eq:
  "esp_res r = Inr x \<longleftrightarrow> r = Inr x"
  "esp_res r = Inl e \<longleftrightarrow> (\<exists>e'. r = Inl e' \<and> e = map_esp e')"
  by (auto simp: esp_res_def split: sum.splits)

context idf_namespace
begin

lemma nvs_get_Inr:
  assumes "nvs_kv_get N check_key n k cap = Inr r"
  shows "r = nvs_contents entry n k \<and> (\<forall>v. r = Some v \<longrightarrow> length v \<le> cap)"
proof -
  from assms obtain got where b: "blob_len N n k = Inr got"
    by (auto simp: nvs_kv_get_def bind_res_eq_Inr esp_res_eq)
  note bl = blob_len_value [OF b]
  show ?thesis
  proof (cases got)
    case None
    with assms b have "Esp_Nvs.get_str_value N n k cap = Inr r"
      by (auto simp: nvs_kv_get_def bind_res_eq_Inr esp_res_eq)
    with None bl str_len_value [of n k] get_str_value [of n k] show ?thesis
      by (fastforce simp: Esp_Nvs.get_str_value_def bind_res_eq_Inr esp_res_eq nvs_contents_def Let_def
          split: option.splits nvs_entry.splits if_splits)
  next
    case (Some len)
    with assms b have "\<not> cap < len" "get_blob N n k cap = Inr r"
      by (auto simp: nvs_kv_get_def bind_res_eq_Inr esp_res_eq split: if_splits)
    with Some bl get_blob_value [of n k cap] show ?thesis
      by (auto simp: nvs_contents_def split: option.splits nvs_entry.splits)
  qed
qed

lemma nvs_get_Inl:
  assumes "nvs_kv_get N check_key n k cap = Inl e"
  shows "e \<noteq> Panic"
    and "e = BufferTooSmall m \<Longrightarrow> \<exists>v. nvs_contents entry n k = Some v \<and> cap < length v \<and> m = length v"
proof -
  have "e \<noteq> Panic \<and> (e = BufferTooSmall m \<longrightarrow>
      (\<exists>v. nvs_contents entry n k = Some v \<and> cap < length v \<and> m = length v))"
  proof (cases "check_key k")
    case (Inl e')
    with assms key_errors [OF Inl] show ?thesis by (auto simp: nvs_kv_get_def)
  next
    case (Inr u)
    note ck = Inr
    show ?thesis
    proof (cases "blob_len N n k")
      case (Inl e')
      with assms ck reads_need_no_space(1) [of n k] show ?thesis
        by (auto simp: nvs_kv_get_def esp_res_def map_esp_small)
    next
      case (Inr got)
      note bl = blob_len_value [OF Inr]
      show ?thesis
      proof (cases got)
        case (Some len)
        with assms ck Inr bl reads_need_no_space(2) [of n k cap] show ?thesis
          by (auto simp: nvs_kv_get_def esp_res_def map_esp_small nvs_contents_def
              split: if_splits option.splits nvs_entry.splits sum.splits)
      next
        case None
        with assms ck Inr have s: "Esp_Nvs.get_str_value N n k cap = Inl e"
          by (simp add: nvs_kv_get_def esp_res_def)
        show ?thesis
        proof (cases "str_len N n k")
          case (Inl e')
          with s reads_need_no_space(3) [of n k] show ?thesis
            by (auto simp: Esp_Nvs.get_str_value_def esp_res_def map_esp_small)
        next
          case (Inr got2)
          note sl = str_len_value [OF Inr]
          show ?thesis
          proof (cases "get_str N n k (max (the got2) 1)")
            case (Inl e')
            with s Inr sl reads_need_no_space(4) show ?thesis
              by (auto simp: Esp_Nvs.get_str_value_def esp_res_def map_esp_small nvs_contents_def Let_def
                  split: option.splits nvs_entry.splits if_splits)
          next
            case (Inr r)
            note gs = get_str_value [OF Inr]
            from s \<open>str_len N n k = Inr got2\<close> sl Inr gs show ?thesis
              by (auto simp: Esp_Nvs.get_str_value_def esp_res_def nvs_contents_def Let_def
                  split: option.splits nvs_entry.splits if_splits)
          qed
        qed
      qed
    qed
  qed
  then show "e \<noteq> Panic" "e = BufferTooSmall m \<Longrightarrow>
      \<exists>v. nvs_contents entry n k = Some v \<and> cap < length v \<and> m = length v" by blast+
qed

text \<open>A \<open>put\<close> over a string is two steps: stopped between them, the key is gone.\<close>

lemma nvs_put_cases:
  assumes "nvs_kv_put N check_key n k v = (r, n')"
  shows "(\<forall>j. j \<noteq> k \<longrightarrow> entry n' j = entry n j) \<and>
    (case r of Inr _ \<Rightarrow> entry n' k = Some (NvsBlob v)
     | Inl e \<Rightarrow> e \<noteq> Panic \<and> entry n' k \<in> {entry n k, None, Some (NvsBlob v)})"
proof (cases "check_key k")
  case (Inl e)
  with assms key_errors [OF Inl] have "r = Inl InvalidFormat" "n' = n" by (simp_all add: nvs_kv_put_def)
  then show ?thesis by simp
next
  case (Inr u)
  note ck = Inr
  have blob: "set_blob N m k v = (q, m') \<Longrightarrow> (\<forall>j. j \<noteq> k \<longrightarrow> entry m' j = entry m j) \<and>
      (case esp_res q of Inr _ \<Rightarrow> entry m' k = Some (NvsBlob v)
       | Inl e \<Rightarrow> e \<noteq> Panic \<and> entry m' k \<in> {entry m k, Some (NvsBlob v)})" for m q m'
    using set_blob_frame [of m k v q m'] set_blob_done [of m k v _ m'] set_blob_failed [of m k v _ m']
    by (auto simp: esp_res_def split: sum.splits)
  show ?thesis
  proof (cases "str_len N n k")
    case (Inl e)
    with assms ck show ?thesis by (auto simp: nvs_kv_put_def)
  next
    case (Inr got)
    show ?thesis
    proof (cases got)
      case None
      obtain q m' where q: "set_blob N n k v = (q, m')" by (rule prod.exhaust)
      with assms ck Inr None have "r = esp_res q" "n' = m'" by (auto simp: nvs_kv_put_def)
      with blob [OF q] show ?thesis by (auto split: sum.splits)
    next
      case (Some l)
      obtain p m where p: "nvs_remove N n k = (p, m)" by (rule prod.exhaust)
      show ?thesis
      proof (cases p)
        case (Inl e)
        with assms ck Inr Some p have "r = Inl (map_esp e)" "n' = m" by (auto simp: nvs_kv_put_def)
        with p Inl remove_frame [of n k p m] remove_failed [of n k e m] show ?thesis by auto
      next
        case gone: (Inr b)
        obtain q m' where q: "set_blob N m k v = (q, m')" by (rule prod.exhaust)
        with assms ck Inr Some p gone have "r = esp_res q" "n' = m'" by (auto simp: nvs_kv_put_def)
        with blob [OF q] p gone remove_frame [of n k p m] remove_done [of n k b m] show ?thesis
          by (auto split: sum.splits)
      qed
    qed
  qed
qed

lemma nvs_remove_cases:
  assumes "nvs_kv_remove N check_key n k = (r, n')"
  shows "(\<forall>j. j \<noteq> k \<longrightarrow> entry n' j = entry n j) \<and>
    (case r of Inr b \<Rightarrow> entry n' k = None \<and> (b \<longleftrightarrow> entry n k \<noteq> None)
     | Inl e \<Rightarrow> e \<noteq> Panic \<and> entry n' k \<in> {entry n k, None})"
proof (cases "check_key k")
  case (Inl e)
  with assms key_errors [OF Inl] have "r = Inl InvalidFormat" "n' = n"
    by (simp_all add: nvs_kv_remove_def)
  then show ?thesis by simp
next
  case (Inr u)
  obtain q m where q: "nvs_remove N n k = (q, m)" by (rule prod.exhaust)
  with assms Inr have "r = esp_res q" "n' = m" by (simp_all add: nvs_kv_remove_def)
  with remove_frame [OF q] remove_done [of n k _ m] remove_failed [of n k _ m] q show ?thesis
    by (cases q) (simp_all add: esp_res_def)
qed

end

sublocale idf_namespace \<subseteq> idf: kv_store "nvs_kv N check_key" "nvs_contents entry" "\<lambda>_. True" "\<lambda>_. True"
proof
  fix n k v cap
  {
    fix r assume "kv_get (nvs_kv N check_key) n k cap = Inr r"
    then show "r = nvs_contents entry n k \<and> (\<forall>v. r = Some v \<longrightarrow> length v \<le> cap)"
      using nvs_get_Inr by (simp add: nvs_kv_def)
  next
    fix m assume "kv_get (nvs_kv N check_key) n k cap = Inl (BufferTooSmall m)"
    then show "\<exists>v. nvs_contents entry n k = Some v \<and> cap < length v \<and> m = length v"
      using nvs_get_Inl(2) by (simp add: nvs_kv_def)
  next
    show "kv_get (nvs_kv N check_key) n k cap \<noteq> Inl Panic"
      using nvs_get_Inl(1) by (auto simp: nvs_kv_def)
  next
    fix r n' assume "kv_put (nvs_kv N check_key) n k v = (r, n')"
    then show "True \<and> (\<forall>j. j \<noteq> k \<longrightarrow> nvs_contents entry n' j = nvs_contents entry n j)"
      using nvs_put_cases [of n k v r n'] by (simp add: nvs_kv_def nvs_contents_def)
  next
    fix n' assume "kv_put (nvs_kv N check_key) n k v = (Inr (), n')"
    then show "nvs_contents entry n' k = Some v"
      using nvs_put_cases [of n k v "Inr ()" n'] by (simp add: nvs_kv_def nvs_contents_def)
  next
    fix e n' assume "kv_put (nvs_kv N check_key) n k v = (Inl e, n')"
    then show "nvs_contents entry n' k \<in> {nvs_contents entry n k, None, Some v} \<and> e \<noteq> Panic"
      using nvs_put_cases [of n k v "Inl e" n'] by (auto simp: nvs_kv_def nvs_contents_def)
  next
    fix r n' assume "kv_remove (nvs_kv N check_key) n k = (r, n')"
    then show "True \<and> (\<forall>j. j \<noteq> k \<longrightarrow> nvs_contents entry n' j = nvs_contents entry n j)"
      using nvs_remove_cases [of n k r n'] by (simp add: nvs_kv_def nvs_contents_def)
  next
    fix b n' assume "kv_remove (nvs_kv N check_key) n k = (Inr b, n')"
    then show "nvs_contents entry n' k = None \<and> b = (nvs_contents entry n k \<noteq> None)"
      using nvs_remove_cases [of n k "Inr b" n'] by (simp add: nvs_kv_def nvs_contents_def)
  next
    fix e n' assume "kv_remove (nvs_kv N check_key) n k = (Inl e, n')"
    then show "nvs_contents entry n' k \<in> {nvs_contents entry n k, None} \<and> e \<noteq> Panic"
      using nvs_remove_cases [of n k "Inl e" n'] by (auto simp: nvs_kv_def nvs_contents_def)
  }
qed

context idf_namespace
begin

lemma contract: "kv_store (nvs_kv N check_key) (nvs_contents entry) (\<lambda>_. True) (\<lambda>_. True)"
  by (rule idf.kv_store_axioms)

end

section \<open>A secret is never opened on plaintext\<close>

lemma refuse_plaintext_Inr:
  "refuse_plaintext cfg = Inr u \<longleftrightarrow> Encrypted \<le> protection_of cfg \<or> bc_allow_insecure_dev cfg"
  by (cases "protection_of cfg") (auto simp: refuse_plaintext_def less_eq_protection_def)

lemma open_in_protected:
  "open_in cfg nvs_new p ns = Inr kv \<Longrightarrow>
     en_protection kv = protection_of cfg \<and> (Encrypted \<le> en_protection kv \<or> bc_allow_insecure_dev cfg)"
  by (auto simp: open_in_def open_unchecked_in_def bind_res_eq_Inr refuse_plaintext_Inr)

lemma open_custom_protected:
  "open_custom cfg take_partition nvs_new label ns = Inr kv \<Longrightarrow>
     en_protection kv = protection_of cfg \<and> (Encrypted \<le> en_protection kv \<or> bc_allow_insecure_dev cfg)"
  by (auto simp: open_custom_def open_custom_unchecked_def open_unchecked_in_def bind_res_eq_Inr
      refuse_plaintext_Inr)

section \<open>A sample namespace\<close>

definition sample_nvs :: "(bytes \<times> nvs_entry) list esp_nvs" where
  "sample_nvs = \<lparr>
     blob_len = (\<lambda>n k. Inr (case map_of n k of Some (NvsBlob b) \<Rightarrow> Some (length b) | _ \<Rightarrow> None)),
     get_blob = (\<lambda>n k cap. Inr (case map_of n k of Some (NvsBlob b) \<Rightarrow> Some b | _ \<Rightarrow> None)),
     str_len = (\<lambda>n k. Inr (case map_of n k of Some (NvsStr s) \<Rightarrow> Some (length s + 1) | _ \<Rightarrow> None)),
     get_str = (\<lambda>n k cap. Inr (case map_of n k of Some (NvsStr s) \<Rightarrow> Some s | _ \<Rightarrow> None)),
     set_blob = (\<lambda>n k v. (Inr (), (k, NvsBlob v) # n)),
     nvs_remove = (\<lambda>n k. (Inr (map_of n k \<noteq> None), filter (\<lambda>e. fst e \<noteq> k) n)) \<rparr>"

definition sample_check_key :: "bytes \<Rightarrow> unit result" where
  "sample_check_key k = (if k = [] \<or> length k > 15 then Inl InvalidFormat else Inr ())"

lemma map_of_filter_fst: "map_of (filter (\<lambda>e. fst e \<noteq> k) n) = (map_of n)(k := None)"
  by (induction n) auto

interpretation sample_idf: idf_namespace sample_nvs sample_check_key map_of
  by unfold_locales (auto simp: sample_nvs_def sample_check_key_def map_of_filter_fst split: if_splits)

end
