(* ===== verification/Shared_Stores.thy ===== *)
theory Shared_Stores
  imports Settings_Correct Setup Key_Correct Esp_Nvs
begin

text \<open>
  The two stores of a boot as \<open>hal/shared.rs\<close> hands them out: behind \<open>RefCell\<close>s, over one flash, and,
  when the table has no \<open>identity\<close> partition, one namespace lent twice. Here both \<open>Kv\<close>s work on one
  state \<open>w\<close>, so that a call on the one may move the other; \<open>settings_adoption::apply\<close> is read again
  over that state. The separate stores of \<open>apply_settings\<close> are one instance of it, the single
  namespace another, two partitions of one flash (in \<open>Shared_Flash\<close>) a third.
\<close>

section \<open>The boot over one state\<close>

definition clear_world :: "'w kv \<Rightarrow> 'w \<Rightarrow> outcome \<Rightarrow> outcome result \<times> 'w" where
  "clear_world S w out =
     (case kv_remove S w SETTINGS_ADOPT of (Inl e, w) \<Rightarrow> (Inl e, w) | (Inr _, w) \<Rightarrow> (Inr out, w))"

definition apply_world ::
  "('sk, 'vk, 'sig) prims \<Rightarrow> bs58 \<Rightarrow> b64 \<Rightarrow> json_codec \<Rightarrow> 'w kv \<Rightarrow> 'w kv \<Rightarrow> 'w \<Rightarrow> rstr
     \<Rightarrow> outcome result \<times> 'w"
where
  "apply_world P B E J S I w my_did =
     (case kv_get S w SETTINGS_ADOPT ADOPT_MAX of
        Inr None \<Rightarrow> (Inr Nothing, w)
      | Inl (BufferTooSmall _) \<Rightarrow> clear_world S w (Refused ''the adoption is longer than 8 KiB'')
      | Inl e \<Rightarrow> (Inl e, w)
      | Inr (Some container) \<Rightarrow>
        (case check_statement P B E J container my_did of
           Inl why \<Rightarrow> clear_world S w (Refused why)
         | Inr c \<Rightarrow>
           (case stored_pin I w of
              Inl e \<Rightarrow> (Inl e, w)
            | Inr pinned \<Rightarrow>
              if pinned \<noteq> None \<and> genesis_pubkey (the pinned) \<noteq> genesis_pubkey (ck_pin c)
              then clear_world S w (Refused ''the device is pinned to another owner'')
              else if pinned \<noteq> None \<and> roster_version (ck_pin c) < roster_version (the pinned)
              then clear_world S w (Refused ''the adoption's roster is older than the pinned one'')
              else
                (case put_each I w [(KV_ADOPTION, container), (KV_ADOPTION_KIND, KIND_MATA_STATEMENT)] of
                   (Inl e, w) \<Rightarrow> (Inl e, w)
                 | (Inr _, w) \<Rightarrow>
                   (case pin_encode (ck_pin c) (replicate PIN_LEN 0) of
                      (Inl e, _) \<Rightarrow> (Inl e, w)
                    | (Inr _, pin) \<Rightarrow>
                      (case put_each I w [(KV_OWNER_PIN, pin), (KV_PIN_PROVISIONAL, [1])] of
                         (Inl e, w) \<Rightarrow> (Inl e, w)
                       | (Inr _, w) \<Rightarrow>
                           clear_world S w
                             (if pinned \<noteq> None
                              then Rehomed (ck_owner_did c) (roster_version (ck_pin c)) True
                              else Adopted (ck_owner_did c) (roster_version (ck_pin c)) True)))))))"

text \<open>The decision is the one over separate stores; only the writes are threaded.\<close>

lemma apply_world_decided:
  "apply_world P B E J S I w my_did =
    (case boot_decision P B E J S I w w my_did of
       Stop e \<Rightarrow> (Inl e, w)
     | Leave \<Rightarrow> (Inr Nothing, w)
     | Refuse why \<Rightarrow> clear_world S w (Refused why)
     | Take container c pinned \<Rightarrow>
         (case put_each I w (owner_entries c container) of
            (Inl e, w) \<Rightarrow> (Inl e, w)
          | (Inr _, w) \<Rightarrow> clear_world S w (owner_taken pinned c)))"
proof (cases "\<exists>container c pinned. boot_decision P B E J S I w w my_did = Take container c pinned")
  case False
  then show ?thesis
    by (auto simp: boot_decision_def apply_world_def split: sum.splits option.splits error.splits if_splits)
next
  case True
  then obtain container c pinned where t: "boot_decision P B E J S I w w my_did = Take container c pinned"
    by blast
  then have d: "kv_get S w SETTINGS_ADOPT ADOPT_MAX = Inr (Some container)"
    "check_statement P B E J container my_did = Inr c" "stored_pin I w = Inr pinned"
    "pin_allows pinned (genesis_pubkey (ck_pin c)) (roster_version (ck_pin c))"
    by (auto simp: boot_decision_def pin_allows_def split: sum.splits option.splits error.splits if_splits)
  let ?pin = "genesis_pubkey (ck_pin c) @ u32_to_be (roster_version (ck_pin c))"
  let ?xs = "[(KV_ADOPTION, container), (KV_ADOPTION_KIND, KIND_MATA_STATEMENT)]"
  let ?ys = "[(KV_OWNER_PIN, ?pin), (KV_PIN_PROVISIONAL, [1])]"
  have xs: "owner_entries c container = ?xs @ ?ys" by (simp add: owner_entries_def)
  have pin: "pin_encode (ck_pin c) (replicate PIN_LEN 0) = (Inr PIN_LEN, ?pin)"
    by (rule pin_encode_fits) simp
  obtain r1 w1 where p1: "put_each I w ?xs = (r1, w1)" by (rule prod.exhaust)
  obtain r2 w2 where p2: "put_each I w1 ?ys = (r2, w2)" by (rule prod.exhaust)
  have pe: "put_each I w (owner_entries c container) =
      (case r1 of Inl e \<Rightarrow> (Inl e, w1) | Inr _ \<Rightarrow> (r2, w2))"
    by (simp only: xs put_each_append p1 p2 prod.case)
  show ?thesis
    using d(4)
    by (cases pinned; cases r1; cases r2)
      (simp_all add: apply_world_def t d(1-3) pin p1 p2 pe owner_taken_def pin_allows_def
        del: put_each.simps flip: not_less)
qed

section \<open>Two stores that share a state\<close>

text \<open>
  A call on one store moves of the other at most the entry of the same name: nothing at all where
  they are apart, that very entry where they are one namespace.
\<close>

locale shared_stores = boot_stores S sc good sst I ic good ist
  for S :: "'w kv" and sc :: "'w \<Rightarrow> bytes \<Rightarrow> bytes option" and good :: "'w \<Rightarrow> bool"
    and sst :: "bytes \<Rightarrow> bool" and I :: "'w kv" and ic :: "'w \<Rightarrow> bytes \<Rightarrow> bytes option"
    and ist :: "bytes \<Rightarrow> bool" +
  assumes settings_put_ic: "good w \<Longrightarrow> kv_put S w k v = (r, w') \<Longrightarrow> j \<noteq> k \<Longrightarrow> ic w' j = ic w j"
    and settings_remove_ic: "good w \<Longrightarrow> kv_remove S w k = (rr, w') \<Longrightarrow> j \<noteq> k \<Longrightarrow> ic w' j = ic w j"
    and identity_put_sc: "good w \<Longrightarrow> kv_put I w k v = (r, w') \<Longrightarrow> j \<noteq> k \<Longrightarrow> sc w' j = sc w j"
    and identity_remove_sc: "good w \<Longrightarrow> kv_remove I w k = (rr, w') \<Longrightarrow> j \<noteq> k \<Longrightarrow> sc w' j = sc w j"
begin

lemma put_each_sc:
  "good w \<Longrightarrow> put_each I w kvs = (r, w') \<Longrightarrow> j \<notin> fst ` set kvs \<Longrightarrow> good w' \<and> sc w' j = sc w j"
proof (induction kvs arbitrary: w)
  case (Cons kv kvs)
  obtain k v where kv: "kv = (k, v)" by (cases kv)
  obtain q w1 where p: "kv_put I w k v = (q, w1)" by (cases "kv_put I w k v")
  have w1: "good w1" "sc w1 j = sc w j"
    using identity.put_frame [OF Cons.prems(1) p] identity_put_sc [OF Cons.prems(1) p] Cons.prems(3)
    by (auto simp: kv)
  with Cons p show ?case by (cases q) (auto simp: kv)
qed simp

lemma clear_world_cases:
  assumes "good w" "clear_world S w out = (r, w')"
  shows "good w'" and "j \<noteq> SETTINGS_ADOPT \<Longrightarrow> ic w' j = ic w j"
    and "j \<noteq> SETTINGS_ADOPT \<Longrightarrow> sc w' j = sc w j"
    and "(\<exists>e. r = Inl e) \<and> sc w' SETTINGS_ADOPT \<in> {sc w SETTINGS_ADOPT, None} \<or>
      r = Inr out \<and> sc w' SETTINGS_ADOPT = None"
proof -
  obtain q w1 where q: "kv_remove S w SETTINGS_ADOPT = (q, w1)" by (cases "kv_remove S w SETTINGS_ADOPT")
  with assms(2) have w': "w' = w1" "r = (case q of Inl e \<Rightarrow> Inl e | Inr _ \<Rightarrow> Inr out)"
    by (auto simp: clear_world_def split: sum.splits)
  note f = settings.remove_frame [OF assms(1) q]
  show "good w'" "j \<noteq> SETTINGS_ADOPT \<Longrightarrow> sc w' j = sc w j" using f w' by auto
  show "j \<noteq> SETTINGS_ADOPT \<Longrightarrow> ic w' j = ic w j" using settings_remove_ic [OF assms(1) q] w' by simp
  show "(\<exists>e. r = Inl e) \<and> sc w' SETTINGS_ADOPT \<in> {sc w SETTINGS_ADOPT, None} \<or>
      r = Inr out \<and> sc w' SETTINGS_ADOPT = None"
    using settings.remove_failed [OF assms(1)] settings.remove_value [OF assms(1)] q w' by (cases q) auto
qed

lemma owner_keys_not_adopt: "SETTINGS_ADOPT \<notin> fst ` set (owner_entries c container)"
  by (simp add: owner_entries_def SETTINGS_ADOPT_def KV_ADOPTION_def KV_ADOPTION_KIND_def
      KV_OWNER_PIN_def KV_PIN_PROVISIONAL_def)

text \<open>
  Whatever becomes of a boot: the identity moves only at the four entries, each then old, missing or
  new; the settings' adoption stays or goes; and an answer is the answer over separate stores.
\<close>

lemma apply_world_frame:
  assumes w: "good w" and run: "apply_world P B E J S I w my_did = (r, w')"
  obtains (kept) "good w'" "\<And>j. j \<noteq> SETTINGS_ADOPT \<Longrightarrow> ic w' j = ic w j"
      "sc w' SETTINGS_ADOPT \<in> {sc w SETTINGS_ADOPT, None}"
      "\<And>out. r = Inr out \<Longrightarrow> out = Nothing \<or> (\<exists>why. out = Refused why)"
      "(\<exists>out. r = Inr out) \<Longrightarrow> sc w' SETTINGS_ADOPT = None"
      "\<And>container c pinned. boot_decision P B E J S I w w my_did \<noteq> Take container c pinned"
  | (stopped) container c pinned w1 e where "boot_decision P B E J S I w w my_did = Take container c pinned"
      "put_each I w (owner_entries c container) = (Inl e, w1)" "w' = w1" "r = Inl e" "good w'"
      "sc w' SETTINGS_ADOPT = Some container"
  | (taken) container c pinned w1 where "boot_decision P B E J S I w w my_did = Take container c pinned"
      "put_each I w (owner_entries c container) = (Inr (), w1)" "good w'"
      "\<And>j. j \<noteq> SETTINGS_ADOPT \<Longrightarrow> ic w' j = (ic w ++ map_of (rev (owner_entries c container))) j"
      "(\<exists>e. r = Inl e) \<and> sc w' SETTINGS_ADOPT \<in> {Some container, None} \<or>
        r = Inr (owner_taken pinned c) \<and> sc w' SETTINGS_ADOPT = None"
proof (cases "boot_decision P B E J S I w w my_did")
  case (Stop e)
  with run w show thesis by (intro kept) (auto simp: apply_world_decided)
next
  case Leave
  with run w decision_Leave [OF w Leave] show thesis by (intro kept) (auto simp: apply_world_decided)
next
  case (Refuse why)
  with run have c: "clear_world S w (Refused why) = (r, w')" by (simp add: apply_world_decided)
  note f = clear_world_cases [OF w c]
  show thesis
    using f(4) Refuse by (intro kept [OF f(1,2)]) auto
next
  case (Take container c pinned)
  note t = decision_Take [OF w Take]
  obtain q w1 where q: "put_each I w (owner_entries c container) = (q, w1)"
    by (cases "put_each I w (owner_entries c container)")
  note s = put_each_sc [OF w q owner_keys_not_adopt]
  show thesis
  proof (cases q)
    case (Inl e)
    with q run Take s t(1) show thesis by (intro stopped [OF Take]) (auto simp: apply_world_decided)
  next
    case (Inr u)
    with q run Take have cw: "clear_world S w1 (owner_taken pinned c) = (r, w')"
      by (simp add: apply_world_decided)
    note f = clear_world_cases [OF conjunct1 [OF s] cw]
    have q': "put_each I w (owner_entries c container) = (Inr (), w1)" using q Inr by simp
    note d = identity.put_each_done [OF w owner_entries_storable [OF t(2,3)] q']
    show thesis
    proof (rule taken [OF Take q' f(1)])
      show "ic w' j = (ic w ++ map_of (rev (owner_entries c container))) j" if "j \<noteq> SETTINGS_ADOPT" for j
        using f(2) [OF that] d by simp
      show "(\<exists>e. r = Inl e) \<and> sc w' SETTINGS_ADOPT \<in> {Some container, None} \<or>
          r = Inr (owner_taken pinned c) \<and> sc w' SETTINGS_ADOPT = None"
        using f(4) s t(1) by auto
    qed
  qed
qed

lemma apply_world_Nothing:
  assumes "good w" "apply_world P B E J S I w my_did = (Inr Nothing, w')"
  shows "w' = w \<and> sc w SETTINGS_ADOPT = None"
proof (cases "boot_decision P B E J S I w w my_did")
  case Leave
  with assms decision_Leave [OF assms(1) Leave] show ?thesis by (simp add: apply_world_decided)
qed (use assms(2) in \<open>auto simp: apply_world_decided clear_world_def owner_taken_def
  split: prod.split_asm sum.split_asm if_split_asm\<close>)

end

section \<open>One namespace, or two stores apart\<close>

text \<open>Any store that holds what an adoption needs may be lent twice.\<close>

lemma one_namespace:
  assumes "kv_store K contents good storable" "\<And>v. length v \<le> ADOPT_MAX \<Longrightarrow> storable v"
  shows "shared_stores K contents good storable K contents storable"
proof (intro shared_stores.intro shared_stores_axioms.intro boot_stores.intro boot_stores_axioms.intro)
  show "kv_store K contents good storable" by (rule assms(1))
  show "length v \<le> ADOPT_MAX \<Longrightarrow> storable v" for v by (rule assms(2))
qed (use kv_store.put_frame [OF assms(1)] kv_store.remove_frame [OF assms(1)] assms(1) in blast)+

interpretation one_mem: shared_stores mem_kv map_of "\<lambda>_. True" "\<lambda>_. True" mem_kv map_of "\<lambda>_. True"
  by (rule one_namespace [OF mem.kv_store_axioms]) simp

text \<open>An ESP-IDF namespace lent twice.\<close>

sublocale idf_namespace \<subseteq> lent: shared_stores "nvs_kv N check_key" "nvs_contents entry" "\<lambda>_. True"
  "\<lambda>_. True" "nvs_kv N check_key" "nvs_contents entry" "\<lambda>_. True"
  by (rule one_namespace [OF contract]) simp

text \<open>Two stores side by side, each on its half of the state.\<close>

definition on_fst :: "'s kv \<Rightarrow> ('s \<times> 'i) kv" where
  "on_fst K = \<lparr>
     kv_get = (\<lambda>w. kv_get K (fst w)),
     kv_put = (\<lambda>w k v. case kv_put K (fst w) k v of (r, s) \<Rightarrow> (r, (s, snd w))),
     kv_remove = (\<lambda>w k. case kv_remove K (fst w) k of (r, s) \<Rightarrow> (r, (s, snd w)))\<rparr>"

definition on_snd :: "'i kv \<Rightarrow> ('s \<times> 'i) kv" where
  "on_snd K = \<lparr>
     kv_get = (\<lambda>w. kv_get K (snd w)),
     kv_put = (\<lambda>w k v. case kv_put K (snd w) k v of (r, i) \<Rightarrow> (r, (fst w, i))),
     kv_remove = (\<lambda>w k. case kv_remove K (snd w) k of (r, i) \<Rightarrow> (r, (fst w, i)))\<rparr>"

lemma on_fst_ops:
  "kv_get (on_fst K) w = kv_get K (fst w)"
  "kv_put (on_fst K) w k v = (r, w') \<longleftrightarrow> kv_put K (fst w) k v = (r, fst w') \<and> snd w' = snd w"
  "kv_remove (on_fst K) w k = (rr, w') \<longleftrightarrow> kv_remove K (fst w) k = (rr, fst w') \<and> snd w' = snd w"
  by (cases w'; auto simp: on_fst_def split: prod.splits)+

lemma kv_on_fst:
  assumes "kv_store K contents ok storable"
  shows "kv_store (on_fst K) (\<lambda>w. contents (fst w)) (\<lambda>w. ok (fst w) \<and> other (snd w)) storable"
  apply (intro kv_store.intro; unfold on_fst_ops)
  subgoal using kv_store.get_value [OF assms] by metis
  subgoal using kv_store.get_small [OF assms] by metis
  subgoal using kv_store.get_no_panic [OF assms] by blast
  subgoal using kv_store.put_frame [OF assms] by metis
  subgoal using kv_store.put_value [OF assms] by metis
  subgoal using kv_store.put_failed [OF assms] by metis
  subgoal using kv_store.remove_frame [OF assms] by metis
  subgoal using kv_store.remove_value [OF assms] by metis
  subgoal using kv_store.remove_failed [OF assms] by metis
  done

lemma on_snd_ops:
  "kv_get (on_snd K) w = kv_get K (snd w)"
  "kv_put (on_snd K) w k v = (r, w') \<longleftrightarrow> kv_put K (snd w) k v = (r, snd w') \<and> fst w' = fst w"
  "kv_remove (on_snd K) w k = (rr, w') \<longleftrightarrow> kv_remove K (snd w) k = (rr, snd w') \<and> fst w' = fst w"
  by (cases w'; auto simp: on_snd_def split: prod.splits)+

lemma kv_on_snd:
  assumes "kv_store K contents ok storable"
  shows "kv_store (on_snd K) (\<lambda>w. contents (snd w)) (\<lambda>w. other (fst w) \<and> ok (snd w)) storable"
  apply (intro kv_store.intro; unfold on_snd_ops)
  subgoal using kv_store.get_value [OF assms] by metis
  subgoal using kv_store.get_small [OF assms] by metis
  subgoal using kv_store.get_no_panic [OF assms] by blast
  subgoal using kv_store.put_frame [OF assms] by metis
  subgoal using kv_store.put_value [OF assms] by metis
  subgoal using kv_store.put_failed [OF assms] by metis
  subgoal using kv_store.remove_frame [OF assms] by metis
  subgoal using kv_store.remove_value [OF assms] by metis
  subgoal using kv_store.remove_failed [OF assms] by metis
  done

lemma stores_apart:
  assumes "boot_stores S sc sinv sst I ic iinv ist"
  shows "shared_stores (on_fst S) (\<lambda>w. sc (fst w)) (\<lambda>w. sinv (fst w) \<and> iinv (snd w)) sst
    (on_snd I) (\<lambda>w. ic (snd w)) ist"
proof (intro shared_stores.intro shared_stores_axioms.intro boot_stores.intro boot_stores_axioms.intro)
  show "kv_store (on_fst S) (\<lambda>w. sc (fst w)) (\<lambda>w. sinv (fst w) \<and> iinv (snd w)) sst"
    by (rule kv_on_fst) (rule boot_stores.axioms(1) [OF assms])
  show "kv_store (on_snd I) (\<lambda>w. ic (snd w)) (\<lambda>w. sinv (fst w) \<and> iinv (snd w)) ist"
    by (rule kv_on_snd) (rule boot_stores.axioms(2) [OF assms])
  show "length v \<le> ADOPT_MAX \<Longrightarrow> ist v" for v by (rule boot_stores.identity_storable [OF assms])
qed (auto simp: on_fst_def on_snd_def split: prod.splits)

text \<open>Over stores apart the shared boot is the boot.\<close>

lemma put_each_on_snd:
  "put_each (on_snd I) (s, i) kvs = (case put_each I i kvs of (r, i) \<Rightarrow> (r, (s, i)))"
  by (induction I i kvs rule: put_each.induct) (auto simp: on_snd_def split: prod.splits sum.splits)

lemma boot_decision_apart:
  "boot_decision P B E J (on_fst S) (on_snd I) (s, i) (s, i) my_did = boot_decision P B E J S I s i my_did"
  by (simp only: boot_decision_def stored_pin_def on_fst_ops(1) on_snd_ops(1) fst_conv snd_conv)

lemma clear_world_apart:
  "clear_world (on_fst S) (s, i) out = (case clear_then S s i out of (r, w) \<Rightarrow> (r, w))"
  by (auto simp: clear_world_def clear_then_def on_fst_def split: prod.splits sum.splits)

lemma apply_world_apart:
  "apply_world P B E J (on_fst S) (on_snd I) (s, i) my_did = apply_settings P B E J S I s i my_did"
  by (auto simp: apply_world_decided apply_decided boot_decision_apart put_each_on_snd clear_world_apart
      split: decision.splits prod.splits sum.splits)

end
