(* ===== verification/Device.thy ===== *)
theory Device
  imports Shared_Stores Settings_Samples
begin

text \<open>
  A device as the sequence of calls its firmware makes on the two stores: the identity loaded or
  minted, plainly or through the cache, hashes signed through the signature cache, adoptions
  applied, the owner forgotten, the setup records kept, and whatever else the settings' owner
  writes. The stores share one state, any call of theirs may fail, and the calls come in any
  order. What holds of every such run: the device key never changes, the public-key cache never
  lies, and the owner stays until forgotten.
\<close>

section \<open>The calls\<close>

datatype ('sk, 'vk) device_call =
    Load_key rstr
  | Load_key_cached rstr
  | Sign_cached "('sk, 'vk) device_key" bytes bytes
  | Apply_adoption rstr
  | Forget_owner
  | Keep_verifier bytes
  | Keep_failures u8
  | Settings_put bytes bytes
  | Settings_remove bytes

fun device_step ::
  "('sk, 'vk, 'sig) prims \<Rightarrow> bs58 \<Rightarrow> b64 \<Rightarrow> json_codec \<Rightarrow> 'w kv \<Rightarrow> 'w kv \<Rightarrow> 'r rng
     \<Rightarrow> ('sk, 'vk) device_call \<Rightarrow> 'w \<times> 'r \<Rightarrow> 'w \<times> 'r"
where
  "device_step P B E J S I fill (Load_key device_id) (w, r) = snd (load_or_generate P I fill w r device_id)"
| "device_step P B E J S I fill (Load_key_cached device_id) (w, r) =
     snd (load_or_generate_cached P I fill w r device_id)"
| "device_step P B E J S I fill (Sign_cached key name prehash) (w, r) =
     (snd (sign_prehash_cached P I w key name prehash), r)"
| "device_step P B E J S I fill (Apply_adoption my_did) (w, r) = (snd (apply_world P B E J S I w my_did), r)"
| "device_step P B E J S I fill Forget_owner (w, r) = (snd (forget I w), r)"
| "device_step P B E J S I fill (Keep_verifier v) (w, r) = (snd (store_verifier S w v), r)"
| "device_step P B E J S I fill (Keep_failures n) (w, r) = (snd (store_failures S w n), r)"
| "device_step P B E J S I fill (Settings_put k v) (w, r) = (snd (kv_put S w k v), r)"
| "device_step P B E J S I fill (Settings_remove k) (w, r) = (snd (kv_remove S w k), r)"

definition device_run ::
  "('sk, 'vk, 'sig) prims \<Rightarrow> bs58 \<Rightarrow> b64 \<Rightarrow> json_codec \<Rightarrow> 'w kv \<Rightarrow> 'w kv \<Rightarrow> 'r rng
     \<Rightarrow> ('sk, 'vk) device_call list \<Rightarrow> 'w \<times> 'r \<Rightarrow> 'w \<times> 'r" where
  "device_run P B E J S I fill calls w = fold (device_step P B E J S I fill) calls w"

text \<open>The identity's own records; a caller's cache and an owner's settings have other names.\<close>

definition identity_records :: "bytes set" where
  "identity_records = {KV_KEY, KV_PUB, KV_OWNER_PIN, KV_ADOPTION, KV_ADOPTION_KIND, KV_PIN_PROVISIONAL}"

fun call_ok :: "('sk, 'vk) device_call \<Rightarrow> bool" where
  "call_ok (Sign_cached key name prehash) \<longleftrightarrow> name \<notin> identity_records"
| "call_ok (Settings_put k v) \<longleftrightarrow> k \<notin> identity_records"
| "call_ok (Settings_remove k) \<longleftrightarrow> k \<notin> identity_records"
| "call_ok _ \<longleftrightarrow> True"

fun forgets :: "('sk, 'vk) device_call \<Rightarrow> bool" where
  "forgets Forget_owner \<longleftrightarrow> True"
| "forgets _ \<longleftrightarrow> False"

lemma record_names [simp]:
  "KV_KEY \<in> identity_records" "KV_PUB \<in> identity_records" "KV_OWNER_PIN \<in> identity_records"
  "SETTINGS_ADOPT \<notin> identity_records" "KV_SETUP_VERIFIER \<notin> identity_records"
  "KV_SETUP_FAILURES \<notin> identity_records" "KV_KEY \<noteq> KV_PUB" "KV_KEY \<noteq> KV_OWNER_PIN" "KV_PUB \<noteq> KV_OWNER_PIN"
  "KV_KEY \<noteq> KV_ADOPTION" "KV_KEY \<noteq> KV_ADOPTION_KIND" "KV_KEY \<noteq> KV_PIN_PROVISIONAL"
  "KV_PUB \<noteq> KV_ADOPTION" "KV_PUB \<noteq> KV_ADOPTION_KIND" "KV_PUB \<noteq> KV_PIN_PROVISIONAL"
  by (simp_all add: identity_records_def KV_KEY_def KV_PUB_def KV_OWNER_PIN_def KV_ADOPTION_def
      KV_ADOPTION_KIND_def KV_PIN_PROVISIONAL_def SETTINGS_ADOPT_def KV_SETUP_VERIFIER_def
      KV_SETUP_FAILURES_def)

lemmas record_names' [simp] = record_names(7-15) [symmetric]

text \<open>Every name an ESP32's NVS can hold: 15 bytes at most.\<close>

lemma record_names_fit:
  "\<forall>k \<in> identity_records \<union> {SETTINGS_ADOPT, KV_SETUP_VERIFIER, KV_SETUP_FAILURES}. length k \<le> 15"
  by (simp add: identity_records_def KV_KEY_def KV_PUB_def KV_OWNER_PIN_def KV_ADOPTION_def
      KV_ADOPTION_KIND_def KV_PIN_PROVISIONAL_def SETTINGS_ADOPT_def KV_SETUP_VERIFIER_def
      KV_SETUP_FAILURES_def)

section \<open>What each call leaves alone\<close>

context kv_store
begin

lemma put_snd:
  assumes "inv s"
  shows "inv (snd (kv_put K s k v))"
    and "j \<noteq> k \<Longrightarrow> contents (snd (kv_put K s k v)) j = contents s j"
    and "storable v \<Longrightarrow> contents (snd (kv_put K s k v)) k \<in> {contents s k, None, Some v}"
proof -
  obtain r s' where p: "kv_put K s k v = (r, s')" by (rule prod.exhaust)
  with put_frame [OF assms p]
  show "inv (snd (kv_put K s k v))" "j \<noteq> k \<Longrightarrow> contents (snd (kv_put K s k v)) j = contents s j" by simp_all
  show "contents (snd (kv_put K s k v)) k \<in> {contents s k, None, Some v}" if "storable v"
    using p put_value [OF assms that] put_failed [OF assms that] by (cases r) simp_all
qed

lemma remove_snd:
  assumes "inv s"
  shows "inv (snd (kv_remove K s k))"
    and "j \<noteq> k \<Longrightarrow> contents (snd (kv_remove K s k)) j = contents s j"
  using remove_frame [OF assms surjective_pairing] by blast+

lemma remove_each_frame:
  "inv s \<Longrightarrow> inv (snd (remove_each K s ks)) \<and>
     (\<forall>j. j \<notin> set ks \<longrightarrow> contents (snd (remove_each K s ks)) j = contents s j)"
proof (induction ks arbitrary: s)
  case (Cons k ks)
  obtain q s1 where q: "kv_remove K s k = (q, s1)" by (rule prod.exhaust)
  with remove_frame [OF Cons.prems q] have "inv s1" "\<And>j. j \<noteq> k \<Longrightarrow> contents s1 j = contents s j"
    by simp_all
  with q Cons.IH [of s1] show ?case by (cases q) simp_all
qed simp

lemma forget_frame:
  assumes "inv s"
  shows "inv (snd (forget K s))" and "j \<notin> owner_keys \<Longrightarrow> contents (snd (forget K s)) j = contents s j"
proof -
  let ?ks = "[KV_ADOPTION, KV_ADOPTION_KIND, KV_PIN_PROVISIONAL, KV_OWNER_PIN]"
  have "snd (forget K s) = s \<or> snd (forget K s) = snd (remove_each K s ?ks)"
    by (auto simp: forget_def simp del: remove_each.simps split: sum.splits prod.splits)
  with remove_each_frame [OF assms, of ?ks] assms
  show "inv (snd (forget K s))" "j \<notin> owner_keys \<Longrightarrow> contents (snd (forget K s)) j = contents s j"
    by (auto simp: owner_keys_def simp del: remove_each.simps)
qed

text \<open>A load that finds an entry, readable or not, writes nothing; one that finds none writes a new key.\<close>

lemma load_None:
  assumes "inv s" "load P K s did = Inr None"
  shows "contents s KV_KEY = None"
proof -
  from assms(2) obtain got where got: "kv_get K s KV_KEY 32 = Inr got"
    by (auto simp: load_def bind_res_eq_Inr)
  with assms(2) have "got = None"
    by (cases got) (auto simp: load_def bind_res_eq_Inr split: if_split_asm)
  with get_value [OF assms(1) got] show ?thesis by simp
qed

lemma load_or_generate_frame:
  assumes "inv s"
  shows "inv (fst (snd (load_or_generate P K fill s r did)))"
    and "j \<noteq> KV_KEY \<or> contents s KV_KEY \<noteq> None \<Longrightarrow>
      contents (fst (snd (load_or_generate P K fill s r did))) j = contents s j"
proof -
  let ?s = "fst (snd (load_or_generate P K fill s r did))"
  have "?s = s \<or> load P K s did = Inr None \<and> (\<exists>v q. kv_put K s KV_KEY v = (q, ?s))"
    by (auto simp: load_or_generate_def store_def split: sum.split option.split prod.split)
  with assms put_frame [OF assms] load_None [OF assms]
  show "inv ?s" "j \<noteq> KV_KEY \<or> contents s KV_KEY \<noteq> None \<Longrightarrow> contents ?s j = contents s j"
    by metis+
qed

lemma load_cached_None:
  assumes "inv s" "load_cached P K s did = (Inr None, s')"
  shows "contents s KV_KEY = None"
proof -
  from assms(2) have "kv_get K s KV_KEY 32 = Inr None"
    by (auto simp: load_cached_def split: sum.split_asm option.split_asm prod.split_asm if_split_asm)
  with get_value [OF assms(1) this] show ?thesis by simp
qed

lemma load_or_generate_cached_held:
  assumes "inv s" "contents s KV_KEY \<noteq> None"
  shows "fst (snd (load_or_generate_cached P K fill s r did)) = snd (load_cached P K s did)"
  using load_cached_None [OF assms(1), of P did] assms(2)
  by (auto simp: load_or_generate_cached_def split: prod.split sum.split option.split)

lemma load_or_generate_cached_frame:
  assumes "inv s"
  shows "inv (fst (snd (load_or_generate_cached P K fill s r did)))"
    and "j \<notin> {KV_KEY, KV_PUB} \<Longrightarrow>
      contents (fst (snd (load_or_generate_cached P K fill s r did))) j = contents s j"
proof -
  let ?s = "fst (snd (load_or_generate_cached P K fill s r did))"
  obtain a c where a: "load_cached P K s did = (a, c)" by (rule prod.exhaust)
  have c: "inv c" "\<And>j. j \<noteq> KV_PUB \<Longrightarrow> contents c j = contents s j"
    using load_cached_frame [OF assms, where P = P and did = did] a by simp_all
  obtain g r1 where g: "generate P fill r did = (g, r1)" by (rule prod.exhaust)
  have "?s = c \<or> (\<exists>v q. kv_put K c KV_KEY v = (q, ?s)) \<or>
      (\<exists>v q s1 u. kv_put K c KV_KEY v = (q, s1) \<and> ?s = snd (kv_put K s1 KV_PUB u))"
  proof (cases "\<exists>key. a = Inr None \<and> g = Inr key")
    case True
    then obtain key where key: "a = Inr None" "g = Inr key" by blast
    obtain q s1 where st: "kv_put K c KV_KEY (secret_bytes P key) = (q, s1)" by (rule prod.exhaust)
    have "load_or_generate_cached P K fill s r did =
        (case q of Inl e \<Rightarrow> (Inl e, s1, r1) | Inr _ \<Rightarrow> (Inr key, store_pub P K s1 key (secret_bytes P key), r1))"
      by (simp add: load_or_generate_cached_def a g key store_def st)
    then have "?s = snd (kv_put K s1 KV_PUB (pub_entry P key (secret_bytes P key))) \<or> ?s = s1"
      by (cases q) (simp_all add: store_pub_def)
    with st show ?thesis by blast
  next
    case False
    then consider e where "a = Inl e" | key where "a = Inr (Some key)" | e where "a = Inr None" "g = Inl e"
      by (cases a; cases g) auto
    then have "?s = c" by cases (simp_all add: load_or_generate_cached_def a g)
    then show ?thesis by simp
  qed
  then have "inv ?s \<and> (j \<notin> {KV_KEY, KV_PUB} \<longrightarrow> contents ?s j = contents s j)"
  proof (elim disjE exE conjE)
    assume "?s = c"
    with c show ?thesis by simp
  next
    fix v q
    assume "kv_put K c KV_KEY v = (q, ?s)"
    with put_frame [OF c(1)] c(2) show ?thesis by fastforce
  next
    fix v q s1 u
    assume p: "kv_put K c KV_KEY v = (q, s1)" and u: "?s = snd (kv_put K s1 KV_PUB u)"
    from put_frame [OF c(1) p] have s1: "inv s1" "\<And>j. j \<noteq> KV_KEY \<Longrightarrow> contents s1 j = contents c j" by simp_all
    with put_snd(1,2) [OF s1(1)] c(2) show ?thesis unfolding u by simp
  qed
  then show "inv ?s" "j \<notin> {KV_KEY, KV_PUB} \<Longrightarrow> contents ?s j = contents s j" by blast+
qed

text \<open>The cached load writes the public key's own entry, or nothing.\<close>

lemma load_cached_step:
  assumes P: "prims_ok P" and s: "inv s" and held: "contents s KV_KEY = Some (secret_bytes P key)"
  shows "snd (load_cached P K s did) = s \<or> (\<exists>key' q. dk_secret key' = dk_secret key \<and> wf_key P key' \<and>
    kv_put K s KV_PUB (pub_entry P key' (secret_bytes P key)) = (q, snd (load_cached P K s did)))"
proof (cases "snd (load_cached P K s did) = s")
  case False
  then obtain b where g: "kv_get K s KV_KEY 32 = Inr (Some b)"
    and f: "snd (load_cached P K s did) = snd (from_secret_cached P K s b did)"
    by (auto simp: load_cached_def split: sum.split_asm option.split_asm prod.splits if_split_asm)
  have b: "b = secret_bytes P key" using get_value [OF s g] held by simp
  have k: "scalar_from_repr P b = Some (dk_secret key)"
    using prims_okD(4) [OF P] by (simp add: b secret_bytes_def)
  from False f k obtain d where d: "device_id_new did = Inr d"
    and st: "snd (load_cached P K s did) = store_pub P K s
      \<lparr>dk_secret = dk_secret key, dk_public = public_of P (dk_secret key), dk_device_id = d\<rparr> b"
    by (auto simp: from_secret_cached_def Let_def split: sum.split_asm option.split_asm)
  let ?key = "\<lparr>dk_secret = dk_secret key, dk_public = public_of P (dk_secret key), dk_device_id = d\<rparr>"
  have "wf_key P ?key" using device_id_new_Inr(1) [OF d] by (simp add: wf_key_def)
  moreover have "kv_put K s KV_PUB (pub_entry P ?key b) =
      (fst (kv_put K s KV_PUB (pub_entry P ?key b)), snd (load_cached P K s did))"
    using st by (simp add: store_pub_def)
  ultimately show ?thesis unfolding b
    by (intro disjI2 exI [of _ ?key]) (auto intro: exI)
qed simp

lemma load_cached_pub:
  assumes P: "prims_ok P" and s: "inv s" and held: "contents s KV_KEY = Some (secret_bytes P key)"
    and h: "pub_honest P (dk_secret key) (contents s KV_PUB)" and st: "\<And>v. length v = 97 \<Longrightarrow> storable v"
  shows "pub_honest P (dk_secret key) (contents (snd (load_cached P K s did)) KV_PUB)"
  using load_cached_step [OF P s held, of did]
proof (elim disjE exE conjE)
  assume "snd (load_cached P K s did) = s"
  with h show ?thesis by simp
next
  fix key' q
  assume k: "dk_secret key' = dk_secret key" "wf_key P key'"
    and p: "kv_put K s KV_PUB (pub_entry P key' (secret_bytes P key)) = (q, snd (load_cached P K s did))"
  have "contents (snd (load_cached P K s did)) KV_PUB \<in>
      {contents s KV_PUB, None, Some (pub_entry P key' (secret_bytes P key))}"
    using put_snd(3) [OF s st [OF length_pub_entry [OF P]], of KV_PUB] p by (metis snd_conv)
  with h pub_honest_entry [OF P k(2), of "secret_bytes P key"] show ?thesis
    by (auto simp: k(1)) (simp add: pub_honest_def)
qed

lemma sign_cached_frame:
  assumes "inv s"
  shows "inv (snd (sign_prehash_cached P K s key name h))"
    and "j \<noteq> name \<Longrightarrow> contents (snd (sign_prehash_cached P K s key name h)) j = contents s j"
proof -
  let ?s = "snd (sign_prehash_cached P K s key name h)"
  have "?s = s \<or> (\<exists>v. ?s = snd (kv_put K s name v))"
    by (auto simp: sign_prehash_cached_def Let_def split: sum.split option.split)
  with assms put_snd(1,2) [OF assms]
  show "inv ?s" "j \<noteq> name \<Longrightarrow> contents ?s j = contents s j" by metis+
qed

end

context kv_atomic
begin

lemma put_each_atomic:
  assumes "inv s" "\<forall>(k, v) \<in> set kvs. storable v" "put_each K s kvs = (r, s')" "distinct (map fst kvs)"
  shows "contents s' j = contents s j \<or> (\<exists>v. (j, v) \<in> set kvs \<and> contents s' j = Some v)"
  using assms
proof (induction kvs arbitrary: s)
  case (Cons kv kvs)
  obtain k v where kv: "kv = (k, v)" by (cases kv)
  obtain res s1 where p: "kv_put K s k v = (res, s1)" by (rule prod.exhaust)
  have v: "storable v" using Cons.prems(2) by (simp add: kv)
  have f: "inv s1" "\<And>j. j \<noteq> k \<Longrightarrow> contents s1 j = contents s j" using put_frame [OF Cons.prems(1) p] by auto
  have k: "contents s1 k \<in> {contents s k, Some v}"
    using put_value [OF Cons.prems(1) v] put_atomic [OF Cons.prems(1) v] p by (cases res) auto
  show ?case
  proof (cases res)
    case (Inl e)
    with Cons.prems(3) p have "s' = s1" by (simp add: kv)
    with f(2) k show ?thesis by (cases "j = k") (auto simp: kv)
  next
    case (Inr u)
    with Cons.prems(3) p have "put_each K s1 kvs = (r, s')" by (simp add: kv)
    from Cons.IH [OF f(1) _ this] Cons.prems(2,4)
    have ih: "contents s' j = contents s1 j \<or> (\<exists>v. (j, v) \<in> set kvs \<and> contents s' j = Some v)" by auto
    show ?thesis
    proof (cases "j = k")
      case True
      have "(k, va) \<notin> set kvs" for va using Cons.prems(4) by (force simp: kv)
      with ih k True show ?thesis by (auto simp: kv)
    next
      case False
      with ih f(2) show ?thesis by (auto simp: kv)
    qed
  qed
qed simp

end

section \<open>What holds of every run\<close>

definition key_kept ::
  "('sk, 'vk, 'sig) prims \<Rightarrow> ('sk, 'vk) device_key \<Rightarrow> (bytes \<Rightarrow> bytes option) \<Rightarrow> bool" where
  "key_kept P key m \<longleftrightarrow> m KV_KEY = Some (secret_bytes P key) \<and> pub_honest P (dk_secret key) (m KV_PUB)"

definition owner_kept :: "owner_pin \<Rightarrow> (bytes \<Rightarrow> bytes option) \<Rightarrow> bool" where
  "owner_kept p m \<longleftrightarrow> (\<exists>q. pin_in m = Some q \<and> genesis_pubkey q = genesis_pubkey p \<and>
     roster_version p \<le> roster_version q)"

lemma owner_entries_keys: "fst ` set (owner_entries c container) = owner_keys"
  by (auto simp: owner_entries_def owner_keys_def)

lemma owner_entries_other:
  assumes "j \<notin> owner_keys"
  shows "map_of (rev (owner_entries c container)) j = None" and "(j, v) \<notin> set (owner_entries c container)"
  using assms by (auto simp: owner_entries_def owner_keys_def)

lemma owner_keys_records: "owner_keys \<subseteq> identity_records" "KV_KEY \<notin> owner_keys" "KV_PUB \<notin> owner_keys"
    "SETTINGS_ADOPT \<notin> owner_keys"
  using record_names(4) by (auto simp: owner_keys_def identity_records_def)

text \<open>Of the identity's records a call changes only its own.\<close>

fun call_records :: "('sk, 'vk) device_call \<Rightarrow> bytes set" where
  "call_records (Load_key device_id) = {KV_KEY}"
| "call_records (Load_key_cached device_id) = {KV_KEY, KV_PUB}"
| "call_records (Apply_adoption my_did) = owner_keys"
| "call_records Forget_owner = owner_keys"
| "call_records _ = {}"

lemma pin_in_same: "m' KV_OWNER_PIN = m KV_OWNER_PIN \<Longrightarrow> pin_in m' = pin_in m"
  by (simp add: pin_in_def)

context shared_stores
begin

lemma apply_world_other:
  assumes w: "good w"
  shows "good (snd (apply_world P B E J S I w my_did))"
    and "j \<notin> owner_keys \<Longrightarrow> j \<noteq> SETTINGS_ADOPT \<Longrightarrow>
      ic (snd (apply_world P B E J S I w my_did)) j = ic w j"
proof -
  obtain r w' where run: "apply_world P B E J S I w my_did = (r, w')" by (rule prod.exhaust)
  have "good w' \<and> (j \<notin> owner_keys \<and> j \<noteq> SETTINGS_ADOPT \<longrightarrow> ic w' j = ic w j)"
    using w run
  proof (cases rule: apply_world_frame)
    case kept
    then show ?thesis by blast
  next
    case (stopped container c pinned w1 e)
    note t = decision_Take(2,3) [OF w stopped(1)]
    have "distinct (map fst (owner_entries c container))" by (simp add: owner_entries_def)
    from identity.put_each_stopped [OF w owner_entries_storable [OF t] stopped(2) this] stopped(3,5)
      owner_entries_other(2)
    show ?thesis by metis
  next
    case (taken container c pinned w1)
    with owner_entries_other(1) [of j c container] show ?thesis by (auto simp: map_add_def)
  qed
  with run show "good (snd (apply_world P B E J S I w my_did))"
    "j \<notin> owner_keys \<Longrightarrow> j \<noteq> SETTINGS_ADOPT \<Longrightarrow> ic (snd (apply_world P B E J S I w my_did)) j = ic w j"
    by simp_all
qed

lemma settings_put_other:
  assumes "good w"
  shows "good (snd (kv_put S w k v))" and "j \<noteq> k \<Longrightarrow> ic (snd (kv_put S w k v)) j = ic w j"
  using settings.put_snd(1) [OF assms] settings_put_ic [OF assms surjective_pairing] by blast+

lemma settings_remove_other:
  assumes "good w"
  shows "good (snd (kv_remove S w k))" and "j \<noteq> k \<Longrightarrow> ic (snd (kv_remove S w k)) j = ic w j"
  using settings.remove_snd(1) [OF assms] settings_remove_ic [OF assms surjective_pairing] by blast+

lemma call_frame:
  assumes w: "good w" and call: "call_ok call"
  shows "good (fst (device_step P B E J S I fill call (w, r)))"
    and "j \<in> identity_records \<Longrightarrow> j \<notin> call_records call \<Longrightarrow>
      ic (fst (device_step P B E J S I fill call (w, r))) j = ic w j"
proof -
  have "good (fst (device_step P B E J S I fill call (w, r))) \<and>
    (j \<in> identity_records \<and> j \<notin> call_records call \<longrightarrow>
      ic (fst (device_step P B E J S I fill call (w, r))) j = ic w j)"
  proof (cases call)
    case (Load_key device_id)
    with identity.load_or_generate_frame(1) [OF w, of P fill r device_id]
      identity.load_or_generate_frame(2) [OF w, of j P fill r device_id] show ?thesis by simp
  next
    case (Load_key_cached device_id)
    with identity.load_or_generate_cached_frame(1) [OF w, of P fill r device_id]
      identity.load_or_generate_cached_frame(2) [OF w, of j P fill r device_id] show ?thesis by simp
  next
    case (Sign_cached key name prehash)
    have "j \<noteq> name" if "j \<in> identity_records" using that call Sign_cached by auto
    with Sign_cached identity.sign_cached_frame(1) [OF w, of P key name prehash]
      identity.sign_cached_frame(2) [OF w, of j name P key prehash] show ?thesis by simp
  next
    case (Apply_adoption my_did)
    have "j \<noteq> SETTINGS_ADOPT" if "j \<in> identity_records" using that record_names(4) by blast
    with Apply_adoption apply_world_other(1) [OF w, of P B E J my_did]
      apply_world_other(2) [OF w, of j P B E J my_did] show ?thesis by simp
  next
    case Forget_owner
    with identity.forget_frame [OF w] show ?thesis by simp
  next
    case (Keep_verifier v)
    have "j \<noteq> KV_SETUP_VERIFIER" if "j \<in> identity_records" using that record_names(5) by blast
    with Keep_verifier settings_put_other [OF w] show ?thesis by (simp add: store_verifier_def)
  next
    case (Keep_failures n)
    have "j \<noteq> KV_SETUP_FAILURES" if "j \<in> identity_records" using that record_names(6) by blast
    with Keep_failures settings_put_other [OF w] show ?thesis by (simp add: store_failures_def)
  next
    case (Settings_put k v)
    have "j \<noteq> k" if "j \<in> identity_records" using that call Settings_put by auto
    with Settings_put settings_put_other [OF w] show ?thesis by simp
  next
    case (Settings_remove k)
    have "j \<noteq> k" if "j \<in> identity_records" using that call Settings_remove by auto
    with Settings_remove settings_remove_other [OF w] show ?thesis by simp
  qed
  then show "good (fst (device_step P B E J S I fill call (w, r)))"
    "j \<in> identity_records \<Longrightarrow> j \<notin> call_records call \<Longrightarrow>
      ic (fst (device_step P B E J S I fill call (w, r))) j = ic w j" by blast+
qed

lemma step_keeps_key:
  assumes P: "prims_ok P" and w: "good w" and key: "key_kept P key (ic w)" and call: "call_ok call"
  shows "key_kept P key (ic (fst (device_step P B E J S I fill call (w, r))))"
proof (cases "KV_KEY \<in> call_records call \<or> KV_PUB \<in> call_records call")
  case False
  then have "ic (fst (device_step P B E J S I fill call (w, r))) KV_KEY = ic w KV_KEY"
    "ic (fst (device_step P B E J S I fill call (w, r))) KV_PUB = ic w KV_PUB"
    by (simp_all add: call_frame(2) [OF w call])
  with key show ?thesis by (simp add: key_kept_def)
next
  case True
  from key have held: "ic w KV_KEY = Some (secret_bytes P key)"
    and h: "pub_honest P (dk_secret key) (ic w KV_PUB)" by (simp_all add: key_kept_def)
  from True owner_keys_records(2,3) consider (plain) d where "call = Load_key d"
    | (cached) d where "call = Load_key_cached d"
    by (cases call) auto
  then show ?thesis
  proof cases
    case plain
    with identity.load_or_generate_frame(2) [OF w, of KV_KEY P fill r d]
      identity.load_or_generate_frame(2) [OF w, of KV_PUB P fill r d] held h
    show ?thesis by (simp add: key_kept_def)
  next
    case cached
    have st: "ist v" if "length v = 97" for v using that by (intro identity_storable) simp
    from cached identity.load_or_generate_cached_held [OF w, of P fill r d] held
    have "fst (device_step P B E J S I fill call (w, r)) = snd (load_cached P I w d)" by simp
    with identity.load_cached_frame(2) [OF w, of KV_KEY P d] identity.load_cached_pub [OF P w held h st] held
    show ?thesis by (simp add: key_kept_def)
  qed
qed

lemma run_keeps_key:
  assumes P: "prims_ok P"
  shows "good w \<Longrightarrow> key_kept P key (ic w) \<Longrightarrow> list_all call_ok calls \<Longrightarrow>
    good (fst (device_run P B E J S I fill calls (w, r))) \<and>
    key_kept P key (ic (fst (device_run P B E J S I fill calls (w, r))))"
proof (induction calls arbitrary: w r)
  case (Cons call calls)
  obtain w1 r1 where w1: "device_step P B E J S I fill call (w, r) = (w1, r1)" by (rule prod.exhaust)
  from Cons.prems(3) have ok: "call_ok call" by simp
  from call_frame(1) [OF Cons.prems(1) ok, of P B E J fill r] step_keeps_key [OF P Cons.prems(1,2) ok, of B E J fill r]
    Cons.IH [of w1 r1] Cons.prems(3) w1
  show ?case by (simp add: device_run_def)
qed (simp add: device_run_def)

end

section \<open>The owner, where a failed write loses nothing\<close>

locale shared_atomic = shared_stores S sc good sst I ic ist + atomic: kv_atomic I ic good ist
  for S :: "'w kv" and sc :: "'w \<Rightarrow> bytes \<Rightarrow> bytes option" and good :: "'w \<Rightarrow> bool"
    and sst :: "bytes \<Rightarrow> bool" and I :: "'w kv" and ic :: "'w \<Rightarrow> bytes \<Rightarrow> bytes option"
    and ist :: "bytes \<Rightarrow> bool"
begin

lemma apply_world_owner:
  assumes w: "good w" and p: "owner_kept p (ic w)"
  shows "owner_kept p (ic (snd (apply_world P B E J S I w my_did)))"
proof -
  obtain r w' where run: "apply_world P B E J S I w my_did = (r, w')" by (rule prod.exhaust)
  have ne: "KV_OWNER_PIN \<noteq> SETTINGS_ADOPT" by (metis record_names(3,4))
  have new: "owner_kept p m" if d: "boot_decision P B E J S I w w my_did = Take container c pinned"
    and m: "m KV_OWNER_PIN = Some (genesis_pubkey (ck_pin c) @ u32_to_be (roster_version (ck_pin c)))"
    for m container c pinned
  proof -
    note t = decision_Take(3-5) [OF w d]
    have "pin_in (ic w) = pinned" by (rule stored_pin_in [OF w t(2)])
    moreover have "pin_in m = Some (ck_pin c)"
      using m check_statement_pin_length [OF t(1)] by (intro pin_in_entry) simp_all
    ultimately show ?thesis using p t(3) by (auto simp: owner_kept_def pin_allows_def)
  qed
  have "owner_kept p (ic w')"
    using w run
  proof (cases rule: apply_world_frame)
    case kept
    with pin_in_same [of "ic w'" "ic w"] p ne show ?thesis by (simp add: owner_kept_def)
  next
    case (stopped container c pinned w1 e)
    note t = decision_Take(2,3) [OF w stopped(1)]
    have "distinct (map fst (owner_entries c container))" by (simp add: owner_entries_def)
    from atomic.put_each_atomic [OF w owner_entries_storable [OF t] stopped(2) this, of KV_OWNER_PIN] stopped(3)
    have "ic w' KV_OWNER_PIN = ic w KV_OWNER_PIN \<or>
        ic w' KV_OWNER_PIN = Some (genesis_pubkey (ck_pin c) @ u32_to_be (roster_version (ck_pin c)))"
      by (auto simp: owner_entries_def)
    with new [OF stopped(1)] pin_in_same [of "ic w'" "ic w"] p show ?thesis
      by (auto simp: owner_kept_def)
  next
    case (taken container c pinned w1)
    with ne have "ic w' KV_OWNER_PIN =
        Some (genesis_pubkey (ck_pin c) @ u32_to_be (roster_version (ck_pin c)))"
      by (simp add: owner_entries_def)
    then show ?thesis by (rule new [OF taken(1)])
  qed
  with run show ?thesis by simp
qed

lemma step_keeps_owner:
  assumes w: "good w" and p: "owner_kept p (ic w)" and call: "call_ok call" "\<not> forgets call"
  shows "owner_kept p (ic (fst (device_step P B E J S I fill call (w, r))))"
proof (cases "KV_OWNER_PIN \<in> call_records call")
  case False
  with call_frame(2) [OF w call(1)] pin_in_same p show ?thesis
    unfolding owner_kept_def by (metis record_names(3))
next
  case True
  with call(2) obtain my_did where "call = Apply_adoption my_did" by (cases call) auto
  with apply_world_owner [OF w p] show ?thesis by simp
qed

lemma run_keeps_owner:
  "good w \<Longrightarrow> owner_kept p (ic w) \<Longrightarrow> list_all (\<lambda>call. call_ok call \<and> \<not> forgets call) calls \<Longrightarrow>
    good (fst (device_run P B E J S I fill calls (w, r))) \<and>
    owner_kept p (ic (fst (device_run P B E J S I fill calls (w, r))))"
proof (induction calls arbitrary: w r)
  case (Cons call calls)
  obtain w1 r1 where w1: "device_step P B E J S I fill call (w, r) = (w1, r1)" by (rule prod.exhaust)
  from Cons.prems(3) have ok: "call_ok call" "\<not> forgets call" by simp_all
  from call_frame(1) [OF Cons.prems(1) ok(1), of P B E J fill r]
    step_keeps_owner [OF Cons.prems(1,2) ok, of P B E J fill r] Cons.IH [of w1 r1] Cons.prems(3) w1
  show ?case by (simp add: device_run_def)
qed (simp add: device_run_def)

end

interpretation one_mem_atomic: shared_atomic mem_kv map_of "\<lambda>_. True" "\<lambda>_. True" mem_kv map_of "\<lambda>_. True"
  by (intro shared_atomic.intro one_mem.shared_stores_axioms mem_atomic.kv_atomic_axioms)

end
