(* ===== verification/Delivery.thy ===== *)
theory Delivery
  imports Shared_Stores Settings_Samples
begin

text \<open>
  An adoption left in the settings, over the boots that follow. The stores keep their contents but
  not their health: at boot \<open>n\<close> they are \<open>S n\<close> and \<open>I n\<close>, any call of which may fail. A boot either
  leaves the adoption waiting, with the pin one it may still replace, or has taken the owner for good.
\<close>

primrec boot_after ::
  "('sk, 'vk, 'sig) prims \<Rightarrow> bs58 \<Rightarrow> b64 \<Rightarrow> json_codec \<Rightarrow> (nat \<Rightarrow> 'w kv) \<Rightarrow> (nat \<Rightarrow> 'w kv) \<Rightarrow> rstr
     \<Rightarrow> 'w \<Rightarrow> nat \<Rightarrow> 'w" where
  "boot_after P B E J S I my_did w 0 = w"
| "boot_after P B E J S I my_did w (Suc n) =
     snd (apply_world P B E J (S n) (I n) (boot_after P B E J S I my_did w n) my_did)"

definition pin_bytes :: "owner_pin \<Rightarrow> bytes" where
  "pin_bytes p = genesis_pubkey p @ u32_to_be (roster_version p)"

text \<open>No pin, or one the statement may replace.\<close>

definition pin_open :: "checked \<Rightarrow> bytes option \<Rightarrow> bool" where
  "pin_open c held \<longleftrightarrow> (\<exists>pin. held = map_option pin_bytes pin \<and> (\<forall>p. pin = Some p \<longrightarrow> length (genesis_pubkey p) = 33) \<and>
     pin_allows pin (genesis_pubkey (ck_pin c)) (roster_version (ck_pin c)))"

definition waiting ::
  "('w \<Rightarrow> bytes \<Rightarrow> bytes option) \<Rightarrow> ('w \<Rightarrow> bytes \<Rightarrow> bytes option) \<Rightarrow> bytes \<Rightarrow> checked \<Rightarrow> 'w \<Rightarrow> bool" where
  "waiting sc ic container c w \<longleftrightarrow>
     sc w SETTINGS_ADOPT = Some container \<and> pin_open c (ic w KV_OWNER_PIN)"

definition owned ::
  "('w \<Rightarrow> bytes \<Rightarrow> bytes option) \<Rightarrow> ('w \<Rightarrow> bytes \<Rightarrow> bytes option) \<Rightarrow> bytes \<Rightarrow> checked \<Rightarrow> 'w \<Rightarrow> bool" where
  "owned sc ic container c w \<longleftrightarrow> sc w SETTINGS_ADOPT = None \<and>
     list_all (\<lambda>(k, v). ic w k = Some v) (owner_entries c container)"

lemma owned_pin:
  "owned sc ic container c w \<Longrightarrow> ic w KV_OWNER_PIN = Some (pin_bytes (ck_pin c))"
  by (simp add: owned_def owner_entries_def pin_bytes_def)

lemma pin_open_new:
  "check_statement P B E J container my_did = Inr c \<Longrightarrow> pin_open c (Some (pin_bytes (ck_pin c)))"
  using check_statement_pin_length [of P B E J container my_did c]
  by (auto simp: pin_open_def pin_allows_def intro!: exI [of _ "Some (ck_pin c)"])

lemma pin_open_none: "pin_open c None"
  by (auto simp: pin_open_def pin_allows_def)

context kv_reliable
begin

lemma put_each_runs:
  "inv s \<Longrightarrow> \<forall>(k, v) \<in> set kvs. storable v \<Longrightarrow> \<exists>s'. put_each K s kvs = (Inr (), s')"
proof (induction kvs arbitrary: s)
  case (Cons kv kvs)
  obtain k v where kv: "kv = (k, v)" by (cases kv)
  with Cons.prems(2) have "storable v" by simp
  with Cons.prems(1) obtain s1 where "kv_put K s k v = (Inr (), s1)" "inv s1"
    by (blast elim: put_runs)
  with Cons.IH [of s1] Cons.prems(2) kv show ?case by simp
qed simp

end

context shared_stores
begin

lemma stored_pin_open:
  assumes "good w" "pin_open c (ic w KV_OWNER_PIN)" "stored_pin I w = Inr pinned"
  shows "pin_allows pinned (genesis_pubkey (ck_pin c)) (roster_version (ck_pin c))"
proof -
  from assms(2) obtain pin where pin: "ic w KV_OWNER_PIN = map_option pin_bytes pin"
    "\<forall>p. pin = Some p \<longrightarrow> length (genesis_pubkey p) = 33"
    "pin_allows pin (genesis_pubkey (ck_pin c)) (roster_version (ck_pin c))" by (auto simp: pin_open_def)
  have "pin_in (ic w) = pin" using pin(1,2) by (intro pin_in_entry) (simp_all add: pin_bytes_def cong: map_option_cong)
  with stored_pin_in [OF assms(1,3)] pin(3) show ?thesis by simp
qed

text \<open>While the adoption waits, a boot meets an error or takes the owner.\<close>

lemma waiting_decision:
  assumes w: "good w" and wait: "waiting sc ic container c w"
    and c: "length container \<le> ADOPT_MAX" "check_statement P B E J container my_did = Inr c"
  shows "(\<exists>e. boot_decision P B E J S I w w my_did = Stop e) \<or>
    (\<exists>pinned. boot_decision P B E J S I w w my_did = Take container c pinned)"
proof (cases "kv_get S w SETTINGS_ADOPT ADOPT_MAX")
  case (Inl e)
  with settings.get_small [OF w, of SETTINGS_ADOPT ADOPT_MAX] wait c(1) have "\<forall>m. e \<noteq> BufferTooSmall m"
    by (auto simp: waiting_def)
  with Inl show ?thesis by (cases e) (simp_all add: boot_decision_def)
next
  case (Inr got)
  with settings.get_value [OF w Inr] wait have got: "kv_get S w SETTINGS_ADOPT ADOPT_MAX = Inr (Some container)"
    by (simp add: waiting_def)
  show ?thesis
  proof (cases "stored_pin I w")
    case (Inl e)
    with got c(2) show ?thesis by (simp add: boot_decision_def)
  next
    case (Inr pinned)
    with stored_pin_open [OF w _ Inr, of c] wait have
      "pin_allows pinned (genesis_pubkey (ck_pin c)) (roster_version (ck_pin c))" by (simp add: waiting_def)
    with got c(2) Inr show ?thesis by (cases pinned) (simp_all add: boot_decision_def pin_allows_def not_less)
  qed
qed

lemma waiting_boot:
  assumes w: "good w" and wait: "waiting sc ic container c w"
    and c: "length container \<le> ADOPT_MAX" "check_statement P B E J container my_did = Inr c"
    and run: "apply_world P B E J S I w my_did = (r, w')"
  shows "good w'" and "waiting sc ic container c w' \<or> owned sc ic container c w'"
    and "r = Inr out \<Longrightarrow> owned sc ic container c w'"
proof -
  note st = owner_entries_storable [OF c]
  have ne: "k \<noteq> SETTINGS_ADOPT" if "(k, v) \<in> set (owner_entries c container)" for k v
    using owner_keys_not_adopt that by (metis fst_conv image_eqI)
  have "good w' \<and> (waiting sc ic container c w' \<or> owned sc ic container c w') \<and>
      ((\<exists>out. r = Inr out) \<longrightarrow> owned sc ic container c w')"
    using waiting_decision [OF w wait c]
  proof (elim disjE exE)
    fix e
    assume "boot_decision P B E J S I w w my_did = Stop e"
    with run have "w' = w" "r = Inl e" by (simp_all add: apply_world_decided)
    with w wait show ?thesis by simp
  next
    fix pinned
    assume take: "boot_decision P B E J S I w w my_did = Take container c pinned"
    obtain q w1 where q: "put_each I w (owner_entries c container) = (q, w1)" by (rule prod.exhaust)
    have w1: "good w1" "sc w1 SETTINGS_ADOPT = Some container"
      using put_each_sc [OF w q owner_keys_not_adopt] wait by (simp_all add: waiting_def)
    show ?thesis
    proof (cases q)
      case (Inl e)
      with run take q have w': "w' = w1" "r = Inl e" by (simp_all add: apply_world_decided)
      have "distinct (map fst (owner_entries c container))" by (simp add: owner_entries_def)
      from identity.put_each_stopped [OF w st q this]
      have "ic w1 KV_OWNER_PIN \<in> {ic w KV_OWNER_PIN, None, Some (pin_bytes (ck_pin c))}"
        by (auto simp: owner_entries_def pin_bytes_def)
      with wait pin_open_new [OF c(2)] pin_open_none have "pin_open c (ic w1 KV_OWNER_PIN)"
        by (auto simp: waiting_def)
      with w1 w' show ?thesis by (simp add: waiting_def)
    next
      case (Inr u)
      with q have q': "put_each I w (owner_entries c container) = (Inr (), w1)" by simp
      have cw: "clear_world S w1 (owner_taken pinned c) = (r, w')"
        using run take q' by (simp add: apply_world_decided)
      have "ic w1 = ic w ++ map_of (rev (owner_entries c container))"
        using identity.put_each_done [OF w st q'] by simp
      then have "ic w1 k = Some v" if "(k, v) \<in> set (owner_entries c container)" for k v
        using that by (auto simp: owner_entries_def)
      moreover have "ic w' k = ic w1 k" if "(k, v) \<in> set (owner_entries c container)" for k v
        using clear_world_cases(2) [OF w1(1) cw ne [OF that]] .
      ultimately have entries: "list_all (\<lambda>(k, v). ic w' k = Some v) (owner_entries c container)"
        unfolding list_all_iff by (metis (mono_tags, lifting) case_prodI2)
      then have "ic w' KV_OWNER_PIN = Some (pin_bytes (ck_pin c))"
        by (simp add: owner_entries_def pin_bytes_def)
      with clear_world_cases(1,4) [OF w1(1) cw] w1(2) entries pin_open_new [OF c(2)]
      show ?thesis by (auto simp: waiting_def owned_def)
    qed
  qed
  then show "good w'" "waiting sc ic container c w' \<or> owned sc ic container c w'"
    "r = Inr out \<Longrightarrow> owned sc ic container c w'" by blast+
qed

text \<open>Working stores make the error impossible.\<close>

lemma waiting_boot_works:
  assumes w: "good w" and wait: "waiting sc ic container c w"
    and c: "length container \<le> ADOPT_MAX" "check_statement P B E J container my_did = Inr c"
    and S: "kv_reliable S sc good sst" and I: "kv_reliable I ic good ist"
  shows "owned sc ic container c (snd (apply_world P B E J S I w my_did))"
proof -
  from wait obtain pin where pin: "ic w KV_OWNER_PIN = map_option pin_bytes pin"
    "\<forall>p. pin = Some p \<longrightarrow> length (genesis_pubkey p) = 33"
    by (auto simp: waiting_def pin_open_def)
  have p: "stored_pin I w = Inr (pin_in (ic w))"
    using pin by (intro kv_reliable.stored_pin_runs [OF I w]) (cases pin; auto simp: pin_bytes_def)
  have "kv_get S w SETTINGS_ADOPT ADOPT_MAX = Inr (Some container)"
    using wait c(1) by (simp add: waiting_def kv_reliable.get_works [OF S w])
  with p c(2) have "boot_decision P B E J S I w w my_did \<noteq> Stop e" for e by (simp add: boot_decision_def)
  with waiting_decision [OF w wait c] obtain pinned where
    take: "boot_decision P B E J S I w w my_did = Take container c pinned" by blast
  obtain w1 where w1: "put_each I w (owner_entries c container) = (Inr (), w1)"
    using kv_reliable.put_each_runs [OF I w owner_entries_storable [OF c]] by blast
  then have "good w1" using put_each_sc [OF w w1 owner_keys_not_adopt] by simp
  then obtain b w2 where "kv_remove S w1 SETTINGS_ADOPT = (Inr b, w2)"
    using kv_reliable.remove_works [OF S] by blast
  with take w1 have "apply_world P B E J S I w my_did = (Inr (owner_taken pinned c), w2)"
    by (simp add: apply_world_decided clear_world_def)
  with waiting_boot(3) [OF w wait c this refl] show ?thesis by simp
qed

lemma owned_boot:
  assumes w: "good w" and none: "sc w SETTINGS_ADOPT = None"
  shows "snd (apply_world P B E J S I w my_did) = w"
proof (cases "kv_get S w SETTINGS_ADOPT ADOPT_MAX")
  case (Inl e)
  with settings.get_small [OF w, of SETTINGS_ADOPT ADOPT_MAX] none have "\<forall>m. e \<noteq> BufferTooSmall m" by auto
  with Inl show ?thesis by (cases e) (simp_all add: apply_world_def)
next
  case (Inr got)
  with settings.get_value [OF w Inr] none show ?thesis by (simp add: apply_world_def)
qed

end

section \<open>The boots that follow\<close>

lemma boot_after_good:
  assumes "\<And>n. shared_stores (S n) sc good sst (I n) ic ist" "good w" "waiting sc ic container c w"
    and "length container \<le> ADOPT_MAX" "check_statement P B E J container my_did = Inr c"
  shows "good (boot_after P B E J S I my_did w n) \<and>
    (waiting sc ic container c (boot_after P B E J S I my_did w n) \<or>
     owned sc ic container c (boot_after P B E J S I my_did w n))"
proof (induction n)
  case (Suc n)
  let ?w = "boot_after P B E J S I my_did w n"
  obtain r w' where run: "apply_world P B E J (S n) (I n) ?w my_did = (r, w')" by (rule prod.exhaust)
  from Suc have g: "good ?w" by blast
  from Suc show ?case
  proof (elim conjE disjE)
    assume wait: "waiting sc ic container c ?w"
    from shared_stores.waiting_boot(1,2) [OF assms(1) g wait assms(4,5) run] run show ?thesis by simp
  next
    assume o: "owned sc ic container c ?w"
    with shared_stores.owned_boot [OF assms(1) [of n] g, of P B E J my_did] g show ?thesis by (simp add: owned_def)
  qed
qed (use assms in simp)

lemma boot_after_owned:
  assumes "\<And>n. shared_stores (S n) sc good sst (I n) ic ist"
    and "good (boot_after P B E J S I my_did w n)" "owned sc ic container c (boot_after P B E J S I my_did w n)"
    and "n \<le> m"
  shows "boot_after P B E J S I my_did w m = boot_after P B E J S I my_did w n"
  using assms(4)
proof (induction rule: dec_induct)
  case (step m)
  have "sc (boot_after P B E J S I my_did w n) SETTINGS_ADOPT = None" using assms(3) by (simp add: owned_def)
  from shared_stores.owned_boot [OF assms(1,2) this] step(3) show ?case by simp
qed simp

end
