(* ===== verification/Prop_Device.thy ===== *)
theory Prop_Device
  imports Device Delivery Seal_Correct
begin

text \<open>
  What a device keeps, whatever it is asked to do and in what order: the properties over runs of
  calls on two stores that may be one, and over the boots that follow a delivered adoption.
\<close>

section \<open>Any run of calls\<close>

text \<open>C5. A device never loses or changes its identity: after any sequence of calls (loads, plain and
  cached, signatures, adoptions, the owner forgotten, setup records, the owner's own settings under names that
  are not the identity's), with
  the settings and the identity apart or in one namespace and any call of the store failing, the key's
  entry is as it was, a load answers that key or an error, and the cached load answers what the plain
  one does.\<close>

theorem device_key_kept:
  assumes "shared_stores S sc good sst I ic ist" "prims_ok P" "wf_key P key"
    and "device_id_new device_id = Inr (dk_device_id key)"
    and "good w" "key_kept P key (ic w)" "list_all call_ok calls"
    and "device_run P B E J S I fill calls (w, r) = (w', r')"
  shows "good w' \<and> ic w' KV_KEY = Some (secret_bytes P key)
    \<and> (load P I w' device_id = Inr (Some key) \<or> (\<exists>e. load P I w' device_id = Inl e))
    \<and> fst (load_cached P I w' device_id) = load P I w' device_id"
proof -
  have K: "kv_store I ic good ist"
    using assms(1) by (simp add: shared_stores_def boot_stores_def)
  have k: "good w'" "ic w' KV_KEY = Some (secret_bytes P key)" "pub_honest P (dk_secret key) (ic w' KV_PUB)"
    using shared_stores.run_keeps_key [OF assms(1,2,5,6,7), of B E J fill r] assms(8)
    by (simp_all add: key_kept_def)
  have "load P I w' device_id = Inr (Some key) \<or> (\<exists>e. load P I w' device_id = Inl e)"
    using kv_store.load_stored [OF K assms(2) k(1) assms(3,4) k(2)] by (cases "load P I w' device_id") auto
  moreover have "fst (load_cached P I w' device_id) = load P I w' device_id"
  proof (rule kv_store.load_cached_load [OF K assms(2) k(1)])
    fix s
    assume "ic w' KV_KEY = Some (scalar_to_repr P s)"
    with k(2) have "s = dk_secret key"
      using prims_okD(4) [OF assms(2)] by (metis option.inject secret_bytes_def)
    with k(3) show "pub_honest P s (ic w' KV_PUB)" by simp
  qed
  ultimately show ?thesis using k by blast
qed

text \<open>A board with a key, its settings in the same namespace, an adoption among them.\<close>

definition adopting_store :: mem where
  "adopting_store = [(SETTINGS_ADOPT, sample_container), (KV_KEY, 1 # replicate 30 0 @ [7])]"

definition adopting_calls :: "(u8, u8) device_call list" where
  "adopting_calls =
     [Load_key_cached (ascii ''cam-1''), Apply_adoption sample_did_text, Keep_failures 2,
      Settings_put (ascii ''name'') [0x41], Apply_adoption sample_did_text]"

lemma sample_key_bytes: "secret_bytes sample_prims sample_key = 1 # replicate 30 0 @ [7]"
  by (simp add: secret_bytes_def sample_key_def sample_prims_def)

lemma sample_key_id: "device_id_new (ascii ''cam-1'') = Inr (dk_device_id sample_key)"
  by (simp add: device_id_new_def sample_key_def ascii_def is_ascii_alphanumeric_def Let_def)

lemma adopting_names: "SETTINGS_ADOPT \<noteq> KV_KEY" "SETTINGS_ADOPT \<noteq> KV_PUB" "SETTINGS_ADOPT \<noteq> KV_OWNER_PIN"
  using record_names(1-4) by metis+

lemma adopting_store_key: "key_kept sample_prims sample_key (map_of adopting_store)"
  using adopting_names by (simp add: key_kept_def adopting_store_def sample_key_bytes pub_honest_def)

lemma adopting_calls_ok: "list_all (\<lambda>call. call_ok call \<and> \<not> forgets call) adopting_calls"
proof -
  have "ascii ''name'' \<notin> identity_records"
    by (simp add: identity_records_def KV_KEY_def KV_PUB_def KV_OWNER_PIN_def KV_ADOPTION_def
        KV_ADOPTION_KIND_def KV_PIN_PROVISIONAL_def ascii_def)
  then show ?thesis by (simp add: adopting_calls_def)
qed

theorem device_key_kept_witness:
  "\<exists>w' r'. device_run sample_prims sample_bs58 sample_b64 sample_codec mem_kv mem_kv sample_rng
       (Forget_owner # adopting_calls) (adopting_store, 9) = (w', r')
     \<and> load sample_prims mem_kv w' (ascii ''cam-1'') = Inr (Some sample_key)"
proof -
  let ?run = "device_run sample_prims sample_bs58 sample_b64 sample_codec mem_kv mem_kv sample_rng
    (Forget_owner # adopting_calls) (adopting_store, 9)"
  have "list_all call_ok (Forget_owner # adopting_calls)"
    using adopting_calls_ok by (simp add: list_all_iff)
  from device_key_kept [OF one_mem.shared_stores_axioms sample_prims_ok sample_key_wf sample_key_id TrueI
      adopting_store_key this surjective_pairing, of sample_bs58 sample_b64 sample_codec sample_rng 9]
  have k: "map_of (fst ?run) KV_KEY = Some (secret_bytes sample_prims sample_key)" by blast
  have "load sample_prims mem_kv (fst ?run) (ascii ''cam-1'') = Inr (Some sample_key)"
    by (rule mem.load_again [OF sample_prims_ok TrueI sample_key_wf sample_key_id k])
  then show ?thesis by (metis surjective_pairing)
qed

text \<open>C6. The owner stays: over stores whose failed write leaves the old value or the new one, a pinned
  device keeps that owner's key, and never an older roster, through any sequence of calls other than
  forgetting the owner, cut-short adoptions among them.\<close>

theorem device_owner_pinned:
  assumes "shared_atomic S sc good sst I ic ist" "good w" "pin_in (ic w) = Some p"
    and "list_all (\<lambda>call. call_ok call \<and> \<not> forgets call) calls"
    and "device_run P B E J S I fill calls (w, r) = (w', r')"
  shows "\<exists>q. pin_in (ic w') = Some q \<and> genesis_pubkey q = genesis_pubkey p
    \<and> roster_version p \<le> roster_version q"
proof -
  have "owner_kept p (ic w)" using assms(3) by (simp add: owner_kept_def)
  from shared_atomic.run_keeps_owner [OF assms(1,2) this assms(4), of P B E J fill r] assms(5)
  show ?thesis by (simp add: owner_kept_def)
qed

lemma older_pin:
  "pin_in (map_of ((KV_OWNER_PIN, sample_pk @ [0, 0, 0, 2]) # adopting_store)) =
     Some \<lparr>genesis_pubkey = sample_pk, roster_version = 2\<rparr>"
proof -
  have "u32_to_be 2 = [0, 0, 0, 2]" by code_simp
  then show ?thesis by (intro pin_in_entry) (simp_all add: sample_pk_def)
qed

theorem device_owner_pinned_witness:
  "\<exists>q. pin_in (map_of (fst (device_run sample_prims sample_bs58 sample_b64 sample_codec mem_kv mem_kv sample_rng
       adopting_calls ((KV_OWNER_PIN, sample_pk @ [0, 0, 0, 2]) # adopting_store, 9)))) = Some q
     \<and> genesis_pubkey q = sample_pk \<and> 2 \<le> roster_version q"
  using device_owner_pinned [OF one_mem_atomic.shared_atomic_axioms TrueI older_pin adopting_calls_ok
      surjective_pairing, of sample_prims sample_bs58 sample_b64 sample_codec sample_rng 9]
  by simp

section \<open>A boot over stores that may be one\<close>

text \<open>C23. One namespace or two, a boot does what it says: whatever fails, the identity changes at the
  owner's four entries only and the settings' adoption stays or goes; \<open>Nothing\<close> has changed nothing;
  a refusal has left the identity alone; an owner is answered only when the four entries hold it and
  the adoption is gone. Over stores apart this is the boot over two states.\<close>

theorem shared_boot_outcome:
  assumes "shared_stores S sc good sst I ic ist" "good w" "apply_world P B E J S I w my_did = (r, w')"
  shows "good w' \<and> sc w' SETTINGS_ADOPT \<in> {sc w SETTINGS_ADOPT, None}
    \<and> (\<forall>j. j \<notin> owner_keys \<and> j \<noteq> SETTINGS_ADOPT \<longrightarrow> ic w' j = ic w j)
    \<and> (r = Inr Nothing \<longrightarrow> w' = w \<and> sc w SETTINGS_ADOPT = None)
    \<and> (\<forall>why. r = Inr (Refused why) \<longrightarrow>
         sc w' SETTINGS_ADOPT = None \<and> (\<forall>j. j \<noteq> SETTINGS_ADOPT \<longrightarrow> ic w' j = ic w j))
    \<and> (\<forall>out. r = Inr out \<and> out \<noteq> Nothing \<and> (\<forall>why. out \<noteq> Refused why) \<longrightarrow>
         (\<exists>container c. sc w SETTINGS_ADOPT = Some container \<and>
            check_statement P B E J container my_did = Inr c \<and>
            pin_allows (pin_in (ic w)) (genesis_pubkey (ck_pin c)) (roster_version (ck_pin c)) \<and>
            out = owner_taken (pin_in (ic w)) c \<and> owned sc ic container c w'))
    \<and> apply_world P B E J (on_fst S2) (on_snd I2) (s, i) my_did = apply_settings P B E J S2 I2 s i my_did"
proof (intro conjI apply_world_apart)
  have b: "boot_stores S sc good sst I ic good ist" using assms(1) by (rule shared_stores.axioms(1))
  note o = shared_stores.apply_world_other(1) [OF assms(1,2), of P B E J my_did]
    shared_stores.apply_world_other(2) [OF assms(1,2), of _ P B E J my_did]
  show "good w'" using o(1) assms(3) by simp
  show "\<forall>j. j \<notin> owner_keys \<and> j \<noteq> SETTINGS_ADOPT \<longrightarrow> ic w' j = ic w j" using o(2) assms(3) by auto
  show "r = Inr Nothing \<longrightarrow> w' = w \<and> sc w SETTINGS_ADOPT = None"
    using shared_stores.apply_world_Nothing [OF assms(1,2), of P B E J my_did w'] assms(3) by auto
  note frame = shared_stores.apply_world_frame [OF assms]
  show "sc w' SETTINGS_ADOPT \<in> {sc w SETTINGS_ADOPT, None}"
    by (rule frame) (auto dest: boot_stores.decision_Take(1) [OF b assms(2)])
  show "\<forall>why. r = Inr (Refused why) \<longrightarrow>
      sc w' SETTINGS_ADOPT = None \<and> (\<forall>j. j \<noteq> SETTINGS_ADOPT \<longrightarrow> ic w' j = ic w j)"
    by (rule frame) (auto simp: owner_taken_def split: if_split_asm)
  show "\<forall>out. r = Inr out \<and> out \<noteq> Nothing \<and> (\<forall>why. out \<noteq> Refused why) \<longrightarrow>
         (\<exists>container c. sc w SETTINGS_ADOPT = Some container \<and>
            check_statement P B E J container my_did = Inr c \<and>
            pin_allows (pin_in (ic w)) (genesis_pubkey (ck_pin c)) (roster_version (ck_pin c)) \<and>
            out = owner_taken (pin_in (ic w)) c \<and> owned sc ic container c w')"
  proof (rule frame)
    fix container c pinned w1
    assume t: "boot_decision P B E J S I w w my_did = Take container c pinned"
      and ic: "\<And>j. j \<noteq> SETTINGS_ADOPT \<Longrightarrow> ic w' j = (ic w ++ map_of (rev (owner_entries c container))) j"
      and r: "(\<exists>e. r = Inl e) \<and> sc w' SETTINGS_ADOPT \<in> {Some container, None} \<or>
        r = Inr (owner_taken pinned c) \<and> sc w' SETTINGS_ADOPT = None"
    note d = boot_stores.decision_Take [OF b assms(2) t]
    have pin: "pin_in (ic w) = pinned" by (rule boot_stores.stored_pin_in [OF b assms(2) d(4)])
    have "k \<noteq> SETTINGS_ADOPT" if "k \<in> owner_keys" for k using that owner_keys_records(4) by blast
    then have "list_all (\<lambda>(k, v). ic w' k = Some v) (owner_entries c container)"
      by (simp add: owner_entries_def owner_keys_def ic)
    with r d pin show ?thesis by (auto simp: owned_def)
  qed auto
qed

theorem shared_boot_outcome_witness:
  "\<exists>r w'. apply_world sample_prims sample_bs58 sample_b64 sample_codec mem_kv mem_kv adopting_store
       sample_did_text = (r, w') \<and> map_of w' KV_KEY = map_of adopting_store KV_KEY
     \<and> map_of w' SETTINGS_ADOPT \<in> {Some sample_container, None}"
proof -
  obtain r w' where run: "apply_world sample_prims sample_bs58 sample_b64 sample_codec mem_kv mem_kv adopting_store
      sample_did_text = (r, w')" by (rule prod.exhaust)
  have "map_of adopting_store SETTINGS_ADOPT = Some sample_container" by (simp add: adopting_store_def)
  moreover have "KV_KEY \<notin> owner_keys \<and> KV_KEY \<noteq> SETTINGS_ADOPT"
    using owner_keys_records(2) adopting_names by metis
  ultimately show ?thesis
    using shared_boot_outcome [OF one_mem.shared_stores_axioms TrueI run] run by metis
qed

section \<open>The boots after a delivery\<close>

text \<open>C7. A delivered adoption takes: left in the settings of a device it may have, it is never lost over
  any boots, each of which may fail anywhere; and by the first boot at which the stores work, at
  the latest, the four entries hold the owner, the settings are clear of it, and every later boot
  leaves it so.\<close>

theorem adoption_delivered:
  assumes "\<And>n. shared_stores (S n) sc good sst (I n) ic ist" "good w"
    and "sc w SETTINGS_ADOPT = Some container" "length container \<le> ADOPT_MAX"
    and "check_statement P B E J container my_did = Inr c" "pin_open c (ic w KV_OWNER_PIN)"
  shows "(\<forall>n. waiting sc ic container c (boot_after P B E J S I my_did w n) \<or>
       owned sc ic container c (boot_after P B E J S I my_did w n))
    \<and> (\<forall>k. kv_reliable (S k) sc good sst \<and> kv_reliable (I k) ic good ist \<longrightarrow>
         (\<exists>n \<le> Suc k. \<forall>m \<ge> n. owned sc ic container c (boot_after P B E J S I my_did w m)))"
proof (intro conjI allI impI)
  let ?w = "boot_after P B E J S I my_did w"
  have wait: "waiting sc ic container c w" using assms(3,6) by (simp add: waiting_def)
  note g = boot_after_good [where S = S and I = I, OF assms(1) assms(2) wait assms(4,5)]
  show "waiting sc ic container c (?w n) \<or> owned sc ic container c (?w n)" for n using g by blast
  fix k
  assume k: "kv_reliable (S k) sc good sst \<and> kv_reliable (I k) ic good ist"
  have "owned sc ic container c (?w k) \<or> owned sc ic container c (?w (Suc k))"
    using shared_stores.waiting_boot_works [OF assms(1) [of k] _ _ assms(4,5)] g [of k] k by auto
  then obtain n where n: "n \<le> Suc k" "owned sc ic container c (?w n)" by (metis le_SucI order_refl)
  have "owned sc ic container c (?w m)" if "n \<le> m" for m
    using boot_after_owned [where S = S and I = I, OF assms(1) _ n(2) that] g [of n] n(2) by simp
  with n(1) show "\<exists>n \<le> Suc k. \<forall>m \<ge> n. owned sc ic container c (?w m)" by blast
qed

text \<open>An identity store that takes no writes at the first boot and works from the second on.\<close>

definition down_kv :: "mem kv" where
  "down_kv = mem_kv\<lparr>kv_put := (\<lambda>s k v. (Inl Hardware, s)), kv_remove := (\<lambda>s k. (Inl Hardware, s))\<rparr>"

interpretation down: shared_stores mem_kv map_of "\<lambda>_. True" "\<lambda>_. True" down_kv map_of "\<lambda>_. True"
  by unfold_locales
    (auto simp: down_kv_def mem_kv_def mem_get_def mem_put_def mem_remove_def map_of_filter_key
       split: option.splits if_splits)

theorem adoption_delivered_witness:
  "\<exists>n \<le> 2. owned map_of map_of sample_container sample_checked
     (boot_after sample_prims sample_bs58 sample_b64 sample_codec (\<lambda>_. mem_kv)
        (\<lambda>n. if n = 0 then down_kv else mem_kv) sample_did_text adopting_store n)"
proof -
  let ?I = "\<lambda>n :: nat. if n = 0 then down_kv else mem_kv"
  have s: "shared_stores mem_kv map_of (\<lambda>_. True) (\<lambda>_. True) (?I n) map_of (\<lambda>_. True)" for n
    using down.shared_stores_axioms one_mem.shared_stores_axioms by simp
  have "map_of adopting_store SETTINGS_ADOPT = Some sample_container"
    "map_of adopting_store KV_OWNER_PIN = None"
    using adopting_names by (simp_all add: adopting_store_def)
  with adoption_delivered [where S = "\<lambda>_. mem_kv" and I = ?I, OF s TrueI _ length_sample_container sample_check]
    pin_open_none
  have "kv_reliable mem_kv map_of (\<lambda>_. True) (\<lambda>_. True) \<and> kv_reliable (?I 1) map_of (\<lambda>_. True) (\<lambda>_. True) \<longrightarrow>
      (\<exists>n \<le> Suc 1. \<forall>m \<ge> n. owned map_of map_of sample_container sample_checked
        (boot_after sample_prims sample_bs58 sample_b64 sample_codec (\<lambda>_. mem_kv) ?I sample_did_text
          adopting_store m))"
    by (metis (no_types, lifting))
  then show ?thesis using mem.kv_reliable_axioms by (auto simp: numeral_2_eq_2)
qed

section \<open>Adoption into a sealed identity\<close>

text \<open>C25. A sealed identity store takes no adoption longer than a sealed value: the boot that would take
  it stops with \<open>Unsupported\<close> before anything is written, and as it leaves the settings and the
  identity as they were, so does every boot after it: the adoption stays and the owner never comes.\<close>

theorem sealed_identity_adopts_no_long_container:
  assumes "kv_get S s SETTINGS_ADOPT ADOPT_MAX = Inr (Some container)" "MAX_VALUE < length container"
    and "check_statement P B E J container my_did = Inr c"
    and "stored_pin (seal_kv A K fill) st = Inr pinned"
    and "pin_allows pinned (genesis_pubkey (ck_pin c)) (roster_version (ck_pin c))" "sealing st"
  shows "apply_settings P B E J S (seal_kv A K fill) s st my_did = (Inl Unsupported, s, st)
    \<and> (\<forall>n. boot_after P B E J (\<lambda>_. on_fst S) (\<lambda>_. on_snd (seal_kv A K fill)) my_did (s, st) n = (s, st))"
proof
  from assms(6) obtain cipher where "sk_cipher st = Some cipher" by (auto simp: sealing_def)
  with assms(2) have "put_each (seal_kv A K fill) st (owner_entries c container) = (Inl Unsupported, st)"
    by (simp add: owner_entries_def seal_kv_def seal_put_def)
  with apply_admitted [OF assms(1,3-5)]
  show a: "apply_settings P B E J S (seal_kv A K fill) s st my_did = (Inl Unsupported, s, st)" by simp
  show "\<forall>n. boot_after P B E J (\<lambda>_. on_fst S) (\<lambda>_. on_snd (seal_kv A K fill)) my_did (s, st) n = (s, st)"
  proof
    show "boot_after P B E J (\<lambda>_. on_fst S) (\<lambda>_. on_snd (seal_kv A K fill)) my_did (s, st) n = (s, st)" for n
      by (induction n) (simp_all add: apply_world_apart a)
  qed
qed

lemma sample_container_long: "MAX_VALUE < length sample_container"
  by (simp add: sample_container_def sample_codec_def sample_outer_def sample_jws_def length_enc_bytes
      length_sample_b64)

theorem sealed_identity_adopts_no_long_container_witness:
  "apply_settings sample_prims sample_bs58 sample_b64 sample_codec mem_kv
     (seal_kv sample_aead mem_kv sample_rng) [(SETTINGS_ADOPT, sample_container)]
     (seal_new sample_aead [] 5 (Some [3])) sample_did_text =
   (Inl Unsupported, [(SETTINGS_ADOPT, sample_container)], seal_new sample_aead [] 5 (Some [3]))"
proof -
  let ?st = "seal_new sample_aead [] 5 (Some [3]) :: (mem, u8, bytes) sealed_kv"
  have g: "kv_get mem_kv [(SETTINGS_ADOPT, sample_container)] SETTINGS_ADOPT ADOPT_MAX = Inr (Some sample_container)"
    using length_sample_container by (simp add: mem_kv_def mem_get_def)
  have p: "stored_pin (seal_kv sample_aead mem_kv sample_rng) ?st = Inr None"
    by (simp add: stored_pin_def seal_kv_def seal_get_def seal_new_def mem_kv_def mem_get_def)
  have "pin_allows None (genesis_pubkey (ck_pin sample_checked)) (roster_version (ck_pin sample_checked))"
    "sealing ?st" by (simp_all add: pin_allows_def sealing_def seal_new_def)
  from sealed_identity_adopts_no_long_container [OF g sample_container_long sample_check p this]
  show ?thesis by blast
qed

end
