(* ===== verification/Flash.thy ===== *)
theory Flash
  imports Kv
begin

text \<open>
  The \<open>esp-hal\<close> track of \<open>crates/rusty_esp_mid-esp\<close>: \<open>hal/partitions.rs\<close> (the partition
  table), \<open>hal/flash.rs\<close> (one partition as a \<open>Flash\<close>), \<open>hal/shared.rs\<close> (several of them on one
  flash). The flash driver \<open>esp_storage\<close> is the record \<open>storage\<close>; the locale \<open>nor_flash\<close> is what
  its documentation promises of the bytes, and the isolation of partitions rests on it.
\<close>

section \<open>The driver\<close>

record 'd storage =
  flash_encryption :: bool
  read_encrypted :: "'d \<Rightarrow> u32 \<Rightarrow> nat \<Rightarrow> bytes option \<times> 'd"
  read_nor :: "'d \<Rightarrow> u32 \<Rightarrow> nat \<Rightarrow> bytes option \<times> 'd"
  write_nor :: "'d \<Rightarrow> u32 \<Rightarrow> bytes \<Rightarrow> bool \<times> 'd"
  erase :: "'d \<Rightarrow> u32 \<Rightarrow> u32 \<Rightarrow> bool \<times> 'd"

section \<open>The table's offset\<close>

text \<open>A panic in this \<open>const fn\<close> is a build error.\<close>

definition digit_value :: "bool \<Rightarrow> u8 \<Rightarrow> u32 option" where
  "digit_value hex c =
     (if 0x30 \<le> c \<and> c \<le> 0x39 then Some (ucast (c - 0x30))
      else if 0x61 \<le> c \<and> c \<le> 0x66 \<and> hex then Some (ucast (c - 0x61 + 10))
      else if 0x41 \<le> c \<and> c \<le> 0x46 \<and> hex then Some (ucast (c - 0x41 + 10))
      else None)"

definition checked_mul32 :: "u32 \<Rightarrow> u32 \<Rightarrow> u32 option" where
  "checked_mul32 a b = (if unat a * unat b < 2 ^ 32 then Some (a * b) else None)"

definition checked_add32 :: "u32 \<Rightarrow> u32 \<Rightarrow> u32 option" where
  "checked_add32 a b = (if unat a + unat b < 2 ^ 32 then Some (a + b) else None)"

fun parse_digits :: "bool \<Rightarrow> u32 \<Rightarrow> bytes \<Rightarrow> u32 option" where
  "parse_digits hex v [] = Some v"
| "parse_digits hex v (c # r) =
     do { d \<leftarrow> digit_value hex c;
          m \<leftarrow> checked_mul32 v (if hex then 16 else 10);
          n \<leftarrow> checked_add32 m d;
          parse_digits hex n r }"

definition parse_u32 :: "rstr \<Rightarrow> u32 result" where
  "parse_u32 b =
     (let hex = length b > 2 \<and> b ! 0 = 0x30 \<and> (b ! 1 = 0x78 \<or> b ! 1 = 0x58);
          i = (if hex then 2 else 0) in
      if i < length b then ok_or (parse_digits hex 0 (drop i b)) Panic else Inl Panic)"

definition TABLE_OFFSET :: "rstr option \<Rightarrow> u32 result" where
  "TABLE_OFFSET env = (case env of Some v \<Rightarrow> parse_u32 v | None \<Rightarrow> Inr 0x8000)"

section \<open>The table\<close>

abbreviation MAX_ENTRIES :: nat where "MAX_ENTRIES \<equiv> 95"
definition ENTRY_MAGIC :: bytes where "ENTRY_MAGIC = [0xAA, 0x50]"
definition MD5_MAGIC :: bytes where "MD5_MAGIC = [0xEB, 0xEB]"

record partition =
  pt_kind :: u8
  pt_subtype :: u8
  pt_offset :: u32
  pt_len :: u32
  pt_label :: bytes

definition partition_label :: "partition \<Rightarrow> rstr" where
  "partition_label p =
     (let name = takeWhile (\<lambda>b. b \<noteq> 0 \<and> b \<noteq> 0xFF) (pt_label p) in
      case from_utf8 name of Some s \<Rightarrow> s | None \<Rightarrow> [])"

definition u32_from_le :: "bytes \<Rightarrow> u32" where
  "u32_from_le b = u32_from_be (rev b)"

fun chunks_exact :: "nat \<Rightarrow> nat \<Rightarrow> bytes \<Rightarrow> bytes list" where
  "chunks_exact 0 n b = []"
| "chunks_exact (Suc k) n b = take n b # chunks_exact k n (drop n b)"

definition entry_partition :: "bytes \<Rightarrow> partition" where
  "entry_partition e =
     \<lparr>pt_kind = e ! 2, pt_subtype = e ! 3, pt_offset = u32_from_le (take 4 (drop 4 e)),
      pt_len = u32_from_le (take 4 (drop 8 e)), pt_label = take 16 (drop 12 e)\<rparr>"

fun search_entries :: "rstr \<Rightarrow> bytes list \<Rightarrow> partition option result" where
  "search_entries label [] = Inr None"
| "search_entries label (e # es) =
     (if take 2 e = MD5_MAGIC \<or> take 2 e = [0xFF, 0xFF] then Inr None
      else if take 2 e \<noteq> ENTRY_MAGIC then Inl Corrupt
      else if partition_label (entry_partition e) = label then Inr (Some (entry_partition e))
      else search_entries label es)"

text \<open>\<open>off\<close> is the build's \<open>TABLE_OFFSET\<close>.\<close>

definition find_partition ::
  "'d storage \<Rightarrow> u32 \<Rightarrow> 'd \<Rightarrow> rstr \<Rightarrow> partition option result \<times> 'd" where
  "find_partition St off d label =
     (case (if flash_encryption St then read_encrypted St d off (MAX_ENTRIES * 32)
            else read_nor St d off (MAX_ENTRIES * 32)) of
        (None, d) \<Rightarrow> (Inl Hardware, d)
      | (Some table, d) \<Rightarrow> (search_entries label (chunks_exact MAX_ENTRIES 32 table), d))"

section \<open>One partition\<close>

text \<open>\<open>page\<close> is \<open>rusty_esp_core::nvs::PAGE_SIZE\<close>.\<close>

record part_flash =
  pf_base :: u32
  pf_len :: u32

definition pf_new :: "u32 \<Rightarrow> u32 \<Rightarrow> u32 \<Rightarrow> part_flash result" where
  "pf_new page base len =
     (if len = 0 \<or> base mod page \<noteq> 0 \<or> len mod page \<noteq> 0 \<or> checked_add32 base len = None
      then Inl InvalidGeometry else Inr \<lparr>pf_base = base, pf_len = len\<rparr>)"

definition pf_at :: "part_flash \<Rightarrow> u32 \<Rightarrow> nat \<Rightarrow> u32 result" where
  "pf_at f offset count =
     (if count \<ge> 2 ^ 32 then Inl InvalidGeometry
      else case checked_add32 offset (of_nat count) of
        Some end_ \<Rightarrow> if end_ \<le> pf_len f then Inr (pf_base f + offset) else Inl InvalidGeometry
      | None \<Rightarrow> Inl InvalidGeometry)"

definition pf_read :: "'d storage \<Rightarrow> part_flash \<Rightarrow> 'd \<Rightarrow> u32 \<Rightarrow> nat \<Rightarrow> bytes result \<times> 'd" where
  "pf_read St f d offset n =
     (case pf_at f offset n of
        Inl e \<Rightarrow> (Inl e, d)
      | Inr a \<Rightarrow> (case read_nor St d a n of (r, d) \<Rightarrow> (ok_or r Hardware, d)))"

definition pf_write :: "'d storage \<Rightarrow> part_flash \<Rightarrow> 'd \<Rightarrow> u32 \<Rightarrow> bytes \<Rightarrow> unit result \<times> 'd" where
  "pf_write St f d offset bs =
     (case pf_at f offset (length bs) of
        Inl e \<Rightarrow> (Inl e, d)
      | Inr a \<Rightarrow> (case write_nor St d a bs of (ok, d) \<Rightarrow> (ensure ok Hardware, d)))"

definition pf_erase_page :: "'d storage \<Rightarrow> u32 \<Rightarrow> part_flash \<Rightarrow> 'd \<Rightarrow> u32 \<Rightarrow> unit result \<times> 'd" where
  "pf_erase_page St page f d offset =
     (case pf_at f offset (unat page) of
        Inl e \<Rightarrow> (Inl e, d)
      | Inr a \<Rightarrow> (case erase St d a (a + page) of (ok, d) \<Rightarrow> (ensure ok Hardware, d)))"

section \<open>Several partitions on one flash\<close>

text \<open>\<open>SharedPartition::with\<close>: a fresh \<open>PartitionFlash\<close> for each operation.\<close>

definition shared_with ::
  "u32 \<Rightarrow> part_flash \<Rightarrow> (part_flash \<Rightarrow> 'd \<Rightarrow> 'a result \<times> 'd) \<Rightarrow> 'd \<Rightarrow> 'a result \<times> 'd" where
  "shared_with page sp f d =
     (case pf_new page (pf_base sp) (pf_len sp) of Inl e \<Rightarrow> (Inl e, d) | Inr p \<Rightarrow> f p d)"

definition shared_read where
  "shared_read St page sp d offset n = shared_with page sp (\<lambda>p d. pf_read St p d offset n) d"

definition shared_write where
  "shared_write St page sp d offset bs = shared_with page sp (\<lambda>p d. pf_write St p d offset bs) d"

definition shared_erase_page where
  "shared_erase_page St page sp d offset = shared_with page sp (\<lambda>p d. pf_erase_page St page p d offset) d"

text \<open>\<open>nvs_open\<close> is \<open>NvsKv::open\<close>.\<close>

definition open_shared ::
  "'d storage \<Rightarrow> u32 \<Rightarrow> (part_flash \<Rightarrow> rstr \<Rightarrow> 'd \<Rightarrow> 'n result \<times> 'd) \<Rightarrow> 'd \<Rightarrow> rstr \<Rightarrow> rstr
     \<Rightarrow> 'n option result \<times> 'd"
where
  "open_shared St off nvs_open d label namespace =
     (case find_partition St off d label of
        (Inl e, d) \<Rightarrow> (Inl e, d)
      | (Inr None, d) \<Rightarrow> (Inr None, d)
      | (Inr (Some part), d) \<Rightarrow>
          (case nvs_open \<lparr>pf_base = pt_offset part, pf_len = pt_len part\<rparr> namespace d of
             (Inl e, d) \<Rightarrow> (Inl e, d)
           | (Inr kv, d) \<Rightarrow> (Inr (Some kv), d)))"

text \<open>\<open>Store\<close>: a namespace behind a \<open>RefCell\<close>, each call forwarded.\<close>

definition store_kv :: "'s kv \<Rightarrow> 's kv" where
  "store_kv K = \<lparr>kv_get = \<lambda>s key n. kv_get K s key n, kv_put = \<lambda>s key v. kv_put K s key v,
     kv_remove = \<lambda>s key. kv_remove K s key\<rparr>"

end
