(* ===== verification/Flash_Correct.thy ===== *)
theory Flash_Correct
  imports Flash
begin

text \<open>
  The table's offset is the number its digits spell or a build error; a label is found at its
  first entry; and no operation on a partition reaches a byte outside it.
\<close>

section \<open>The number\<close>

fun digits_value :: "bool \<Rightarrow> nat \<Rightarrow> bytes \<Rightarrow> nat option" where
  "digits_value hex v [] = Some v"
| "digits_value hex v (c # r) =
     (case digit_value hex c of None \<Rightarrow> None
      | Some d \<Rightarrow> digits_value hex (v * (if hex then 16 else 10) + unat d) r)"

lemma checked_mul32_Some: "checked_mul32 a b = Some c \<longleftrightarrow> unat a * unat b < 2 ^ 32 \<and> c = a * b"
  by (auto simp: checked_mul32_def)

lemma checked_add32_Some: "checked_add32 a b = Some c \<longleftrightarrow> unat a + unat b < 2 ^ 32 \<and> c = a + b"
  by (auto simp: checked_add32_def)

lemma unat_mul32: "unat (a :: u32) * unat b < 2 ^ 32 \<Longrightarrow> unat (a * b) = unat a * unat b"
  by (simp add: unat_word_ariths(2))

lemma unat_add32: "unat (a :: u32) + unat b < 2 ^ 32 \<Longrightarrow> unat (a + b) = unat a + unat b"
  by (simp add: unat_word_ariths(1))

lemma digits_value_mono: "digits_value hex v r = Some x \<Longrightarrow> v \<le> x"
proof (induction hex v r rule: digits_value.induct)
  case (2 hex v c r)
  then obtain d where "digit_value hex c = Some d" "digits_value hex (v * (if hex then 16 else 10) + unat d) r = Some x"
    by (auto split: option.splits)
  with 2(1) have "v * (if hex then 16 else 10) + unat d \<le> x" by blast
  then show ?case by (auto split: if_splits)
qed simp

lemma parse_digits_value:
  "parse_digits hex v r = Some w \<longleftrightarrow>
     digits_value hex (unat v) r = Some (unat w) \<and> unat w < 2 ^ 32"
proof (induction hex v r rule: parse_digits.induct)
  case (1 hex v)
  then show ?case using unsigned_less [of w, where 'a = nat] by (auto simp: word_unat_eq_iff)
next
  case (2 hex v c r)
  let ?radix = "if hex then 16 else 10 :: u32"
  have radix: "unat ?radix = (if hex then 16 else 10)" by simp
  show ?case
  proof (cases "digit_value hex c")
    case None
    then show ?thesis by simp
  next
    case (Some d)
    show ?thesis
    proof (cases "unat v * unat ?radix + unat d < 2 ^ 32")
      case True
      then have m: "checked_mul32 v ?radix = Some (v * ?radix)"
        and n: "checked_add32 (v * ?radix) d = Some (v * ?radix + d)"
        by (simp_all add: checked_mul32_Some checked_add32_Some unat_mul32)
      have u: "unat (v * ?radix + d) = unat v * (if hex then 16 else 10) + unat d"
        using True radix by (simp add: unat_add32 unat_mul32)
      from 2 [OF Some m n] m n Some u show ?thesis by simp
    next
      case False
      have "parse_digits hex v (c # r) = None"
      proof (cases "unat v * unat ?radix < 2 ^ 32")
        case True
        with False have "checked_mul32 v ?radix = Some (v * ?radix)" "checked_add32 (v * ?radix) d = None"
          by (simp_all add: checked_mul32_Some checked_add32_def unat_mul32)
        with Some show ?thesis by simp
      next
        case False
        then have "checked_mul32 v ?radix = None" by (simp add: checked_mul32_def)
        with Some show ?thesis by simp
      qed
      moreover have "\<not> (digits_value hex (unat v) (c # r) = Some (unat w) \<and> unat w < 2 ^ 32)"
        using False radix digits_value_mono [of hex "unat v * unat ?radix + unat d" r "unat w"] Some
        by auto
      ultimately show ?thesis by simp
    qed
  qed
qed

section \<open>The search\<close>

text \<open>The entries before the first end mark.\<close>

definition end_mark :: "bytes \<Rightarrow> bool" where
  "end_mark e \<longleftrightarrow> take 2 e = MD5_MAGIC \<or> take 2 e = [0xFF, 0xFF]"

definition table_entries :: "bytes list \<Rightarrow> bytes list" where
  "table_entries es = takeWhile (\<lambda>e. \<not> end_mark e) es"

lemma search_entries_step:
  "search_entries label (e # es) =
     (if end_mark e then Inr None
      else if take 2 e \<noteq> ENTRY_MAGIC then Inl Corrupt
      else if partition_label (entry_partition e) = label then Inr (Some (entry_partition e))
      else search_entries label es)"
  by (simp only: search_entries.simps end_mark_def)

declare search_entries.simps(2) [simp del]

lemma table_entries_simps [simp]:
  "table_entries [] = []"
  "table_entries (e # es) = (if end_mark e then [] else e # table_entries es)"
  by (simp_all add: table_entries_def)

lemma search_entries_find:
  "\<forall>e \<in> set (table_entries es). take 2 e = ENTRY_MAGIC \<Longrightarrow>
     search_entries label es =
     Inr (find (\<lambda>p. partition_label p = label) (map entry_partition (table_entries es)))"
  by (induction es) (auto simp: search_entries_step split: if_splits)

lemma search_entries_Cons:
  "search_entries label (e # es) = Inr (Some p) \<longleftrightarrow>
     \<not> end_mark e \<and> take 2 e = ENTRY_MAGIC \<and>
     (if partition_label (entry_partition e) = label then p = entry_partition e
      else search_entries label es = Inr (Some p))"
  by (auto simp: search_entries_step)

text \<open>An entry \<open>find_partition\<close> reads past: no end mark, well formed, another label.\<close>

definition passed_over :: "rstr \<Rightarrow> bytes \<Rightarrow> bool" where
  "passed_over label e \<longleftrightarrow>
     \<not> end_mark e \<and> take 2 e = ENTRY_MAGIC \<and> partition_label (entry_partition e) \<noteq> label"

lemma search_entries_Some:
  "search_entries label es = Inr (Some p) \<Longrightarrow>
     \<exists>pre e post. es = pre @ e # post \<and> p = entry_partition e \<and> partition_label p = label \<and>
       \<not> end_mark e \<and> take 2 e = ENTRY_MAGIC \<and> list_all (passed_over label) pre"
proof (induction es)
  case (Cons e es)
  note c = Cons.prems [unfolded search_entries_Cons]
  show ?case
  proof (cases "partition_label (entry_partition e) = label")
    case True
    with c show ?thesis
      by (intro exI [of _ "[]"] exI [of _ e] exI [of _ es]) simp
  next
    case False
    with c have "search_entries label es = Inr (Some p)" and e: "passed_over label e"
      by (simp_all add: passed_over_def)
    with Cons.IH obtain pre x post where "es = pre @ x # post" "p = entry_partition x"
      "partition_label p = label" "\<not> end_mark x" "take 2 x = ENTRY_MAGIC" "list_all (passed_over label) pre"
      by blast
    with e show ?thesis by (intro exI [of _ "e # pre"] exI [of _ x] exI [of _ post]) simp
  qed
qed simp

lemma search_entries_pass:
  "list_all (passed_over label) pre \<Longrightarrow> search_entries label (pre @ es) = search_entries label es"
  by (induction pre) (simp_all add: search_entries_step passed_over_def)

lemma search_entries_first:
  "search_entries label es = Inr (Some p) \<longleftrightarrow>
     (\<exists>pre e post. es = pre @ e # post \<and> list_all (passed_over label) pre \<and>
        \<not> end_mark e \<and> take 2 e = ENTRY_MAGIC \<and> p = entry_partition e \<and> partition_label p = label)"
  (is "?l \<longleftrightarrow> ?r")
proof
  assume ?l then show ?r using search_entries_Some by blast
next
  assume ?r then show ?l by (auto simp: search_entries_pass search_entries_Cons)
qed

lemma search_entries_error:
  "search_entries label es = Inl err \<Longrightarrow> err = Corrupt \<and> (\<exists>e \<in> set (table_entries es). take 2 e \<noteq> ENTRY_MAGIC)"
  by (induction es) (auto simp: search_entries_step split: if_splits)

section \<open>Staying inside the partition\<close>

definition part_wf :: "part_flash \<Rightarrow> bool" where
  "part_wf f \<longleftrightarrow> unat (pf_base f) + unat (pf_len f) < 2 ^ 32"

definition inside :: "part_flash \<Rightarrow> nat \<Rightarrow> bool" where
  "inside f a \<longleftrightarrow> unat (pf_base f) \<le> a \<and> a < unat (pf_base f) + unat (pf_len f)"

lemma pf_new_wf:
  "pf_new page base len = Inr f \<Longrightarrow> part_wf f \<and> pf_base f = base \<and> pf_len f = len \<and> len \<noteq> 0"
  by (auto simp: pf_new_def part_wf_def checked_add32_def split: if_splits)

lemma pf_at_Inr:
  assumes "part_wf f"
  shows "pf_at f offset count = Inr a \<longleftrightarrow>
    unat offset + count \<le> unat (pf_len f) \<and> unat a = unat (pf_base f) + unat offset"
proof -
  have len: "unat (pf_len f) < 2 ^ 32" using unsigned_less [of "pf_len f", where 'a = nat] by simp
  show ?thesis
  proof (cases "unat offset + count \<le> unat (pf_len f)")
    case True
    with len have c: "unat (of_nat count :: u32) = count" by (simp add: unat_of_nat)
    with True len have add: "checked_add32 offset (of_nat count) = Some (offset + of_nat count)"
      by (simp add: checked_add32_def)
    have "unat (offset + of_nat count) = unat offset + count"
      using True len c by (simp add: unat_add32)
    with True have le: "offset + of_nat count \<le> pf_len f" by (simp add: word_le_nat_alt)
    have "unat (pf_base f + offset) = unat (pf_base f) + unat offset"
      using True assms by (intro unat_add32) (simp add: part_wf_def)
    with True len add le show ?thesis
      by (auto simp: pf_at_def word_unat_eq_iff)
  next
    case False
    have "pf_at f offset count = Inl InvalidGeometry"
    proof (cases "count < 2 ^ 32 \<and> unat offset + count < 2 ^ 32")
      case True
      then have c: "unat (of_nat count :: u32) = count" by (simp add: unat_of_nat)
      with True have "unat (offset + of_nat count) = unat offset + count" by (simp add: unat_add32)
      with False have "\<not> offset + of_nat count \<le> pf_len f" by (simp add: word_le_nat_alt)
      with True c show ?thesis by (simp add: pf_at_def checked_add32_def)
    next
      case out: False
      show ?thesis
      proof (cases "count < 2 ^ 32")
        case True
        then have "unat (of_nat count :: u32) = count" by (simp add: unat_of_nat)
        with True out show ?thesis by (simp add: pf_at_def checked_add32_def)
      qed (simp add: pf_at_def)
    qed
    with False show ?thesis by simp
  qed
qed

text \<open>
  The driver's contract: \<open>mem d a\<close> is the byte at address \<open>a\<close>. A read changes nothing; a write
  and an erase change at most the addresses they are given, whether or not they succeed.
\<close>

locale nor_flash =
  fixes St :: "'d storage" and mem :: "'d \<Rightarrow> nat \<Rightarrow> u8"
  assumes read_mem: "read_nor St d a n = (r, d') \<Longrightarrow> mem d' = mem d"
    and read_bytes: "read_nor St d a n = (Some bs, d') \<Longrightarrow>
      bs = map (\<lambda>i. mem d (unat a + i)) [0..<n]"
    and write_frame: "write_nor St d a bs = (ok, d') \<Longrightarrow>
      x < unat a \<or> unat a + length bs \<le> x \<Longrightarrow> mem d' x = mem d x"
    and erase_frame: "erase St d a b = (ok, d') \<Longrightarrow> x < unat a \<or> unat b \<le> x \<Longrightarrow> mem d' x = mem d x"
begin

lemma pf_read_frame:
  "pf_read St f d offset n = (r, d') \<Longrightarrow> mem d' = mem d"
  using read_mem by (auto simp: pf_read_def split: sum.splits prod.splits)

lemma pf_write_frame:
  assumes "part_wf f" "pf_write St f d offset bs = (r, d')" "\<not> inside f x"
  shows "mem d' x = mem d x"
proof (cases "pf_at f offset (length bs)")
  case (Inl e)
  with assms(2) show ?thesis by (simp add: pf_write_def)
next
  case (Inr a)
  then obtain ok where w: "write_nor St d a bs = (ok, d')"
    using assms(2) by (auto simp: pf_write_def split: prod.splits)
  from Inr pf_at_Inr [OF assms(1)] have "unat offset + length bs \<le> unat (pf_len f)"
    "unat a = unat (pf_base f) + unat offset" by blast+
  with assms(3) show ?thesis by (intro write_frame [OF w]) (auto simp: inside_def)
qed

lemma pf_erase_frame:
  assumes "part_wf f" "pf_erase_page St page f d offset = (r, d')" "\<not> inside f x"
  shows "mem d' x = mem d x"
proof (cases "pf_at f offset (unat page)")
  case (Inl e)
  with assms(2) show ?thesis by (simp add: pf_erase_page_def)
next
  case (Inr a)
  then obtain ok where w: "erase St d a (a + page) = (ok, d')"
    using assms(2) by (auto simp: pf_erase_page_def split: prod.splits)
  from Inr pf_at_Inr [OF assms(1)] have a: "unat offset + unat page \<le> unat (pf_len f)"
    "unat a = unat (pf_base f) + unat offset" by blast+
  with assms(1) have "unat (a + page) = unat a + unat page"
    by (intro unat_add32) (simp add: part_wf_def)
  with a assms(3) show ?thesis by (intro erase_frame [OF w]) (auto simp: inside_def)
qed

text \<open>What a read returns is the partition's own bytes.\<close>

lemma pf_read_bytes:
  assumes "part_wf f" "pf_read St f d offset n = (Inr bs, d')"
  shows "unat offset + n \<le> unat (pf_len f)"
    and "bs = map (\<lambda>i. mem d (unat (pf_base f) + unat offset + i)) [0..<n]"
proof -
  from assms(2) obtain a where a: "pf_at f offset n = Inr a" and r: "read_nor St d a n = (Some bs, d')"
    by (auto simp: pf_read_def split: sum.splits prod.splits)
  from a pf_at_Inr [OF assms(1)] have b: "unat offset + n \<le> unat (pf_len f)"
    "unat a = unat (pf_base f) + unat offset" by blast+
  then show "unat offset + n \<le> unat (pf_len f)" by blast
  show "bs = map (\<lambda>i. mem d (unat (pf_base f) + unat offset + i)) [0..<n]"
    using read_bytes [OF r] b(2) by (simp add: add.assoc)
qed

end

text \<open>The operations of one partition as steps, for runs that interleave two of them.\<close>

inductive part_step :: "'d storage \<Rightarrow> u32 \<Rightarrow> part_flash \<Rightarrow> 'd \<Rightarrow> 'd \<Rightarrow> bool" for St page f where
  step_read: "shared_read St page f d offset n = (r, d') \<Longrightarrow> part_step St page f d d'"
| step_write: "shared_write St page f d offset bs = (w, d') \<Longrightarrow> part_step St page f d d'"
| step_erase: "shared_erase_page St page f d offset = (w, d') \<Longrightarrow> part_step St page f d d'"

inductive_cases part_stepE: "part_step St page f d d'"

context nor_flash
begin

lemma part_step_frame:
  assumes "part_step St page f d d'" "\<not> inside f x"
  shows "mem d' x = mem d x"
proof -
  have wf: "pf_new page (pf_base f) (pf_len f) = Inr p \<Longrightarrow> part_wf p \<and> p = f" for p
    using pf_new_wf [of page "pf_base f" "pf_len f" p] by (cases p; cases f) auto
  from assms(1) show ?thesis
  proof (rule part_stepE)
    fix offset n r
    assume "shared_read St page f d offset n = (r, d')"
    then show ?thesis
      using pf_read_frame by (auto simp: shared_read_def shared_with_def split: sum.splits)
  next
    fix offset bs w
    assume "shared_write St page f d offset bs = (w, d')"
    then show ?thesis
      using pf_write_frame wf assms(2)
      by (auto simp: shared_write_def shared_with_def split: sum.splits)
  next
    fix offset w
    assume "shared_erase_page St page f d offset = (w, d')"
    then show ?thesis
      using pf_erase_frame wf assms(2)
      by (auto simp: shared_erase_page_def shared_with_def split: sum.splits)
  qed
qed

lemma part_run_frame:
  "(part_step St page f)\<^sup>*\<^sup>* d d' \<Longrightarrow> \<not> inside f x \<Longrightarrow> mem d' x = mem d x"
  by (induction rule: rtranclp_induct) (auto simp: part_step_frame)

text \<open>Whatever is done to one partition, a disjoint one reads as before.\<close>

lemma partitions_isolated:
  assumes "(part_step St page f)\<^sup>*\<^sup>* d d'" "\<And>x. inside g x \<Longrightarrow> \<not> inside f x" "part_wf g"
    and "pf_read St g d offset n = (Inr bs, d1)" "pf_read St g d' offset n = (Inr bs', d2)"
  shows "bs' = bs"
proof -
  have "mem d' (unat (pf_base g) + unat offset + i) = mem d (unat (pf_base g) + unat offset + i)"
    if "i < n" for i
    using that pf_read_bytes(1) [OF assms(3,4)]
    by (intro part_run_frame [OF assms(1)] assms(2)) (simp add: inside_def)
  with pf_read_bytes(2) [OF assms(3,4)] pf_read_bytes(2) [OF assms(3,5)] show ?thesis by simp
qed

end

section \<open>A sample driver\<close>

definition sample_flash :: "(nat \<Rightarrow> u8) storage" where
  "sample_flash = \<lparr>
     flash_encryption = False,
     read_encrypted = (\<lambda>d a n. (Some (map (\<lambda>i. d (unat a + i)) [0..<n]), d)),
     read_nor = (\<lambda>d a n. (Some (map (\<lambda>i. d (unat a + i)) [0..<n]), d)),
     write_nor = (\<lambda>d a bs. (True, \<lambda>x. if unat a \<le> x \<and> x < unat a + length bs then bs ! (x - unat a) else d x)),
     erase = (\<lambda>d a b. (True, \<lambda>x. if unat a \<le> x \<and> x < unat b then 0xFF else d x)) \<rparr>"

interpretation sample_nor: nor_flash sample_flash "\<lambda>d. d"
  by unfold_locales (auto simp: sample_flash_def)

section \<open>A shared namespace is the namespace\<close>

lemma store_kv_same: "store_kv K = K"
  by (cases K) (simp add: store_kv_def)

end
