(* ===== verification/Chip.thy ===== *)
theory Chip
  imports Key_Correct Flash Seal
begin

text \<open>
  The rest of the chip backends: the random sources (\<open>hal/rng.rs\<close>, \<open>idf/rng.rs\<close>), the sealing key
  (\<open>hal/seal.rs\<close>) and the build's track (\<open>lib.rs\<close>).
\<close>

section \<open>Random sources\<close>

text \<open>\<open>random\<close> is \<open>Trng::random\<close>; \<open>EspHalRng::fill\<close> and the firmware's \<open>ChipRng::fill\<close> are one loop.\<close>

definition u32_to_le :: "u32 \<Rightarrow> bytes" where
  "u32_to_le w = rev (u32_to_be w)"

function fill_words :: "('r \<Rightarrow> u32 \<times> 'r) \<Rightarrow> 'r \<Rightarrow> nat \<Rightarrow> bytes \<times> 'r" where
  "fill_words random r n =
     (if n = 0 then ([], r)
      else case random r of (w, r) \<Rightarrow>
        (case fill_words random r (n - min 4 n) of (bs, r) \<Rightarrow> (take (min 4 n) (u32_to_le w) @ bs, r)))"
  by pat_completeness auto
termination
  by (relation "measure (\<lambda>(_, _, n). n)") auto

declare fill_words.simps [simp del]

definition esp_hal_rng :: "('r \<Rightarrow> u32 \<times> 'r) \<Rightarrow> 'r rng" where
  "esp_hal_rng random r n = (case fill_words random r n of (bs, r) \<Rightarrow> (Inr bs, r))"

definition chip_rng :: "('r \<Rightarrow> u32 \<times> 'r) \<Rightarrow> 'r rng" where
  "chip_rng random r n = (case fill_words random r n of (bs, r) \<Rightarrow> (Inr bs, r))"

text \<open>The state of \<open>EspRng\<close> is its flag beside the generator's; \<open>esp_fill\<close> is \<open>esp_fill_random\<close>.\<close>

definition after_radio_start :: "'r \<Rightarrow> bool \<times> 'r" where "after_radio_start r = (True, r)"
definition unarmed :: "'r \<Rightarrow> bool \<times> 'r" where "unarmed r = (False, r)"

definition esp_rng :: "('r \<Rightarrow> nat \<Rightarrow> bytes \<times> 'r) \<Rightarrow> (bool \<times> 'r) rng" where
  "esp_rng esp_fill st n =
     (case st of (armed, r) \<Rightarrow>
        if \<not> armed then (Inl Busy, st)
        else if n = 0 then (Inr [], st)
        else (case esp_fill r n of (bs, r) \<Rightarrow> (Inr bs, (armed, r))))"

lemma fill_words_length: "length (fst (fill_words random r n)) = n"
proof (induction random r n rule: fill_words.induct)
  case (1 random r n)
  show ?case
  proof (cases "n = 0")
    case True
    then show ?thesis by (simp add: fill_words.simps [of _ _ 0])
  next
    case False
    obtain w r1 where w: "random r = (w, r1)" by (rule prod.exhaust)
    obtain bs r2 where bs: "fill_words random r1 (n - min 4 n) = (bs, r2)" by (rule prod.exhaust)
    have "length bs = n - min 4 n" using 1 [OF False w [symmetric]] bs by simp
    moreover have "fill_words random r n = (take (min 4 n) (u32_to_le w) @ bs, r2)"
      using False w bs by (subst fill_words.simps) simp
    ultimately show ?thesis by (simp add: u32_to_le_def)
  qed
qed

lemma esp_hal_rng_ok: "rng_ok (esp_hal_rng random)"
proof (unfold rng_ok_def, intro conjI allI impI)
  fix r n bs r'
  assume "esp_hal_rng random r n = (Inr bs, r')"
  then show "length bs = n"
    using fill_words_length [of random r n] by (auto simp: esp_hal_rng_def split: prod.splits)
qed (auto simp: esp_hal_rng_def split: prod.splits)

lemma chip_rng_same: "chip_rng = esp_hal_rng"
  by (intro ext) (simp add: chip_rng_def esp_hal_rng_def)

lemma esp_rng_ok: "(\<And>r n. length (fst (esp_fill r n)) = n) \<Longrightarrow> rng_ok (esp_rng esp_fill)"
  by (auto simp: rng_ok_def esp_rng_def split: prod.splits if_splits) (metis fst_conv)

lemma esp_rng_unarmed: "esp_rng esp_fill (unarmed r) n = (Inl Busy, unarmed r)"
  by (simp add: esp_rng_def unarmed_def)

section \<open>The sealing key\<close>

text \<open>
  The HMAC peripheral, each call as \<open>nb::block!\<close> leaves it. The loop has no bound of its own:
  \<open>None\<close> is a loop that does not return.
\<close>

record 'h hmac =
  hm_init :: "'h \<Rightarrow> 'h"
  hm_configure :: "'h \<Rightarrow> nat \<Rightarrow> 'h option"
  hm_update :: "'h \<Rightarrow> bytes \<Rightarrow> ('h \<times> bytes) option"
  hm_finalize :: "'h \<Rightarrow> bytes option"

partial_function (option) hmac_feed :: "'h hmac \<Rightarrow> 'h \<Rightarrow> bytes \<Rightarrow> 'h option option" where
  "hmac_feed H h rest =
     (if rest = [] then Some (Some h)
      else case hm_update H h rest of
        None \<Rightarrow> Some None
      | Some (h', rest') \<Rightarrow> hmac_feed H h' rest')"

definition seal_key :: "'h hmac \<Rightarrow> 'h \<Rightarrow> nat \<Rightarrow> bytes option option" where
  "seal_key H h block =
     (case hm_configure H (hm_init H h) block of
        None \<Rightarrow> Some None
      | Some h \<Rightarrow> map_option (\<lambda>fed. fed \<bind> hm_finalize H) (hmac_feed H h KEY_LABEL))"

text \<open>A peripheral that takes at least a byte at a time and authenticates what it was given.\<close>

locale hmac_peripheral =
  fixes H :: "'h hmac" and absorbed :: "'h \<Rightarrow> bytes" and efuse :: "'h \<Rightarrow> nat"
    and mac :: "nat \<Rightarrow> bytes \<Rightarrow> bytes option"
  assumes configured: "hm_configure H h b = Some h' \<Longrightarrow> absorbed h' = [] \<and> efuse h' = b"
    and takes: "rest \<noteq> [] \<Longrightarrow> \<exists>h' rest'. hm_update H h rest = Some (h', rest') \<and>
      absorbed h' @ rest' = absorbed h @ rest \<and> length rest' < length rest \<and> efuse h' = efuse h"
    and authenticates: "hm_finalize H h = mac (efuse h) (absorbed h)"
begin

lemma hmac_feed_returns:
  "\<exists>h'. hmac_feed H h rest = Some (Some h') \<and> absorbed h' = absorbed h @ rest \<and> efuse h' = efuse h"
proof (induction rest arbitrary: h rule: length_induct)
  case (1 rest)
  show ?case
  proof (cases "rest = []")
    case True
    then show ?thesis by (simp add: hmac_feed.simps)
  next
    case False
    then obtain h' rest' where u: "hm_update H h rest = Some (h', rest')"
      "absorbed h' @ rest' = absorbed h @ rest" "length rest' < length rest" "efuse h' = efuse h"
      using takes by blast
    then obtain h'' where "hmac_feed H h' rest' = Some (Some h'')"
      "absorbed h'' = absorbed h' @ rest'" "efuse h'' = efuse h'"
      using 1 by blast
    with u False show ?thesis by (subst hmac_feed.simps) simp
  qed
qed

lemma seal_key_mac:
  "seal_key H h block =
     Some (if hm_configure H (hm_init H h) block = None then None else mac block KEY_LABEL)"
proof (cases "hm_configure H (hm_init H h) block")
  case None
  then show ?thesis by (simp add: seal_key_def)
next
  case (Some h1)
  obtain h2 where "hmac_feed H h1 KEY_LABEL = Some (Some h2)" "absorbed h2 = absorbed h1 @ KEY_LABEL"
    "efuse h2 = efuse h1"
    using hmac_feed_returns by blast
  with Some configured [OF Some] authenticates show ?thesis by (simp add: seal_key_def)
qed

end

text \<open>A peripheral of four-byte words over two burned blocks.\<close>

definition sample_hmac :: "(nat \<times> bytes) hmac" where
  "sample_hmac = \<lparr>
     hm_init = (\<lambda>h. h),
     hm_configure = (\<lambda>h b. if b < 2 then Some (b, []) else None),
     hm_update = (\<lambda>(b, a) rest. Some ((b, a @ take 4 rest), drop 4 rest)),
     hm_finalize = (\<lambda>(b, a). Some (replicate 31 (of_nat b) @ [sum_list a])) \<rparr>"

interpretation sample_peripheral: hmac_peripheral sample_hmac snd fst
  "\<lambda>b a. Some (replicate 31 (of_nat b) @ [sum_list a])"
  by unfold_locales (auto simp: sample_hmac_def split: if_splits)

section \<open>The track\<close>

datatype track = Host | EspHal | EspIdf

definition TRACK :: "bool \<Rightarrow> bool \<Rightarrow> track" where
  "TRACK esp_hal esp_idf = (if esp_hal then EspHal else if esp_idf then EspIdf else Host)"

end
