(* ===== verification/Firmware.thy ===== *)
theory Firmware
  imports Chip Jws
begin

text \<open>
  The bench firmware \<open>firmware/xiao-s3-keys/src/main.rs\<close>: the identity it loads or mints at boot,
  the owner's partition it reads, the writer's proof, and the sign/verify bench. What it prints is
  a list of \<open>line\<close>s. Parameters stand for what it calls: \<open>M\<close> for \<open>rusty_esp_core::nvs::NvsKv\<close>,
  \<open>St\<close> for \<open>esp_storage\<close>, \<open>us\<close> for the clock (what each measured stretch takes), and the
  primitives. The kernel's name, the clock's rate and the heap's use are values it prints.
\<close>

section \<open>What it prints\<close>

datatype line =
    PartitionAt rstr u32 u32
  | NoPartition rstr
  | TableError rstr error
  | OpenError rstr error
  | Loaded did u64
  | Minted did u64
  | MintError error
  | IdentityError error
  | NameIs rstr
  | Present rstr
  | Absent rstr
  | KeyError rstr error
  | BlobPresent nat
  | BlobAbsent
  | BlobError error
  | Put32 "unit result" u64 "nat option result" u64 bool
  | Put100 "unit result" "nat option result" bool
  | Removed "bool result" "nat option result"
  | Banner
  | KernelIs rstr
  | CpuAt u64 nat bool
  | RngUnavailable
  | GenerateFailed error
  | Op rstr nat u64 u64 u64 u64 u64
  | VerifyOk u32 nat
  | Work nat nat nat
  | OpJws u64 u64 u64 u64 u64 nat
  | DidOwnedLen nat
  | MemIs nat nat
  | Done

text \<open>The stretches of code between an \<open>Instant::now\<close> and its \<open>elapsed\<close>.\<close>

datatype stretch = Boot | PutBlob | GetBlob | Mint | Sign nat | Verify nat | BuildJws

type_synonym clock = "stretch \<Rightarrow> u64"

record ('d, 'n) nvs_module =
  nm_open :: "part_flash \<Rightarrow> rstr \<Rightarrow> 'd \<Rightarrow> error \<times> 'd + 'n"
  nm_kv :: "'n kv"
  nm_close :: "'n \<Rightarrow> 'd"

definition NAMESPACE :: rstr where "NAMESPACE = ascii ''janus''"
definition DEVICE_ID :: rstr where "DEVICE_ID = ascii ''xiao-s3''"
definition PROOF_NAMESPACE :: rstr where "PROOF_NAMESPACE = ascii ''x4''"

section \<open>The identity partition\<close>

text \<open>\<open>PartitionFlash::new\<close> and then \<open>NvsKv::open\<close>; the flash comes back with an error.\<close>

definition open_part ::
  "('d, 'n) nvs_module \<Rightarrow> u32 \<Rightarrow> partition \<Rightarrow> rstr \<Rightarrow> 'd \<Rightarrow> error \<times> 'd + 'n" where
  "open_part M page part namespace d =
     (case pf_new page (pt_offset part) (pt_len part) of
        Inl e \<Rightarrow> Inl (e, d)
      | Inr f \<Rightarrow> nm_open M f namespace d)"

definition report_identity ::
  "('sk, 'vk, 'sig) prims \<Rightarrow> 'n kv \<Rightarrow> 'r rng \<Rightarrow> clock \<Rightarrow> 'n \<Rightarrow> 'r \<Rightarrow> line \<times> 'n \<times> 'r" where
  "report_identity P K fill us s r =
     (case load P K s DEVICE_ID of
        Inr (Some key) \<Rightarrow> (Loaded (key_did P key) (us Boot), s, r)
      | Inr None \<Rightarrow>
          (case load_or_generate P K fill s r DEVICE_ID of
             (Inr key, s, r) \<Rightarrow> (Minted (key_did P key) (us Boot), s, r)
           | (Inl e, s, r) \<Rightarrow> (MintError e, s, r))
      | Inl e \<Rightarrow> (IdentityError e, s, r))"

text \<open>The flag says whether \<open>run\<close> goes on: every early return is \<open>False\<close>.\<close>

definition run_identity ::
  "('sk, 'vk, 'sig) prims \<Rightarrow> ('d, 'n) nvs_module \<Rightarrow> 'd storage \<Rightarrow> u32 \<Rightarrow> u32 \<Rightarrow> 'r rng \<Rightarrow> clock
     \<Rightarrow> 'd \<Rightarrow> 'r \<Rightarrow> (line list \<times> bool) \<times> 'd \<times> 'r"
where
  "run_identity P M St off page fill us d r =
     (case find_partition St off d (ascii ''identity'') of
        (Inl e, d) \<Rightarrow> (([TableError (ascii ''identity'') e], False), d, r)
      | (Inr None, d) \<Rightarrow> (([NoPartition (ascii ''identity'')], False), d, r)
      | (Inr (Some part), d) \<Rightarrow>
          let placed = PartitionAt (ascii ''identity'') (pt_offset part) (pt_len part) in
          (case open_part M page part NAMESPACE d of
             Inl (e, d) \<Rightarrow> (([placed, OpenError (ascii ''identity'') e], False), d, r)
           | Inr kv \<Rightarrow>
               (case report_identity P (nm_kv M) fill us kv r of
                  (line, kv, r) \<Rightarrow> (([placed, line], True), nm_close M kv, r))))"

section \<open>The owner's partition\<close>

definition read_name :: "'n kv \<Rightarrow> 'n \<Rightarrow> line" where
  "read_name K s =
     (case kv_get K s (ascii ''name'') 64 of
        Inr (Some v) \<Rightarrow> NameIs (case from_utf8 v of Some t \<Rightarrow> t | None \<Rightarrow> ascii ''?'')
      | Inr None \<Rightarrow> Absent (ascii ''name'')
      | Inl e \<Rightarrow> KeyError (ascii ''name'') e)"

text \<open>Presence only.\<close>

definition read_presence :: "'n kv \<Rightarrow> 'n \<Rightarrow> rstr \<Rightarrow> line" where
  "read_presence K s key =
     (case kv_get K s key 64 of
        Inr (Some _) \<Rightarrow> Present key
      | Inr None \<Rightarrow> Absent key
      | Inl e \<Rightarrow> KeyError key e)"

definition PRESENCE_KEYS :: "rstr list" where
  "PRESENCE_KEYS = [ascii ''wifi.ssid'', ascii ''wifi.psk'', ascii ''maker'']"

definition run_owner ::
  "('d, 'n) nvs_module \<Rightarrow> 'd storage \<Rightarrow> u32 \<Rightarrow> u32 \<Rightarrow> 'd \<Rightarrow> (line list \<times> partition option) \<times> 'd"
where
  "run_owner M St off page d =
     (case find_partition St off d (ascii ''nvs'') of
        (Inl e, d) \<Rightarrow> (([TableError (ascii ''nvs'') e], None), d)
      | (Inr None, d) \<Rightarrow> (([NoPartition (ascii ''nvs'')], None), d)
      | (Inr (Some part), d) \<Rightarrow>
          let placed = PartitionAt (ascii ''nvs'') (pt_offset part) (pt_len part) in
          (case open_part M page part NAMESPACE d of
             Inl (e, d) \<Rightarrow> (([placed, OpenError (ascii ''nvs'') e], None), d)
           | Inr kv \<Rightarrow>
               (([placed, read_name (nm_kv M) kv] @ map (read_presence (nm_kv M) kv) PRESENCE_KEYS, Some part),
                nm_close M kv)))"

section \<open>The writer's proof\<close>

text \<open>A \<open>get\<close> into a buffer: what it answers, and the buffer after.\<close>

definition get_into :: "'n kv \<Rightarrow> 'n \<Rightarrow> rstr \<Rightarrow> bytes \<Rightarrow> nat option result \<times> bytes" where
  "get_into K s key buf =
     (case kv_get K s key (length buf) of
        Inr (Some v) \<Rightarrow> (Inr (Some (length v)), v @ drop (length v) buf)
      | Inr None \<Rightarrow> (Inr None, buf)
      | Inl e \<Rightarrow> (Inl e, buf))"

text \<open>The opened namespace: put, get, replace and remove, in the order of the code.\<close>

definition prove_writes :: "'n kv \<Rightarrow> clock \<Rightarrow> 'n \<Rightarrow> bytes \<Rightarrow> bytes \<Rightarrow> line list \<times> 'n" where
  "prove_writes K us s secret back =
     (case kv_put K s (ascii ''blob'') secret of (put, s) \<Rightarrow>
      case get_into K s (ascii ''blob'') back of (got, back) \<Rightarrow>
      let line32 = Put32 put (us PutBlob) got (us GetBlob) (take 32 back = secret);
          big = replicate 100 0xA5 in
      case kv_put K s (ascii ''big'') big of (put, s) \<Rightarrow>
      case get_into K s (ascii ''big'') back of (got, back) \<Rightarrow>
      let line100 = Put100 put got (take 100 back = big) in
      case kv_remove K s (ascii ''big'') of (removed, s) \<Rightarrow>
      case get_into K s (ascii ''big'') back of (after, back) \<Rightarrow>
      ([line32, line100, Removed removed after], s))"

text \<open>\<open>let _ = rng.fill(..)\<close>: a fill that fails leaves the zeros (the firmware's never does).\<close>

definition writer_proof ::
  "('d, 'n) nvs_module \<Rightarrow> u32 \<Rightarrow> 'r rng \<Rightarrow> clock \<Rightarrow> partition \<Rightarrow> 'd \<Rightarrow> 'r \<Rightarrow> line list \<times> 'd \<times> 'r"
where
  "writer_proof M page fill us part d r =
     (case open_part M page part PROOF_NAMESPACE d of
        Inl (e, d) \<Rightarrow> ([OpenError (ascii ''x4'') e], d, r)
      | Inr kv \<Rightarrow>
          (case get_into (nm_kv M) kv (ascii ''blob'') (replicate 128 0) of (got, back) \<Rightarrow>
           let line = (case got of Inr (Some n) \<Rightarrow> BlobPresent n | Inr None \<Rightarrow> BlobAbsent
                       | Inl e \<Rightarrow> BlobError e) in
           case fill r 32 of (filled, r) \<Rightarrow>
           let secret = (case filled of Inr bs \<Rightarrow> bs | Inl _ \<Rightarrow> replicate 32 0) in
           case prove_writes (nm_kv M) us kv secret back of (lines, kv) \<Rightarrow>
           (line # lines, nm_close M kv, r)))"

text \<open>\<open>identity::run\<close>, with the feature \<open>nvs-proof\<close> as an argument.\<close>

definition run ::
  "('sk, 'vk, 'sig) prims \<Rightarrow> ('d, 'n) nvs_module \<Rightarrow> 'd storage \<Rightarrow> u32 \<Rightarrow> u32 \<Rightarrow> 'r rng \<Rightarrow> clock \<Rightarrow> bool
     \<Rightarrow> 'd \<Rightarrow> 'r \<Rightarrow> line list \<times> 'd \<times> 'r"
where
  "run P M St off page fill us nvs_proof d r =
     (case run_identity P M St off page fill us d r of ((lines1, go), d, r) \<Rightarrow>
      if \<not> go then (lines1, d, r)
      else case run_owner M St off page d of
        ((lines2, None), d) \<Rightarrow> (lines1 @ lines2, d, r)
      | ((lines2, Some part), d) \<Rightarrow>
          if \<not> nvs_proof then (lines1 @ lines2, d, r)
          else case writer_proof M page fill us part d r of
            (lines3, d, r) \<Rightarrow> (lines1 @ lines2 @ lines3, d, r))"

section \<open>The bench\<close>

abbreviation ITERATIONS :: nat where "ITERATIONS \<equiv> 100"

definition min_and_median :: "u64 list \<Rightarrow> ((u64 \<times> u64) \<times> u64 list) result" where
  "min_and_median samples =
     (let samples = sort samples in
      if samples = [] then Inl Panic
      else Inr ((samples ! 0, samples ! (length samples div 2)), samples))"

text \<open>Count, minimum, median, maximum, and the two in cycles (release arithmetic wraps).\<close>

definition report :: "rstr \<Rightarrow> u64 list \<Rightarrow> u64 \<Rightarrow> line result" where
  "report name samples mhz =
     bind_res (min_and_median samples) (\<lambda>((min, median), samples).
       let worst = samples ! (length samples - 1) in
       Inr (Op name (length samples) min median worst (min * mhz) (median * mhz)))"

definition bench_sign ::
  "('sk, 'vk, 'sig) prims \<Rightarrow> ('sk, 'vk) device_key \<Rightarrow> clock \<Rightarrow> bytes \<Rightarrow> bytes \<times> u64 list" where
  "bench_sign P key us prehash =
     foldl (\<lambda>(signature, sign_us) i. (sign_prehash P key prehash, sign_us @ [us (Sign i)]))
       (replicate 64 0, []) [0..<ITERATIONS]"

definition bench_verify ::
  "('sk, 'vk, 'sig) prims \<Rightarrow> bytes \<Rightarrow> clock \<Rightarrow> bytes \<Rightarrow> bytes \<Rightarrow> u32 \<times> u64 list" where
  "bench_verify P pubkey us prehash signature =
     foldl (\<lambda>(ok, verify_us) i.
         (if verify_prehash P pubkey prehash signature = Inr () then ok + 1 else ok,
          verify_us @ [us (Verify i)]))
       (0, []) [0..<ITERATIONS]"

text \<open>The rung of the build: a compact JWS and an owned DID, with the feature \<open>alloc-rung\<close>.\<close>

definition bench_alloc ::
  "('sk, 'vk, 'sig) prims \<Rightarrow> b64 \<Rightarrow> bs58 \<Rightarrow> ('sk, 'vk) device_key \<Rightarrow> clock \<Rightarrow> u64 \<Rightarrow> line list result"
where
  "bench_alloc P E B key us mhz =
     (let compact = build_jws_compact P E (ascii ''{\"sub\":\"bench\"}'') (key_signer P key);
          t = us BuildJws in
      bind_res (to_did_string B (key_did P key)) (\<lambda>did.
      Inr [OpJws t t t (t * mhz) (t * mhz) (length compact), DidOwnedLen (length did)]))"

definition bench ::
  "('sk, 'vk, 'sig) prims \<Rightarrow> b64 \<Rightarrow> bs58 \<Rightarrow> 'r rng \<Rightarrow> clock \<Rightarrow> bool \<Rightarrow> u64 \<Rightarrow> 'r \<Rightarrow> line list result \<times> 'r"
where
  "bench P E B fill us alloc_rung mhz r =
     (case generate P fill r (ascii ''bench'') of
        (Inl e, r) \<Rightarrow> (Inr [GenerateFailed e], r)
      | (Inr key, r) \<Rightarrow>
          let t = us Mint;
              pubkey = pubkey_sec1_uncompressed P key;
              prehash = replicate 32 0x5a;
              (signature, sign_us) = bench_sign P key us prehash;
              (ok, verify_us) = bench_verify P pubkey us prehash signature in
          (bind_res (report (ascii ''sign'') sign_us mhz) (\<lambda>sign_line.
           bind_res (report (ascii ''verify'') verify_us mhz) (\<lambda>verify_line.
           bind_res (if alloc_rung then bench_alloc P E B key us mhz else Inr []) (\<lambda>alloc_lines.
           Inr ([Op (ascii ''generate'') 1 t t t (t * mhz) (t * mhz), sign_line, verify_line,
                 VerifyOk ok ITERATIONS, Work ITERATIONS ITERATIONS 32] @ alloc_lines)))), r))"

section \<open>The program\<close>

record features =
  ft_identity :: bool
  ft_nvs_proof :: bool
  ft_alloc_rung :: bool
  ft_kairos :: bool

text \<open>
  \<open>main\<close> up to the loop it ends in. \<open>port_name\<close> is \<open>rusty_esp_rtos::port_name()\<close>, \<open>hz\<close> the CPU
  clock, \<open>trng\<close> what \<open>Trng::try_new\<close> gave, \<open>used\<close> and \<open>free\<close> the heap's two numbers; a panic is
  \<open>Inl Panic\<close>.
\<close>

definition main ::
  "('sk, 'vk, 'sig) prims \<Rightarrow> ('d, 'n) nvs_module \<Rightarrow> 'd storage \<Rightarrow> u32 \<Rightarrow> u32 \<Rightarrow> b64 \<Rightarrow> bs58
     \<Rightarrow> ('r \<Rightarrow> u32 \<times> 'r) \<Rightarrow> clock \<Rightarrow> features \<Rightarrow> rstr option \<Rightarrow> u32 \<Rightarrow> nat \<Rightarrow> nat \<Rightarrow> 'd \<Rightarrow> 'r option
     \<Rightarrow> line list result \<times> 'd"
where
  "main P M St off page E B random us ft port_name hz used free d trng =
     (let mhz = ucast hz div 1000000;
          head = [Banner,
            KernelIs (if ft_kairos ft then (case port_name of Some n \<Rightarrow> n | None \<Rightarrow> ascii ''none'')
                      else ascii ''bare-metal''),
            CpuAt mhz ITERATIONS (ft_alloc_rung ft)] in
      case trng of
        None \<Rightarrow> (Inr (head @ [RngUnavailable]), d)
      | Some r \<Rightarrow>
          (case (if ft_identity ft then run P M St off page (chip_rng random) us (ft_nvs_proof ft) d r
                 else ([], d, r)) of
             (lines, d, r) \<Rightarrow>
               (case bench P E B (chip_rng random) us (ft_alloc_rung ft) mhz r of
                  (Inl e, r) \<Rightarrow> (Inl e, d)
                | (Inr benched, r) \<Rightarrow>
                    (Inr (head @ lines @ benched @
                       (case benched of [GenerateFailed _] \<Rightarrow> [] | _ \<Rightarrow> [MemIs used free, Done])), d))))"

end
