(* ===== verification/Firmware_Correct.thy ===== *)
theory Firmware_Correct
  imports Firmware Flash_Correct
begin

text \<open>
  What the bench firmware's report means: the statistics, the bench's counts, the writer's proof
  over a store that works, and the identity over any sequence of boots.
\<close>

section \<open>The statistics\<close>

lemma min_and_median_ok:
  assumes "min_and_median xs = Inr ((mn, med), ys)"
  shows "mn \<in> set xs \<and> (\<forall>x \<in> set xs. mn \<le> x)"
    and "med \<in> set xs"
    and "length (filter (\<lambda>x. x \<le> med) xs) > length xs div 2"
    and "length (filter (\<lambda>x. med \<le> x) xs) \<ge> length xs - length xs div 2"
proof -
  let ?s = "sort xs" and ?h = "length xs div 2"
  from assms have ne: "?s \<noteq> []" and mn: "mn = ?s ! 0" and med: "med = ?s ! ?h"
    by (auto simp: min_and_median_def Let_def split: if_splits)
  have pos: "0 < length xs" using ne by (metis length_greater_0_conv length_sort)
  then have h: "?h < length xs" by simp
  have srt: "sorted ?s" by simp
  have in_s: "x \<in> set ?s \<longleftrightarrow> x \<in> set xs" for x by simp
  have "mn \<in> set ?s" using mn pos by (metis length_sort nth_mem)
  moreover have "mn \<le> x" if "x \<in> set xs" for x
  proof -
    from that obtain i where "i < length ?s" "?s ! i = x" using in_s by (metis in_set_conv_nth)
    with srt mn show ?thesis by (metis sorted_nth_mono le0)
  qed
  ultimately show "mn \<in> set xs \<and> (\<forall>x \<in> set xs. mn \<le> x)" by simp
  show "med \<in> set xs" using med h by (metis in_s length_sort nth_mem)
  have count: "length (filter p xs) = card {i. i < length ?s \<and> p (?s ! i)}" for p
  proof -
    have "length (filter p xs) = length (filter p ?s)"
      by (simp add: filter_sort)
    then show ?thesis by (simp add: length_filter_conv_card)
  qed
  have "{..?h} \<subseteq> {i. i < length ?s \<and> ?s ! i \<le> med}"
    using h med srt by (auto intro: sorted_nth_mono)
  from card_mono [OF _ this] count [of "\<lambda>x. x \<le> med"]
  show "length (filter (\<lambda>x. x \<le> med) xs) > ?h" by simp
  have "{?h..<length xs} \<subseteq> {i. i < length ?s \<and> med \<le> ?s ! i}"
    using med srt by (auto intro: sorted_nth_mono)
  from card_mono [OF _ this] count [of "\<lambda>x. med \<le> x"]
  show "length (filter (\<lambda>x. med \<le> x) xs) \<ge> length xs - ?h" by simp
qed

lemma report_runs:
  assumes "samples \<noteq> []"
  shows "\<exists>mn med worst. report name samples mhz =
    Inr (Op name (length samples) mn med worst (mn * mhz) (med * mhz))"
proof -
  have "sort samples \<noteq> []" using assms by (metis set_empty set_sort)
  then show ?thesis by (simp add: report_def min_and_median_def Let_def)
qed

section \<open>The bench\<close>

lemma bench_sign_eq:
  "bench_sign P key us prehash = (sign_prehash P key prehash, map (\<lambda>i. us (Sign i)) [0..<ITERATIONS])"
proof -
  have "foldl (\<lambda>(signature, sign_us) i. (sign_prehash P key prehash, sign_us @ [us (Sign i)])) (sg, ts) is
      = (if is = [] then sg else sign_prehash P key prehash, ts @ map (\<lambda>i. us (Sign i)) is)" for sg ts "is"
    by (induction "is" arbitrary: sg ts) auto
  then show ?thesis by (simp add: bench_sign_def)
qed

text \<open>The count is of the iterations, at its 32 bits, or of none: each verifies the same bytes.\<close>

lemma bench_verify_eq:
  "bench_verify P pubkey us prehash sg =
     (if verify_prehash P pubkey prehash sg = Inr () then of_nat ITERATIONS else 0,
      map (\<lambda>i. us (Verify i)) [0..<ITERATIONS])"
proof -
  have "foldl (\<lambda>(ok, verify_us) i.
        (if verify_prehash P pubkey prehash sg = Inr () then ok + 1 else ok, verify_us @ [us (Verify i)]))
      (n, ts) is =
      (if verify_prehash P pubkey prehash sg = Inr () then n + of_nat (length is) else n,
       ts @ map (\<lambda>i. us (Verify i)) is)" for n ts "is"
    by (induction "is" arbitrary: n ts) (auto simp: algebra_simps)
  note this [of 0 "[]" "[0..<ITERATIONS]"]
  then show ?thesis unfolding bench_verify_def by (simp only: append_Nil length_upt diff_zero add_0)
qed

lemma own_signature_verifies:
  assumes "prims_ok P" "wf_key P key" "length h = 32"
  shows "verify_prehash P (pubkey_sec1_uncompressed P key) h (sign_prehash P key h) = Inr ()"
proof -
  have "ecdsa_verify P (dk_public key) h (low_s P (ecdsa_sign P (dk_secret key) h))"
    using assms by (simp add: wf_key_def low_s_verifies prims_okD(15))
  then show ?thesis
    using prims_okD(8,12) [OF assms(1)] low_s_normal [OF assms(1)]
    by (simp add: verify_prehash_Inr sign_prehash_low_s pubkey_sec1_uncompressed_def)
qed

lemma bench_alloc_runs:
  assumes "prims_ok P" "bs58_ok B"
  shows "\<exists>l. bench_alloc P E B key us mhz = Inr l \<and>
    (\<forall>x \<in> set l. (\<exists>a b c d e f. x = OpJws a b c d e f) \<or> (\<exists>n. x = DidOwnedLen n))"
proof -
  have "valid_did P (key_did P key)"
    using valid_from_verifying_key [OF assms(1)] by (simp add: key_did_def)
  from to_did_string_valid [OF assms(2) this] obtain t where "to_did_string B (key_did P key) = Inr (DID_PREFIX @ t)"
    by blast
  then show ?thesis by (simp add: bench_alloc_def Let_def)
qed

text \<open>The bench never panics, and every signature it made it verifies.\<close>

lemma bench_runs:
  assumes P: "prims_ok P" and B: "bs58_ok B"
  shows "\<exists>lines r'. bench P E B fill us alloc mhz r = (Inr lines, r')
    \<and> (\<forall>ok n. VerifyOk ok n \<in> set lines \<longrightarrow> ok = 100 \<and> n = 100)
    \<and> ((\<exists>e. lines = [GenerateFailed e]) \<or> VerifyOk 100 100 \<in> set lines)
    \<and> (\<forall>d t. Loaded d t \<notin> set lines \<and> Minted d t \<notin> set lines)"
proof -
  obtain g r1 where g: "generate P fill r (ascii ''bench'') = (g, r1)" by (rule prod.exhaust)
  show ?thesis
  proof (cases g)
    case (Inl e)
    with g show ?thesis by (simp add: bench_def)
  next
    case (Inr key)
    note wf = generate_Inr(1) [OF g [unfolded Inr]]
    have v: "verify_prehash P (pubkey_sec1_uncompressed P key) (replicate 32 0x5a)
        (sign_prehash P key (replicate 32 0x5a)) = Inr ()"
      by (rule own_signature_verifies [OF P wf]) simp
    have ne: "map f [0..<ITERATIONS] \<noteq> []" for f :: "nat \<Rightarrow> u64" by simp
    obtain l1 where l1: "report (ascii ''sign'') (map (\<lambda>i. us (Sign i)) [0..<ITERATIONS]) mhz = Inr l1"
      "\<exists>a b c d e f g. l1 = Op a b c d e f g"
      using report_runs [OF ne] by metis
    obtain l2 where l2: "report (ascii ''verify'') (map (\<lambda>i. us (Verify i)) [0..<ITERATIONS]) mhz = Inr l2"
      "\<exists>a b c d e f g. l2 = Op a b c d e f g"
      using report_runs [OF ne] by metis
    obtain l3 where l3: "(if alloc then bench_alloc P E B key us mhz else Inr []) = Inr l3"
      "\<forall>l \<in> set l3. (\<exists>a b c d e f. l = OpJws a b c d e f) \<or> (\<exists>n. l = DidOwnedLen n)"
      using bench_alloc_runs [OF P B, of E key us mhz] by (cases alloc) auto
    have "bench P E B fill us alloc mhz r = (Inr ([Op (ascii ''generate'') 1 (us Mint) (us Mint) (us Mint)
        (us Mint * mhz) (us Mint * mhz), l1, l2, VerifyOk 100 ITERATIONS, Work ITERATIONS ITERATIONS 32] @ l3), r1)"
      using l1(1) l2(1) l3(1) by (simp add: bench_def g Inr bench_sign_eq bench_verify_eq v Let_def)
    with l1(2) l2(2) l3(2) show ?thesis by auto
  qed
qed

section \<open>The writer's proof\<close>

context kv_reliable
begin

lemma get_into_value:
  assumes "inv s" "contents s k = Some v" "length v \<le> length buf"
  shows "get_into K s k buf = (Inr (Some (length v)), v @ drop (length v) buf)"
  using assms by (simp add: get_into_def get_works)

lemma get_into_absent:
  "inv s \<Longrightarrow> contents s k = None \<Longrightarrow> get_into K s k buf = (Inr None, buf)"
  by (simp add: get_into_def get_works)

text \<open>Over a store that works the proof reports success on every line, and leaves the store as it
  was but for the blob it put and the key it removed.\<close>

lemma prove_writes_works:
  assumes s: "inv s" and st: "\<And>v. length v \<le> 128 \<Longrightarrow> storable v"
    and sizes: "length secret = 32" "length back = 128"
  shows "\<exists>s'. prove_writes K us s secret back =
      ([Put32 (Inr ()) (us PutBlob) (Inr (Some 32)) (us GetBlob) True,
        Put100 (Inr ()) (Inr (Some 100)) True, Removed (Inr True) (Inr None)], s')
    \<and> inv s' \<and> contents s' = (contents s)(ascii ''blob'' \<mapsto> secret, ascii ''big'' := None)"
proof -
  let ?blob = "ascii ''blob''" and ?big = "ascii ''big''" and ?a5 = "replicate 100 (0xA5 :: u8)"
  have ne: "?blob \<noteq> ?big" by (simp add: ascii_def)
  obtain s1 where s1: "kv_put K s ?blob secret = (Inr (), s1)" "inv s1"
    "contents s1 = (contents s)(?blob \<mapsto> secret)"
    using put_runs [OF s, of secret ?blob] st sizes by auto
  obtain s2 where s2: "kv_put K s1 ?big ?a5 = (Inr (), s2)" "inv s2"
    "contents s2 = (contents s1)(?big \<mapsto> ?a5)"
    using put_runs [OF s1(2), of ?a5 ?big] st by auto
  obtain s3 where s3: "kv_remove K s2 ?big = (Inr (contents s2 ?big \<noteq> None), s3)" "inv s3"
    "contents s3 = (contents s2)(?big := None)"
    using remove_runs [OF s2(2)] by blast
  have g1: "get_into K s1 ?blob back = (Inr (Some 32), secret @ drop 32 back)"
    using get_into_value [OF s1(2), of ?blob secret "back"] s1(3) sizes by simp
  have g2: "get_into K s2 ?big (secret @ drop 32 back) = (Inr (Some 100), ?a5 @ drop 100 (secret @ drop 32 back))"
    using get_into_value [OF s2(2), of ?big ?a5] s2(3) sizes by simp
  have g3: "get_into K s3 ?big buf = (Inr None, buf)" for buf
    using get_into_absent [OF s3(2)] s3(3) by simp
  have "prove_writes K us s secret back =
      ([Put32 (Inr ()) (us PutBlob) (Inr (Some 32)) (us GetBlob) True,
        Put100 (Inr ()) (Inr (Some 100)) True, Removed (Inr True) (Inr None)], s3)"
    using s1(1) s2(1) s2(3) s3(1) g1 g2 g3 sizes by (simp add: prove_writes_def Let_def)
  moreover have "contents s3 = (contents s)(?blob \<mapsto> secret, ?big := None)"
    using s1(3) s2(3) s3(3) ne by (simp add: fun_eq_iff)
  ultimately show ?thesis using s3(2) by blast
qed

end

end
