(* ===== verification/Boots.thy ===== *)
theory Boots
  imports Firmware_Correct
begin

text \<open>
  The identity over the boots of the firmware: \<open>NvsKv\<close> on a partition of the flash as a contract,
  what each part of a boot leaves alone, and the invariant that the stored identity is the one
  every later report shows.
\<close>

section \<open>The layout of the flash\<close>

definition part_image :: "('d \<Rightarrow> nat \<Rightarrow> u8) \<Rightarrow> part_flash \<Rightarrow> 'd \<Rightarrow> bytes" where
  "part_image mem f d = map (\<lambda>i. mem d (unat (pf_base f) + i)) [0..<unat (pf_len f)]"

text \<open>The partition table and where a label's partition is, as the bytes say; \<open>reveal\<close> is what an
  encrypted read makes of the bytes at an address.\<close>

definition table_bytes ::
  "'d storage \<Rightarrow> ('d \<Rightarrow> nat \<Rightarrow> u8) \<Rightarrow> (u32 \<Rightarrow> bytes \<Rightarrow> bytes) \<Rightarrow> u32 \<Rightarrow> 'd \<Rightarrow> bytes" where
  "table_bytes St mem reveal off d =
     (let raw = map (\<lambda>i. mem d (unat off + i)) [0..<MAX_ENTRIES * 32] in
      if flash_encryption St then reveal off raw else raw)"

definition table_lookup ::
  "'d storage \<Rightarrow> ('d \<Rightarrow> nat \<Rightarrow> u8) \<Rightarrow> (u32 \<Rightarrow> bytes \<Rightarrow> bytes) \<Rightarrow> u32 \<Rightarrow> 'd \<Rightarrow> rstr \<Rightarrow> partition option result" where
  "table_lookup St mem reveal off d label =
     search_entries label (chunks_exact MAX_ENTRIES 32 (table_bytes St mem reveal off d))"

definition placed_at ::
  "'d storage \<Rightarrow> ('d \<Rightarrow> nat \<Rightarrow> u8) \<Rightarrow> (u32 \<Rightarrow> bytes \<Rightarrow> bytes) \<Rightarrow> u32 \<Rightarrow> u32 \<Rightarrow> rstr \<Rightarrow> 'd \<Rightarrow> part_flash \<Rightarrow> bool" where
  "placed_at St mem reveal off page label d f \<longleftrightarrow>
     (\<exists>p. table_lookup St mem reveal off d label = Inr (Some p) \<and>
        pf_new page (pt_offset p) (pt_len p) = Inr f)"

text \<open>A table a device ships with: the identity's partition, the owner's and the table are apart.\<close>

definition layout_ok ::
  "'d storage \<Rightarrow> ('d \<Rightarrow> nat \<Rightarrow> u8) \<Rightarrow> (u32 \<Rightarrow> bytes \<Rightarrow> bytes) \<Rightarrow> u32 \<Rightarrow> u32 \<Rightarrow> 'd \<Rightarrow> bool" where
  "layout_ok St mem reveal off page d \<longleftrightarrow>
     (\<forall>label \<in> {ascii ''identity'', ascii ''nvs''}. \<forall>f. placed_at St mem reveal off page label d f \<longrightarrow>
        (\<forall>i < MAX_ENTRIES * 32. \<not> inside f (unat off + i))) \<and>
     (\<forall>f g. placed_at St mem reveal off page (ascii ''identity'') d f \<and>
        placed_at St mem reveal off page (ascii ''nvs'') d g \<longrightarrow> (\<forall>x. inside f x \<longrightarrow> \<not> inside g x))"

text \<open>The identity the flash holds, for this board's device id.\<close>

definition identity_at ::
  "('sk, 'vk, 'sig) prims \<Rightarrow> (rstr \<Rightarrow> bytes \<Rightarrow> bytes \<Rightarrow> bytes option) \<Rightarrow> ('d \<Rightarrow> nat \<Rightarrow> u8) \<Rightarrow> part_flash
     \<Rightarrow> 'd \<Rightarrow> did \<Rightarrow> bool" where
  "identity_at P decode mem f d x \<longleftrightarrow>
     (\<exists>key. wf_key P key \<and> device_id_new DEVICE_ID = Inr (dk_device_id key) \<and> x = key_did P key \<and>
        decode NAMESPACE (part_image mem f d) KV_KEY = Some (secret_bytes P key))"

definition shows_identity :: "line \<Rightarrow> did \<Rightarrow> bool" where
  "shows_identity line x \<longleftrightarrow> (\<exists>t. line = Loaded x t \<or> line = Minted x t)"

section \<open>A key-value store on a partition\<close>

text \<open>
  What \<open>rusty_esp_core::nvs::NvsKv\<close> promises: it is a \<open>Kv\<close>; it reaches the flash through its
  partition's operations only; and what it holds is what its partition's bytes say
  (\<open>decode\<close> reads a namespace from them), before it is opened as after it is closed. A failed open
  loses nothing.
\<close>

locale nvs_on_flash = nor_flash St mem + kv_store "nm_kv M" contents good storable
  for St :: "'d storage" and mem :: "'d \<Rightarrow> nat \<Rightarrow> u8" and M :: "('d, 'n) nvs_module"
    and contents :: "'n \<Rightarrow> bytes \<Rightarrow> bytes option" and good :: "'n \<Rightarrow> bool"
    and storable :: "bytes \<Rightarrow> bool" +
  fixes page :: u32 and place :: "'n \<Rightarrow> part_flash \<times> rstr"
    and decode :: "rstr \<Rightarrow> bytes \<Rightarrow> bytes \<Rightarrow> bytes option" and reveal :: "u32 \<Rightarrow> bytes \<Rightarrow> bytes"
  assumes opened: "nm_open M f ns d = Inr s \<Longrightarrow> good s \<and> place s = (f, ns) \<and>
      contents s = decode ns (part_image mem f d) \<and> (part_step St page f)\<^sup>*\<^sup>* d (nm_close M s)"
    and open_failed: "nm_open M f ns d = Inl (e, d') \<Longrightarrow> (part_step St page f)\<^sup>*\<^sup>* d d' \<and>
      decode j (part_image mem f d') = decode j (part_image mem f d)"
    and closed: "good s \<Longrightarrow> place s = (f, ns) \<Longrightarrow> decode ns (part_image mem f (nm_close M s)) = contents s"
    and put_place: "good s \<Longrightarrow> kv_put (nm_kv M) s k v = (rp, s') \<Longrightarrow> place s' = place s \<and>
      (part_step St page (fst (place s)))\<^sup>*\<^sup>* (nm_close M s) (nm_close M s')"
    and remove_place: "good s \<Longrightarrow> kv_remove (nm_kv M) s k = (rr, s') \<Longrightarrow> place s' = place s \<and>
      (part_step St page (fst (place s)))\<^sup>*\<^sup>* (nm_close M s) (nm_close M s')"
    and encrypted_mem: "read_encrypted St d a n = (r, d') \<Longrightarrow> mem d' = mem d"
    and encrypted_bytes: "read_encrypted St d a n = (Some bs, d') \<Longrightarrow>
      bs = reveal a (map (\<lambda>i. mem d (unat a + i)) [0..<n])"
begin

lemma find_partition_lookup:
  assumes "find_partition St off d label = (r, d')"
  shows "mem d' = mem d" and "r = Inl Hardware \<or> r = table_lookup St mem reveal off d label"
proof -
  obtain t d1 where t: "(if flash_encryption St then read_encrypted St d off (MAX_ENTRIES * 32)
      else read_nor St d off (MAX_ENTRIES * 32)) = (t, d1)" by (rule prod.exhaust)
  then have m: "mem d1 = mem d"
    using encrypted_mem read_mem by (auto split: if_splits)
  have "t = Some (table_bytes St mem reveal off d)" if "t \<noteq> None"
  proof -
    from that obtain bs where "t = Some bs" by blast
    with t show ?thesis
      using encrypted_bytes [of d off _ bs d1] read_bytes [of d off _ bs d1]
      by (auto simp: table_bytes_def Let_def split: if_splits)
  qed
  with assms t m show "mem d' = mem d" "r = Inl Hardware \<or> r = table_lookup St mem reveal off d label"
    by (auto simp: find_partition_def table_lookup_def split: option.splits)
qed

text \<open>Nothing done to either partition moves a partition.\<close>

lemma layout_same:
  assumes "\<And>i. i < MAX_ENTRIES * 32 \<Longrightarrow> mem d' (unat off + i) = mem d (unat off + i)"
  shows "placed_at St mem reveal off page label d' f \<longleftrightarrow> placed_at St mem reveal off page label d f"
    and "layout_ok St mem reveal off page d' \<longleftrightarrow> layout_ok St mem reveal off page d"
    and "table_lookup St mem reveal off d' label = table_lookup St mem reveal off d label"
proof -
  have "map (\<lambda>i. mem d' (unat off + i)) [0..<MAX_ENTRIES * 32]
      = map (\<lambda>i. mem d (unat off + i)) [0..<MAX_ENTRIES * 32]"
    by (intro map_cong [OF refl] assms) simp
  then have "table_bytes St mem reveal off d' = table_bytes St mem reveal off d"
    by (simp only: table_bytes_def)
  then have t: "table_lookup St mem reveal off d' label = table_lookup St mem reveal off d label" for label
    by (simp add: table_lookup_def)
  then have p: "placed_at St mem reveal off page label d' f \<longleftrightarrow> placed_at St mem reveal off page label d f"
    for label f by (simp add: placed_at_def)
  show "table_lookup St mem reveal off d' label = table_lookup St mem reveal off d label" by (rule t)
  show "placed_at St mem reveal off page label d' f \<longleftrightarrow> placed_at St mem reveal off page label d f"
    by (rule p)
  show "layout_ok St mem reveal off page d' \<longleftrightarrow> layout_ok St mem reveal off page d"
    by (simp add: layout_ok_def p)
qed

lemma steps_layout:
  assumes "layout_ok St mem reveal off page d" "placed_at St mem reveal off page label d f"
    and "label \<in> {ascii ''identity'', ascii ''nvs''}" "(part_step St page f)\<^sup>*\<^sup>* d d'"
  shows "placed_at St mem reveal off page l d' g \<longleftrightarrow> placed_at St mem reveal off page l d g"
    and "layout_ok St mem reveal off page d'"
    and "table_lookup St mem reveal off d' l = table_lookup St mem reveal off d l"
proof -
  have "mem d' (unat off + i) = mem d (unat off + i)" if "i < MAX_ENTRIES * 32" for i
    using assms(1-3) that by (intro part_run_frame [OF assms(4)]) (auto simp: layout_ok_def)
  note same = layout_same [of d' off d, OF this]
  show "placed_at St mem reveal off page l d' g \<longleftrightarrow> placed_at St mem reveal off page l d g"
    by (rule same(1))
  show "layout_ok St mem reveal off page d'" using same(2) assms(1) by blast
  show "table_lookup St mem reveal off d' l = table_lookup St mem reveal off d l" by (rule same(3))
qed

text \<open>What is done to the owner's partition leaves the identity's bytes.\<close>

lemma owner_steps_image:
  assumes "layout_ok St mem reveal off page d" "placed_at St mem reveal off page (ascii ''nvs'') d g"
    and "placed_at St mem reveal off page (ascii ''identity'') d f" "(part_step St page g)\<^sup>*\<^sup>* d d'"
  shows "part_image mem f d' = part_image mem f d"
  unfolding part_image_def
proof (rule map_cong [OF refl])
  fix i
  assume "i \<in> set [0..<unat (pf_len f)]"
  then have "inside f (unat (pf_base f) + i)" by (simp add: inside_def)
  with assms(1-3) have "\<not> inside g (unat (pf_base f) + i)"
    unfolding layout_ok_def by blast
  with assms(4) show "mem d' (unat (pf_base f) + i) = mem d (unat (pf_base f) + i)"
    by (rule part_run_frame)
qed

section \<open>What each part of a boot does\<close>

lemma load_or_generate_step:
  assumes "load_or_generate P K fill s r did = (res, s', r')"
  shows "s' = s \<or> (\<exists>v q. kv_put K s KV_KEY v = (q, s'))"
  using assms by (auto simp: load_or_generate_def store_def split: sum.splits option.splits prod.splits)

lemma report_identity_steps:
  assumes "good s" "report_identity P (nm_kv M) fill us s r = (line, s', r')"
  shows "good s'" and "place s' = place s"
    and "(part_step St page (fst (place s)))\<^sup>*\<^sup>* (nm_close M s) (nm_close M s')"
proof -
  have "s' = s \<or> (\<exists>v q. kv_put (nm_kv M) s KV_KEY v = (q, s'))"
    using assms(2) load_or_generate_step [of P "nm_kv M" fill s r DEVICE_ID]
    by (fastforce simp: report_identity_def split: sum.splits option.splits prod.splits)
  then have "good s' \<and> place s' = place s \<and>
      (part_step St page (fst (place s)))\<^sup>*\<^sup>* (nm_close M s) (nm_close M s')"
    using assms(1) put_frame [OF assms(1)] put_place [OF assms(1)] by blast
  then show "good s'" "place s' = place s"
    "(part_step St page (fst (place s)))\<^sup>*\<^sup>* (nm_close M s) (nm_close M s')" by blast+
qed

text \<open>What the report shows is what the store then holds, and a key it held is the one shown.\<close>

lemma report_identity_shown:
  assumes P: "prims_ok P" and s: "good s" and st: "\<And>v. length v = 32 \<Longrightarrow> storable v"
    and run: "report_identity P (nm_kv M) fill us s r = (line, s', r')"
    and x: "shows_identity line x"
  shows "\<exists>key. wf_key P key \<and> device_id_new DEVICE_ID = Inr (dk_device_id key) \<and> x = key_did P key \<and>
    contents s' KV_KEY = Some (secret_bytes P key)"
proof (cases "load P (nm_kv M) s DEVICE_ID")
  case (Inl e)
  with run x show ?thesis by (auto simp: report_identity_def shows_identity_def)
next
  case (Inr got)
  show ?thesis
  proof (cases got)
    case (Some key)
    with Inr run x have "x = key_did P key" "s' = s"
      by (auto simp: report_identity_def shows_identity_def)
    with load_wf [OF P s Inr [unfolded Some]] show ?thesis by blast
  next
    case None
    with Inr run x obtain key where k: "x = key_did P key"
      and g: "load_or_generate P (nm_kv M) fill s r DEVICE_ID = (Inr key, s', r')"
      by (auto simp: report_identity_def shows_identity_def split: sum.splits prod.splits)
    with load_or_generate_stored [OF P s st g] show ?thesis by blast
  qed
qed

lemma report_identity_kept:
  assumes "prims_ok P" "good s" "wf_key P key" "device_id_new DEVICE_ID = Inr (dk_device_id key)"
    and "contents s KV_KEY = Some (secret_bytes P key)"
    and "report_identity P (nm_kv M) fill us s r = (line, s', r')"
  shows "s' = s" and "line = Loaded (key_did P key) (us Boot) \<or> (\<exists>e. line = IdentityError e)"
proof -
  have "s' = s \<and> (line = Loaded (key_did P key) (us Boot) \<or> (\<exists>e. line = IdentityError e))"
  proof (cases "load P (nm_kv M) s DEVICE_ID")
    case (Inl e)
    with assms(6) show ?thesis by (auto simp: report_identity_def)
  next
    case (Inr got)
    with load_stored [OF assms(1-5) Inr] assms(6) show ?thesis by (simp add: report_identity_def)
  qed
  then show "s' = s" "line = Loaded (key_did P key) (us Boot) \<or> (\<exists>e. line = IdentityError e)"
    by blast+
qed

text \<open>A stretch of a boot that moves no partition and keeps a stored identity.\<close>

definition keeps :: "('sk, 'vk, 'sig) prims \<Rightarrow> u32 \<Rightarrow> 'd \<Rightarrow> 'd \<Rightarrow> bool" where
  "keeps P off d d' \<longleftrightarrow> layout_ok St mem reveal off page d' \<and>
     (\<forall>l g. placed_at St mem reveal off page l d' g \<longleftrightarrow> placed_at St mem reveal off page l d g) \<and>
     (\<forall>f x. placed_at St mem reveal off page (ascii ''identity'') d f \<and> identity_at P decode mem f d x \<longrightarrow>
        identity_at P decode mem f d' x) \<and>
     (\<forall>l. table_lookup St mem reveal off d' l = table_lookup St mem reveal off d l)"

lemma keeps_trans [trans]: "keeps P off d e \<Longrightarrow> keeps P off e d' \<Longrightarrow> keeps P off d d'"
  unfolding keeps_def by metis

lemma keeps_mem:
  assumes "layout_ok St mem reveal off page d" "mem d' = mem d"
  shows "keeps P off d d'"
proof -
  have "part_image mem f d' = part_image mem f d" for f using assms(2) by (simp add: part_image_def)
  moreover note layout_same [of d' off d]
  ultimately show ?thesis using assms by (simp add: keeps_def identity_at_def)
qed

lemma keeps_identity_steps:
  assumes "layout_ok St mem reveal off page d" "placed_at St mem reveal off page (ascii ''identity'') d f"
    and "(part_step St page f)\<^sup>*\<^sup>* d d'" "\<And>x. identity_at P decode mem f d x \<Longrightarrow> identity_at P decode mem f d' x"
  shows "keeps P off d d'"
proof -
  have "g = f" if "placed_at St mem reveal off page (ascii ''identity'') d g" for g
    using that assms(2) by (auto simp: placed_at_def)
  with steps_layout [OF assms(1,2) _ assms(3)] assms(4) show ?thesis unfolding keeps_def by blast
qed

lemma keeps_owner_steps:
  assumes "layout_ok St mem reveal off page d" "placed_at St mem reveal off page (ascii ''nvs'') d g"
    and "(part_step St page g)\<^sup>*\<^sup>* d d'"
  shows "keeps P off d d'"
proof -
  have "identity_at P decode mem f d' x \<longleftrightarrow> identity_at P decode mem f d x"
    if "placed_at St mem reveal off page (ascii ''identity'') d f" for f x
    using owner_steps_image [OF assms(1,2) that assms(3)] by (simp add: identity_at_def)
  with steps_layout [OF assms(1,2) _ assms(3)] show ?thesis unfolding keeps_def by blast
qed

lemma keeps_layout: "keeps P off d d' \<Longrightarrow> layout_ok St mem reveal off page d'"
  by (simp add: keeps_def)

text \<open>The part a label is opened on, in both shapes \<open>run\<close> uses it.\<close>

lemma open_part_cases:
  assumes "find_partition St off d label = (Inr (Some part), d1)"
    and "open_part M page part ns d1 = res"
  obtains e where "res = Inl (e, d1)"
  | f e d2 where "placed_at St mem reveal off page label d f" "res = Inl (e, d2)"
      "nm_open M f ns d1 = Inl (e, d2)"
  | f s where "placed_at St mem reveal off page label d f" "res = Inr s" "nm_open M f ns d1 = Inr s"
proof -
  have t: "table_lookup St mem reveal off d label = Inr (Some part)"
    using find_partition_lookup(2) [OF assms(1)] by auto
  show thesis
  proof (cases "pf_new page (pt_offset part) (pt_len part)")
    case (Inl e)
    with assms(2) that(1) show ?thesis by (auto simp: open_part_def)
  next
    case (Inr f)
    with t have p: "placed_at St mem reveal off page label d f" by (auto simp: placed_at_def)
    show ?thesis
    proof (cases "nm_open M f ns d1")
      case (Inl ed)
      with Inr assms(2) that(2) [OF p] show ?thesis by (cases ed) (auto simp: open_part_def)
    next
      case s: (Inr s)
      with Inr assms(2) that(3) [OF p] show ?thesis by (auto simp: open_part_def)
    qed
  qed
qed

lemma run_identity_cases:
  assumes L: "layout_ok St mem reveal off page d"
    and run: "run_identity P M St off page fill us d r = ((lines, go), d', r')"
  obtains (quiet) "keeps P off d d'" "\<And>l x. l \<in> set lines \<Longrightarrow> \<not> shows_identity l x"
  | (opened) f s s' d1 p line where "lines = [p, line]" "\<And>x. \<not> shows_identity p x" "keeps P off d d1"
      "placed_at St mem reveal off page (ascii ''identity'') d1 f" "nm_open M f NAMESPACE d1 = Inr s"
      "report_identity P (nm_kv M) fill us s r = (line, s', r')" "d' = nm_close M s'"
proof -
  obtain found d1 where fp: "find_partition St off d (ascii ''identity'') = (found, d1)"
    by (rule prod.exhaust)
  have k1: "keeps P off d d1" by (rule keeps_mem [OF L find_partition_lookup(1) [OF fp]])
  show thesis
  proof (cases "\<exists>part. found = Inr (Some part)")
    case False
    with fp run k1 quiet show ?thesis
      by (fastforce simp: run_identity_def shows_identity_def split: sum.splits option.splits)
  next
    case True
    then obtain part where part: "found = Inr (Some part)" by blast
    obtain res where res: "open_part M page part NAMESPACE d1 = res" by blast
    show ?thesis
    proof (rule open_part_cases [OF fp [unfolded part] res])
      fix e
      assume "res = Inl (e, d1)"
      with fp part res run k1 quiet show ?thesis
        by (fastforce simp: run_identity_def shows_identity_def Let_def)
    next
      fix f e d2
      assume f: "placed_at St mem reveal off page (ascii ''identity'') d f" and "res = Inl (e, d2)"
        and o: "nm_open M f NAMESPACE d1 = Inl (e, d2)"
      then have "d' = d2" "\<And>l x. l \<in> set lines \<Longrightarrow> \<not> shows_identity l x"
        using fp part res run by (auto simp: run_identity_def shows_identity_def Let_def)
      moreover have "keeps P off d1 d2"
      proof (rule keeps_identity_steps)
        show "layout_ok St mem reveal off page d1" by (rule keeps_layout [OF k1])
        show "placed_at St mem reveal off page (ascii ''identity'') d1 f" using f k1 by (simp add: keeps_def)
        show "(part_step St page f)\<^sup>*\<^sup>* d1 d2" using open_failed [OF o] by simp
        show "identity_at P decode mem f d1 x \<Longrightarrow> identity_at P decode mem f d2 x" for x
          using open_failed [OF o] by (simp add: identity_at_def)
      qed
      ultimately show ?thesis using quiet keeps_trans [OF k1] by blast
    next
      fix f s
      assume f: "placed_at St mem reveal off page (ascii ''identity'') d f" and "res = Inr s"
        and o: "nm_open M f NAMESPACE d1 = Inr s"
      obtain line s' r1 where rep: "report_identity P (nm_kv M) fill us s r = (line, s', r1)"
        by (metis prod.exhaust)
      have f1: "placed_at St mem reveal off page (ascii ''identity'') d1 f" using f k1 by (simp add: keeps_def)
      have "lines = [PartitionAt (ascii ''identity'') (pt_offset part) (pt_len part), line]"
        "r1 = r'" "d' = nm_close M s'"
        using fp part res run rep \<open>res = Inr s\<close> by (auto simp: run_identity_def Let_def)
      with opened [OF _ _ k1 f1 o] rep show ?thesis by (simp add: shows_identity_def)
    qed
  qed
qed

lemma opened_at:
  assumes "nm_open M f ns d = Inr s"
  shows "good s" and "place s = (f, ns)" and "contents s = decode ns (part_image mem f d)"
    and "(part_step St page f)\<^sup>*\<^sup>* d (nm_close M s)"
  using nvs_on_flash.opened [OF nvs_on_flash_axioms assms] by blast+

text \<open>The first half of a boot: what it shows is stored, and what was stored is what it shows.\<close>

lemma run_identity_keeps:
  assumes P: "prims_ok P" and L: "layout_ok St mem reveal off page d"
    and run: "run_identity P M St off page fill us d r = ((lines, go), d', r')"
  shows "keeps P off d d'"
  using L run
proof (cases rule: run_identity_cases)
  case (opened f s s' d1 p line)
  note o = opened_at [OF opened(5)] and st = report_identity_steps [OF opened_at(1) [OF opened(5)] opened(6)]
  have "keeps P off d1 d'"
  proof (rule keeps_identity_steps [OF keeps_layout [OF opened(3)] opened(4)])
    show "(part_step St page f)\<^sup>*\<^sup>* d1 d'" using o(2,4) st(3) opened(7) by simp
    fix x
    assume "identity_at P decode mem f d1 x"
    then obtain key where key: "wf_key P key" "device_id_new DEVICE_ID = Inr (dk_device_id key)"
      "x = key_did P key" "contents s KV_KEY = Some (secret_bytes P key)"
      using o(3) by (auto simp: identity_at_def)
    from report_identity_kept(1) [OF P o(1) key(1,2,4) opened(6)] have "s' = s" .
    with key closed [OF o(1,2)] opened(7) show "identity_at P decode mem f d' x"
      by (auto simp: identity_at_def)
  qed
  with opened(3) show ?thesis by (rule keeps_trans)
qed

lemma run_identity_shown:
  assumes P: "prims_ok P" and L: "layout_ok St mem reveal off page d"
    and st: "\<And>v. length v = 32 \<Longrightarrow> storable v"
    and run: "run_identity P M St off page fill us d r = ((lines, go), d', r')"
    and l: "l \<in> set lines" "shows_identity l x"
  shows "\<exists>f. placed_at St mem reveal off page (ascii ''identity'') d' f \<and> identity_at P decode mem f d' x"
  using L run
proof (cases rule: run_identity_cases)
  case quiet
  with l show ?thesis by blast
next
  case (opened f s s' d1 p line)
  note o = opened_at [OF opened(5)] and rs = report_identity_steps [OF opened_at(1) [OF opened(5)] opened(6)]
  have "shows_identity line x" using opened(1,2) l by auto
  from report_identity_shown [OF P o(1) st opened(6) this] closed [OF rs(1)] rs(2) o(2) opened(7)
  have "identity_at P decode mem f d' x" by (auto simp: identity_at_def)
  moreover have "keeps P off d d'" by (rule run_identity_keeps [OF P L run])
  then have "placed_at St mem reveal off page (ascii ''identity'') d' f"
    using opened(3,4) by (simp add: keeps_def)
  ultimately show ?thesis by blast
qed

lemma run_identity_again:
  assumes P: "prims_ok P" and L: "layout_ok St mem reveal off page d"
    and run: "run_identity P M St off page fill us d r = ((lines, go), d', r')"
    and x: "placed_at St mem reveal off page (ascii ''identity'') d g" "identity_at P decode mem g d x"
    and l: "l \<in> set lines" "shows_identity l y"
  shows "l = Loaded x (us Boot)"
  using L run
proof (cases rule: run_identity_cases)
  case quiet
  with l show ?thesis by blast
next
  case (opened f s s' d1 p line)
  note o = opened_at [OF opened(5)]
  have "placed_at St mem reveal off page (ascii ''identity'') d1 g" "identity_at P decode mem g d1 x"
    using opened(3) x by (auto simp: keeps_def)
  moreover from this opened(4) have "g = f" by (auto simp: placed_at_def)
  ultimately obtain key where key: "wf_key P key" "device_id_new DEVICE_ID = Inr (dk_device_id key)"
    "x = key_did P key" "contents s KV_KEY = Some (secret_bytes P key)"
    using o(3) by (auto simp: identity_at_def)
  from report_identity_kept(2) [OF P o(1) key(1,2,4) opened(6)] key(3) opened(1,2) l show ?thesis
    by (auto simp: shows_identity_def)
qed

section \<open>The owner's half\<close>

lemma put_steps:
  assumes "good s" "kv_put (nm_kv M) s k v = (q, s')"
  shows "good s'" and "place s' = place s"
    and "(part_step St page (fst (place s)))\<^sup>*\<^sup>* (nm_close M s) (nm_close M s')"
  using put_frame [OF assms] put_place [OF assms] by blast+

lemma remove_steps:
  assumes "good s" "kv_remove (nm_kv M) s k = (q, s')"
  shows "good s'" and "place s' = place s"
    and "(part_step St page (fst (place s)))\<^sup>*\<^sup>* (nm_close M s) (nm_close M s')"
  using remove_frame [OF assms] remove_place [OF assms] by blast+

lemma prove_writes_steps:
  assumes "good s" "prove_writes (nm_kv M) us s secret buf = (lines, s')"
  shows "(part_step St page (fst (place s)))\<^sup>*\<^sup>* (nm_close M s) (nm_close M s')"
    and "l \<in> set lines \<Longrightarrow> \<not> shows_identity l x"
proof -
  obtain q1 s1 where 1: "kv_put (nm_kv M) s (ascii ''blob'') secret = (q1, s1)" by (rule prod.exhaust)
  obtain q2 s2 where 2: "kv_put (nm_kv M) s1 (ascii ''big'') (replicate 100 0xA5) = (q2, s2)"
    by (rule prod.exhaust)
  obtain q3 s3 where 3: "kv_remove (nm_kv M) s2 (ascii ''big'') = (q3, s3)" by (rule prod.exhaust)
  have "s' = s3" and l: "l \<in> set lines \<Longrightarrow> \<not> shows_identity l x"
    using assms(2) 1 2 3 by (auto simp: prove_writes_def shows_identity_def Let_def split: prod.splits)
  note p1 = put_steps [OF assms(1) 1]
  note p2 = put_steps [OF p1(1) 2]
  note p3 = remove_steps [OF p2(1) 3]
  show "(part_step St page (fst (place s)))\<^sup>*\<^sup>* (nm_close M s) (nm_close M s')"
    using p1(2,3) p2(2,3) p3(3) \<open>s' = s3\<close> by (metis rtranclp_trans)
  show "l \<in> set lines \<Longrightarrow> \<not> shows_identity l x" by (rule l)
qed

lemma run_owner_keeps:
  assumes L: "layout_ok St mem reveal off page d"
    and run: "run_owner M St off page d = ((lines, got), d')"
  shows "keeps P off d d'" and "l \<in> set lines \<Longrightarrow> \<not> shows_identity l x"
    and "got = Some part \<Longrightarrow> table_lookup St mem reveal off d (ascii ''nvs'') = Inr (Some part)"
proof -
  obtain found d1 where fp: "find_partition St off d (ascii ''nvs'') = (found, d1)"
    by (rule prod.exhaust)
  have k1: "keeps P off d d1" by (rule keeps_mem [OF L find_partition_lookup(1) [OF fp]])
  have "keeps P off d d' \<and> (l \<in> set lines \<longrightarrow> \<not> shows_identity l x) \<and>
    (got = Some part \<longrightarrow> found = Inr (Some part))"
  proof (cases "\<exists>part. found = Inr (Some part)")
    case False
    with fp run k1 show ?thesis
      by (auto simp: run_owner_def shows_identity_def split: sum.splits option.splits)
  next
    case True
    then obtain part' where part: "found = Inr (Some part')" by blast
    obtain res where res: "open_part M page part' NAMESPACE d1 = res" by blast
    have quiet: "\<not> shows_identity (read_name K s) x" "\<not> shows_identity (read_presence K s key) x"
      for K :: "'n kv" and s key
      by (auto simp: read_name_def read_presence_def shows_identity_def split: sum.splits option.splits)
    have nvs: "keeps P off d1 d2" if "placed_at St mem reveal off page (ascii ''nvs'') d f"
      "(part_step St page f)\<^sup>*\<^sup>* d1 d2" for f d2
    proof (rule keeps_owner_steps [OF keeps_layout [OF k1] _ that(2)])
      show "placed_at St mem reveal off page (ascii ''nvs'') d1 f" using k1 that(1) by (simp add: keeps_def)
    qed
    show ?thesis
    proof (rule open_part_cases [OF fp [unfolded part] res])
      fix e
      assume "res = Inl (e, d1)"
      with fp part res run k1 show ?thesis by (auto simp: run_owner_def shows_identity_def Let_def)
    next
      fix f e d2
      assume f: "placed_at St mem reveal off page (ascii ''nvs'') d f" and r: "res = Inl (e, d2)"
        and o: "nm_open M f NAMESPACE d1 = Inl (e, d2)"
      from o open_failed have "(part_step St page f)\<^sup>*\<^sup>* d1 d2" by blast
      with nvs [OF f] keeps_trans [OF k1] r fp part res run show ?thesis
        by (auto simp: run_owner_def shows_identity_def Let_def)
    next
      fix f s
      assume f: "placed_at St mem reveal off page (ascii ''nvs'') d f" and r: "res = Inr s"
        and o: "nm_open M f NAMESPACE d1 = Inr s"
      from nvs [OF f opened_at(4) [OF o]] keeps_trans [OF k1] r fp part res run quiet show ?thesis
        by (auto simp: run_owner_def Let_def) (simp add: shows_identity_def)
    qed
  qed
  then show "keeps P off d d'" "l \<in> set lines \<Longrightarrow> \<not> shows_identity l x"
    "got = Some part \<Longrightarrow> table_lookup St mem reveal off d (ascii ''nvs'') = Inr (Some part)"
    using find_partition_lookup(2) [OF fp] by auto
qed

lemma writer_proof_keeps:
  assumes L: "layout_ok St mem reveal off page d"
    and part: "table_lookup St mem reveal off d (ascii ''nvs'') = Inr (Some part)"
    and run: "writer_proof M page fill us part d r = (lines, d', r')"
  shows "keeps P off d d'" and "l \<in> set lines \<Longrightarrow> \<not> shows_identity l x"
proof -
  have "keeps P off d d' \<and> (l \<in> set lines \<longrightarrow> \<not> shows_identity l x)"
  proof (cases "pf_new page (pt_offset part) (pt_len part)")
    case (Inl e)
    with run keeps_mem [OF L refl, of P] show ?thesis
      by (auto simp: writer_proof_def open_part_def shows_identity_def)
  next
    case (Inr f)
    with part have f: "placed_at St mem reveal off page (ascii ''nvs'') d f" by (auto simp: placed_at_def)
    show ?thesis
    proof (cases "nm_open M f PROOF_NAMESPACE d")
      case (Inl ed)
      obtain e d2 where ed: "ed = (e, d2)" by (rule prod.exhaust)
      from open_failed [OF Inl [unfolded ed]] have "keeps P off d d2"
        by (intro keeps_owner_steps [OF L f]) blast
      with Inl Inr ed run show ?thesis by (auto simp: writer_proof_def open_part_def shows_identity_def)
    next
      case s: (Inr s)
      obtain got buf where g: "get_into (nm_kv M) s (ascii ''blob'') (replicate 128 0) = (got, buf)"
        by (rule prod.exhaust)
      obtain filled r1 where fl: "fill r 32 = (filled, r1)" by (rule prod.exhaust)
      obtain ls s' where w: "prove_writes (nm_kv M) us s
          (case filled of Inr bs \<Rightarrow> bs | Inl _ \<Rightarrow> replicate 32 0) buf = (ls, s')" by (rule prod.exhaust)
      note o = opened_at [OF s] and ws = prove_writes_steps [OF opened_at(1) [OF s] w]
      have "(part_step St page f)\<^sup>*\<^sup>* d (nm_close M s')" using o(2,4) ws(1) by simp
      from keeps_owner_steps [OF L f this] s Inr g fl w run ws(2) [of l x] show ?thesis
        by (auto simp: writer_proof_def open_part_def Let_def shows_identity_def split: sum.splits option.splits)
    qed
  qed
  then show "keeps P off d d'" "l \<in> set lines \<Longrightarrow> \<not> shows_identity l x" by blast+
qed

section \<open>A boot\<close>

lemma run_parts:
  assumes P: "prims_ok P" and L: "layout_ok St mem reveal off page d"
    and run: "run P M St off page fill us wp d r = (lines, d', r')"
  obtains lines1 go d1 r1 where
    "run_identity P M St off page fill us d r = ((lines1, go), d1, r1)" "keeps P off d1 d'"
    "\<And>l x. l \<in> set lines \<Longrightarrow> shows_identity l x \<Longrightarrow> l \<in> set lines1"
proof -
  obtain lines1 go d1 r1 where 1: "run_identity P M St off page fill us d r = ((lines1, go), d1, r1)"
    by (metis prod.exhaust)
  have L1: "layout_ok St mem reveal off page d1" by (rule keeps_layout [OF run_identity_keeps [OF P L 1]])
  show thesis
  proof (cases go)
    case False
    with 1 run have "lines = lines1" "d' = d1" by (simp_all add: run_def)
    with that [OF 1] keeps_mem [OF L1 refl] show ?thesis by blast
  next
    case True
    obtain lines2 got d2 where 2: "run_owner M St off page d1 = ((lines2, got), d2)"
      by (metis prod.exhaust)
    have k2: "keeps P off d1 d2" and quiet2: "l \<in> set lines2 \<Longrightarrow> \<not> shows_identity l x" for l x
      using run_owner_keeps(1,2) [OF L1 2] by blast+
    show ?thesis
    proof (cases "\<exists>part. got = Some part \<and> wp")
      case False
      with 1 2 True run have "lines = lines1 @ lines2" "d' = d2"
        by (auto simp: run_def split: option.splits)
      with that [OF 1] k2 quiet2 show ?thesis by auto
    next
      case both: True
      then obtain part where part: "got = Some part" "wp" by blast
      obtain lines3 d3 r3 where 3: "writer_proof M page fill us part d2 r1 = (lines3, d3, r3)"
        by (metis prod.exhaust)
      have "table_lookup St mem reveal off d2 (ascii ''nvs'') = Inr (Some part)"
        using run_owner_keeps(3) [OF L1 2] part(1) k2 by (simp add: keeps_def)
      from writer_proof_keeps [OF keeps_layout [OF k2] this 3]
      have "keeps P off d2 d3" "l \<in> set lines3 \<Longrightarrow> \<not> shows_identity l x" for l x by blast+
      moreover have "lines = lines1 @ lines2 @ lines3" "d' = d3"
        using 1 2 3 True part run by (auto simp: run_def)
      ultimately show ?thesis using that [OF 1 keeps_trans [OF k2]] quiet2 by auto
    qed
  qed
qed

end

text \<open>What \<open>main\<close> prints of identities is what \<open>run\<close> printed, and it never panics.\<close>

lemma main_runs:
  assumes "prims_ok P" "bs58_ok B"
    and m: "main P M St off page E B random us ft port_name hz used free d trng = (res, d')"
  obtains lines where "res = Inr lines" "d' = d" "\<And>l x. l \<in> set lines \<Longrightarrow> \<not> shows_identity l x"
      "trng = None \<or> \<not> ft_identity ft"
  | lines ran r r' where "res = Inr lines" "trng = Some r"
      "run P M St off page (chip_rng random) us (ft_nvs_proof ft) d r = (ran, d', r')"
      "\<And>l x. l \<in> set lines \<Longrightarrow> shows_identity l x \<Longrightarrow> l \<in> set ran" "set ran \<subseteq> set lines"
proof (cases trng)
  case None
  with m show thesis by (intro that(1)) (auto simp: main_def shows_identity_def Let_def)
next
  case (Some r)
  obtain ran d1 r1 where ran: "(if ft_identity ft then run P M St off page (chip_rng random) us (ft_nvs_proof ft) d r
      else ([], d, r)) = (ran, d1, r1)" by (metis prod.exhaust)
  obtain benched r2 where b: "bench P E B (chip_rng random) us (ft_alloc_rung ft) (ucast hz div 1000000) r1
      = (Inr benched, r2)" and quiet: "\<forall>x t. Loaded x t \<notin> set benched \<and> Minted x t \<notin> set benched"
    using bench_runs [OF assms(1,2), where fill = "chip_rng random" and r = r1 and us = us and E = E
        and alloc = "ft_alloc_rung ft" and mhz = "ucast hz div 1000000"] by (elim exE conjE) blast
  define hd_lines where "hd_lines = [Banner,
      KernelIs (if ft_kairos ft then (case port_name of Some n \<Rightarrow> n | None \<Rightarrow> ascii ''none'')
                else ascii ''bare-metal''),
      CpuAt (ucast hz div 1000000) ITERATIONS (ft_alloc_rung ft)]"
  define tail where "tail = (case benched of [GenerateFailed _] \<Rightarrow> [] | _ \<Rightarrow> [MemIs used free, Done])"
  have "set tail \<subseteq> {MemIs used free, Done}"
    by (auto simp: tail_def split: list.splits line.splits)
  then have q: "\<not> shows_identity l x" if "l \<in> set (hd_lines @ tail @ benched)" for l x
    using that quiet by (auto simp: shows_identity_def hd_lines_def)
  have h: "res = Inr (hd_lines @ ran @ benched @ tail)" "d' = d1"
    using m Some ran b by (simp_all add: main_def Let_def hd_lines_def tail_def)
  show thesis
  proof (cases "ft_identity ft")
    case True
    show ?thesis
    proof (rule that(2))
      show "trng = Some r" by (rule Some)
      show "res = Inr (hd_lines @ ran @ benched @ tail)" by (rule h(1))
      show "run P M St off page (chip_rng random) us (ft_nvs_proof ft) d r = (ran, d', r1)"
        using ran True h(2) by simp
      show "l \<in> set ran" if "l \<in> set (hd_lines @ ran @ benched @ tail)" "shows_identity l x" for l x
        using that q [of l x] by auto
      show "set ran \<subseteq> set (hd_lines @ ran @ benched @ tail)" by auto
    qed
  next
    case False
    with ran have "ran = []" "d1 = d" by simp_all
    with h q False show ?thesis by (intro that(1)) auto
  qed
qed

text \<open>One boot after another on one board, each with its build, clock and randomness.\<close>

inductive power_cycles ::
  "('sk, 'vk, 'sig) prims \<Rightarrow> ('d, 'n) nvs_module \<Rightarrow> 'd storage \<Rightarrow> u32 \<Rightarrow> u32 \<Rightarrow> b64 \<Rightarrow> bs58
     \<Rightarrow> ('r \<Rightarrow> u32 \<times> 'r) \<Rightarrow> 'd \<Rightarrow> line list list \<Rightarrow> 'd \<Rightarrow> bool"
  for P M St off page E B random
where
  no_boot: "power_cycles P M St off page E B random d [] d"
| next_boot: "main P M St off page E B random us ft port_name hz used free d trng = (Inr lines, d1) \<Longrightarrow>
    power_cycles P M St off page E B random d1 reports d' \<Longrightarrow>
    power_cycles P M St off page E B random d (lines # reports) d'"

inductive_cases power_cycles_ConsE: "power_cycles P M St off page E B random d (lines # reports) d'"

context nvs_on_flash
begin

lemma main_keeps:
  assumes "prims_ok P" "bs58_ok B" and L: "layout_ok St mem reveal off page d"
    and m: "main P M St off page E B random us ft port_name hz used free d trng = (Inr lines, d')"
  shows "keeps P off d d'"
  using assms(1,2) m
proof (cases rule: main_runs)
  case (1 lines')
  with keeps_mem [OF L refl] show ?thesis by simp
next
  case (2 lines' ran r r')
  show ?thesis
  proof (rule run_parts [OF assms(1) L 2(3)])
    fix lines1 go d1 r1
    assume r: "run_identity P M St off page (chip_rng random) us d r = ((lines1, go), d1, r1)"
      and k: "keeps P off d1 d'"
    show ?thesis by (rule keeps_trans [OF run_identity_keeps [OF assms(1) L r] k])
  qed
qed

lemma main_shown:
  assumes "prims_ok P" "bs58_ok B" and L: "layout_ok St mem reveal off page d"
    and st: "\<And>v. length v = 32 \<Longrightarrow> storable v"
    and m: "main P M St off page E B random us ft port_name hz used free d trng = (Inr lines, d')"
    and l: "l \<in> set lines" "shows_identity l x"
  shows "\<exists>f. placed_at St mem reveal off page (ascii ''identity'') d' f \<and> identity_at P decode mem f d' x"
  using assms(1,2) m
proof (cases rule: main_runs)
  case (1 lines')
  with l show ?thesis by auto
next
  case (2 lines' ran r r')
  show ?thesis
  proof (rule run_parts [OF assms(1) L 2(3)])
    fix lines1 go d1 r1
    assume r: "run_identity P M St off page (chip_rng random) us d r = ((lines1, go), d1, r1)"
      and k: "keeps P off d1 d'" and from1: "\<And>l x. l \<in> set ran \<Longrightarrow> shows_identity l x \<Longrightarrow> l \<in> set lines1"
    have "l \<in> set lines1" using from1 2(1,4) l by auto
    from run_identity_shown [OF assms(1) L st r this l(2)] k show ?thesis by (auto simp: keeps_def)
  qed
qed

lemma main_again:
  assumes "prims_ok P" "bs58_ok B" and L: "layout_ok St mem reveal off page d"
    and m: "main P M St off page E B random us ft port_name hz used free d trng = (Inr lines, d')"
    and x: "placed_at St mem reveal off page (ascii ''identity'') d g" "identity_at P decode mem g d x"
    and l: "l \<in> set lines" "shows_identity l y"
  shows "\<exists>t. l = Loaded x t"
  using assms(1,2) m
proof (cases rule: main_runs)
  case (1 lines')
  with l show ?thesis by auto
next
  case (2 lines' ran r r')
  show ?thesis
  proof (rule run_parts [OF assms(1) L 2(3)])
    fix lines1 go d1 r1
    assume r: "run_identity P M St off page (chip_rng random) us d r = ((lines1, go), d1, r1)"
      and from1: "\<And>l x. l \<in> set ran \<Longrightarrow> shows_identity l x \<Longrightarrow> l \<in> set lines1"
    have "l \<in> set lines1" using from1 2(1,4) l by auto
    from run_identity_again [OF assms(1) L r x this l(2)] show ?thesis by blast
  qed
qed

text \<open>Over any number of boots: an identity on the flash is the only one ever shown.\<close>

lemma cycles_show_stored:
  assumes "power_cycles P M St off page E B random d reports d'" "prims_ok P" "bs58_ok B"
    and "layout_ok St mem reveal off page d"
    and "placed_at St mem reveal off page (ascii ''identity'') d g" "identity_at P decode mem g d x"
    and "lines \<in> set reports" "l \<in> set lines" "shows_identity l y"
  shows "\<exists>t. l = Loaded x t"
  using assms
proof (induction rule: power_cycles.induct)
  case (next_boot us ft port_name hz used free d trng lines1 d1 reports d')
  note k = main_keeps [OF next_boot.prems(1,2,3) next_boot.hyps(1)]
  show ?case
  proof (cases "lines \<in> set reports")
    case True
    have "placed_at St mem reveal off page (ascii ''identity'') d1 g" "identity_at P decode mem g d1 x"
      using k next_boot.prems(4,5) by (auto simp: keeps_def)
    with next_boot.IH next_boot.prems keeps_layout [OF k] True show ?thesis by blast
  next
    case False
    with next_boot.prems(6) have "lines = lines1" by simp
    with main_again [OF next_boot.prems(1,2,3) next_boot.hyps(1) next_boot.prems(4,5)] next_boot.prems(7,8)
    show ?thesis by blast
  qed
qed simp

lemma cycles_keep_shown:
  assumes "prims_ok P" "bs58_ok B" "layout_ok St mem reveal off page d"
    and "\<And>v. length v = 32 \<Longrightarrow> storable v"
    and "power_cycles P M St off page E B random d (first # later) d'"
    and "k \<in> set first" "shows_identity k x" "lines \<in> set later" "l \<in> set lines" "shows_identity l y"
  shows "\<exists>t. l = Loaded x t"
  using assms(5)
proof (rule power_cycles_ConsE)
  fix us ft port_name hz used free trng d1
  assume m: "main P M St off page E B random us ft port_name hz used free d trng = (Inr first, d1)"
    and b: "power_cycles P M St off page E B random d1 later d'"
  obtain f where f: "placed_at St mem reveal off page (ascii ''identity'') d1 f" "identity_at P decode mem f d1 x"
    using main_shown [OF assms(1-4) m assms(6,7)] by blast
  show ?thesis
    by (rule cycles_show_stored [OF b assms(1,2) keeps_layout [OF main_keeps [OF assms(1-3) m]] f assms(8-10)])
qed

end

end
