(* ===== verification/Boots_Sample.thy ===== *)
theory Boots_Sample
  imports Boots
begin

text \<open>
  A board to run the firmware on: the sample flash with a partition table of one entry, and in the
  place of \<open>NvsKv\<close> a store of one value for one namespace, kept in the first bytes of its
  partition as a length and that many bytes (a length of 255 is erased flash: nothing).
\<close>

section \<open>A one-value store\<close>

type_synonym one = "part_flash \<times> rstr \<times> (nat \<Rightarrow> u8)"

definition one_decode :: "rstr \<Rightarrow> bytes \<Rightarrow> bytes \<Rightarrow> bytes option" where
  "one_decode ns img k =
     (if ns = NAMESPACE \<and> k = KV_KEY \<and> img \<noteq> [] \<and> hd img \<noteq> 0xFF
      then Some (take (unat (hd img)) (tl img)) else None)"

definition one_contents :: "one \<Rightarrow> bytes \<Rightarrow> bytes option" where
  "one_contents s = (case s of (f, ns, d) \<Rightarrow> one_decode ns (part_image (\<lambda>d. d) f d))"

definition one_good :: "one \<Rightarrow> bool" where
  "one_good s = (case s of (f, ns, d) \<Rightarrow> pf_new 0x1000 (pf_base f) (pf_len f) = Inr f)"

definition one_write :: "one \<Rightarrow> bytes \<Rightarrow> unit result \<times> one" where
  "one_write s bs = (case s of (f, ns, d) \<Rightarrow>
     (case shared_write sample_flash 0x1000 f d 0 bs of (r, d) \<Rightarrow> (r, (f, ns, d))))"

definition one_kv :: "one kv" where
  "one_kv = \<lparr>
     kv_get = (\<lambda>s k n. case one_contents s k of
        None \<Rightarrow> Inr None
      | Some v \<Rightarrow> if length v \<le> n then Inr (Some v) else Inl (BufferTooSmall (length v))),
     kv_put = (\<lambda>s k v. if fst (snd s) = NAMESPACE \<and> k = KV_KEY \<and> length v < 255
        then one_write s (of_nat (length v) # v) else (Inl Hardware, s)),
     kv_remove = (\<lambda>s k. if one_contents s k = None then (Inr False, s)
        else (case one_write s [0xFF] of (Inr _, s) \<Rightarrow> (Inr True, s) | (Inl e, s) \<Rightarrow> (Inl e, s))) \<rparr>"

definition one_nvs :: "(nat \<Rightarrow> u8, one) nvs_module" where
  "one_nvs = \<lparr>
     nm_open = (\<lambda>f ns d. if pf_new 0x1000 (pf_base f) (pf_len f) = Inr f then Inr (f, ns, d)
                          else Inl (InvalidGeometry, d)),
     nm_kv = one_kv,
     nm_close = (\<lambda>(f, ns, d). d) \<rparr>"

lemma one_write_cases:
  assumes "one_good s" "one_write s bs = (r, s')"
  obtains e where "r = Inl e" "e = InvalidGeometry" "s' = s"
  | f ns d where "r = Inr ()" "s = (f, ns, d)" "length bs \<le> unat (pf_len f)"
      "s' = (f, ns, \<lambda>x. if unat (pf_base f) \<le> x \<and> x < unat (pf_base f) + length bs
                       then bs ! (x - unat (pf_base f)) else d x)"
proof -
  obtain f ns d where s: "s = (f, ns, d)" by (metis prod.exhaust)
  with assms(1) have new: "pf_new 0x1000 (pf_base f) (pf_len f) = Inr f" by (simp add: one_good_def)
  with pf_new_wf have wf: "part_wf f" by blast
  show thesis
  proof (cases "pf_at f 0 (length bs)")
    case (Inl e)
    then have "e = InvalidGeometry" by (auto simp: pf_at_def split: if_splits option.splits)
    with Inl assms(2) s new that(1) show ?thesis
      by (auto simp: one_write_def shared_write_def shared_with_def pf_write_def)
  next
    case (Inr a)
    with pf_at_Inr [OF wf, of 0 "length bs" a] have a: "length bs \<le> unat (pf_len f)" "unat a = unat (pf_base f)"
      by simp_all
    from Inr assms(2) s new have "r = Inr ()"
      "s' = (f, ns, \<lambda>x. if unat a \<le> x \<and> x < unat a + length bs then bs ! (x - unat a) else d x)"
      by (auto simp: one_write_def shared_write_def shared_with_def pf_write_def sample_flash_def ensure_def)
    show ?thesis
    proof (rule that(2))
      show "s' = (f, ns, \<lambda>x. if unat (pf_base f) \<le> x \<and> x < unat (pf_base f) + length bs
          then bs ! (x - unat (pf_base f)) else d x)"
        using \<open>s' = _\<close> unfolding a(2) .
    qed (fact \<open>r = Inr ()\<close> s a(1))+
  qed
qed

lemma one_write_step:
  assumes "one_good s" "one_write s bs = (r, s')"
  shows "one_good s'" and "fst s' = fst s" and "fst (snd s') = fst (snd s)"
    and "part_step sample_flash 0x1000 (fst s) (snd (snd s)) (snd (snd s'))"
proof -
  obtain f ns d where s: "s = (f, ns, d)" by (metis prod.exhaust)
  obtain q d' where w: "shared_write sample_flash 0x1000 f d 0 bs = (q, d')" by (rule prod.exhaust)
  with assms(2) s have s': "s' = (f, ns, d')" by (simp add: one_write_def)
  show "one_good s'" "fst s' = fst s" "fst (snd s') = fst (snd s)"
    "part_step sample_flash 0x1000 (fst s) (snd (snd s)) (snd (snd s'))"
    using assms(1) s s' part_step.step_write [OF w] by (simp_all add: one_good_def)
qed

lemma image_written:
  assumes "length bs \<le> unat (pf_len f)"
  shows "part_image (\<lambda>d. d) f (\<lambda>x. if unat (pf_base f) \<le> x \<and> x < unat (pf_base f) + length bs
      then bs ! (x - unat (pf_base f)) else d x) = bs @ drop (length bs) (part_image (\<lambda>d. d) f d)"
  using assms by (intro nth_equalityI) (auto simp: part_image_def nth_append)

lemma one_written:
  assumes "one_good s" "one_write s bs = (Inr (), s')" "bs = of_nat (length v) # v" "length v < 255"
  shows "one_contents s' k = (if fst (snd s) = NAMESPACE \<and> k = KV_KEY then Some v else None)"
  using assms(1,2)
proof (cases rule: one_write_cases)
  case (2 f ns d)
  have u: "unat (of_nat (length v) :: u8) = length v" using assms(4) by (simp add: unat_of_nat)
  then have "(of_nat (length v) :: u8) \<noteq> 0xFF" using assms(4) by auto
  moreover have "part_image (\<lambda>d. d) f (snd (snd s')) = bs @ drop (length bs) (part_image (\<lambda>d. d) f d)"
    using image_written [OF 2(3), of d] 2(4) by simp
  ultimately show ?thesis using u 2(2,4) assms(3) by (simp add: one_contents_def one_decode_def)
qed simp

lemma one_erased:
  assumes "one_good s" "one_write s [0xFF] = (Inr (), s')"
  shows "one_contents s' k = None"
  using assms
proof (cases rule: one_write_cases)
  case (2 f ns d)
  then have "part_image (\<lambda>d. d) f (snd (snd s')) = [0xFF] @ drop 1 (part_image (\<lambda>d. d) f d)"
    using image_written [OF 2(3), of d] by simp
  with 2(4) show ?thesis by (simp add: one_contents_def one_decode_def)
qed simp

lemma one_write_failed:
  "one_good s \<Longrightarrow> one_write s bs = (Inl e, s') \<Longrightarrow> s' = s \<and> e = InvalidGeometry"
  by (erule (1) one_write_cases) simp_all

lemma one_contents_other:
  "one_contents s k \<noteq> None \<Longrightarrow> fst (snd s) = NAMESPACE \<and> k = KV_KEY"
  by (cases s) (simp add: one_contents_def one_decode_def split: if_splits)

interpretation one_store: kv_store one_kv one_contents one_good "\<lambda>_. True"
proof
  fix s k v n
  assume good: "one_good s"
  {
    fix r assume "kv_get one_kv s k n = Inr r"
    then show "r = one_contents s k \<and> (\<forall>v. r = Some v \<longrightarrow> length v \<le> n)"
      by (auto simp: one_kv_def split: option.splits if_splits)
  next
    fix m assume "kv_get one_kv s k n = Inl (BufferTooSmall m)"
    then show "\<exists>v. one_contents s k = Some v \<and> n < length v \<and> m = length v"
      by (auto simp: one_kv_def split: option.splits if_splits)
  next
    show "kv_get one_kv s k n \<noteq> Inl Panic" by (auto simp: one_kv_def split: option.splits)
  next
    fix rp s' assume p: "kv_put one_kv s k v = (rp, s')"
    have only: "one_contents t j = None" if "j \<noteq> KV_KEY" for t j using one_contents_other that by blast
    from p have "s' = s \<or> k = KV_KEY \<and> (\<exists>bs. one_write s bs = (rp, s'))"
      by (auto simp: one_kv_def split: if_splits)
    with good one_write_step(1) only show "one_good s' \<and> (\<forall>j. j \<noteq> k \<longrightarrow> one_contents s' j = one_contents s j)"
      by metis
  next
    fix s' assume p: "kv_put one_kv s k v = (Inr (), s')"
    then have "fst (snd s) = NAMESPACE" "k = KV_KEY" "length v < 255"
      "one_write s (of_nat (length v) # v) = (Inr (), s')" by (auto simp: one_kv_def split: if_splits)
    with one_written [OF good] show "one_contents s' k = Some v" by simp
  next
    fix e s' assume p: "kv_put one_kv s k v = (Inl e, s')"
    then have "s' = s \<and> e \<noteq> Panic"
      by (auto simp: one_kv_def split: if_splits dest!: one_write_failed [OF good])
    then show "one_contents s' k \<in> {one_contents s k, None, Some v} \<and> e \<noteq> Panic" by simp
  next
    fix rr s' assume r: "kv_remove one_kv s k = (rr, s')"
    have only: "one_contents t j = None" if "j \<noteq> KV_KEY" for t j using one_contents_other that by blast
    from r have "s' = s \<or> k = KV_KEY \<and> (\<exists>q. one_write s [0xFF] = (q, s'))"
      using one_contents_other [of s k] by (auto simp: one_kv_def split: if_splits prod.splits sum.splits)
    with good one_write_step(1) only show "one_good s' \<and> (\<forall>j. j \<noteq> k \<longrightarrow> one_contents s' j = one_contents s j)"
      by metis
  next
    fix b s' assume r: "kv_remove one_kv s k = (Inr b, s')"
    then show "one_contents s' k = None \<and> b = (one_contents s k \<noteq> None)"
      using one_erased [OF good] by (auto simp: one_kv_def split: if_splits prod.splits sum.splits)
  next
    fix e s' assume r: "kv_remove one_kv s k = (Inl e, s')"
    then have "s' = s \<and> e \<noteq> Panic"
      by (auto simp: one_kv_def split: if_splits prod.splits sum.splits dest!: one_write_failed [OF good])
    then show "one_contents s' k \<in> {one_contents s k, None} \<and> e \<noteq> Panic" by simp
  }
qed

definition one_place :: "one \<Rightarrow> part_flash \<times> rstr" where
  "one_place s = (fst s, fst (snd s))"

lemma one_run:
  assumes "one_good s" "s' = s \<or> (\<exists>bs r. one_write s bs = (r, s'))"
  shows "one_place s' = one_place s \<and>
    (part_step sample_flash 0x1000 (fst (one_place s)))\<^sup>*\<^sup>* (nm_close one_nvs s) (nm_close one_nvs s')"
  using assms(2)
proof
  assume "\<exists>bs r. one_write s bs = (r, s')"
  then obtain bs r where "one_write s bs = (r, s')" by blast
  note w = one_write_step [OF assms(1) this]
  have "nm_close one_nvs t = snd (snd t)" for t by (simp add: one_nvs_def split: prod.split)
  with w show ?thesis by (simp add: one_place_def r_into_rtranclp)
qed simp

interpretation one_flash: nvs_on_flash sample_flash "\<lambda>d. d" one_nvs one_contents one_good "\<lambda>_. True"
  "0x1000" one_place one_decode "\<lambda>_ bs. bs"
proof (intro nvs_on_flash.intro nvs_on_flash_axioms.intro)
  show "nor_flash sample_flash (\<lambda>d. d)" by (rule sample_nor.nor_flash_axioms)
  show "kv_store (nm_kv one_nvs) one_contents one_good (\<lambda>_. True)"
    using one_store.kv_store_axioms by (simp add: one_nvs_def)
  fix f ns d s e d' j k v rp s' a n r bs rr
  show "nm_open one_nvs f ns d = Inr s \<Longrightarrow> one_good s \<and> one_place s = (f, ns) \<and>
      one_contents s = one_decode ns (part_image (\<lambda>d. d) f d) \<and>
      (part_step sample_flash 0x1000 f)\<^sup>*\<^sup>* d (nm_close one_nvs s)"
    by (auto simp: one_nvs_def one_good_def one_place_def one_contents_def fun_eq_iff split: if_splits)
  show "nm_open one_nvs f ns d = Inl (e, d') \<Longrightarrow> (part_step sample_flash 0x1000 f)\<^sup>*\<^sup>* d d' \<and>
      one_decode j (part_image (\<lambda>d. d) f d') = one_decode j (part_image (\<lambda>d. d) f d)"
    by (auto simp: one_nvs_def split: if_splits)
  show "one_good s \<Longrightarrow> one_place s = (f, ns) \<Longrightarrow>
      one_decode ns (part_image (\<lambda>d. d) f (nm_close one_nvs s)) = one_contents s"
    by (cases s) (simp add: one_nvs_def one_place_def one_contents_def fun_eq_iff)
  show "one_good s \<Longrightarrow> kv_put (nm_kv one_nvs) s k v = (rp, s') \<Longrightarrow> one_place s' = one_place s \<and>
      (part_step sample_flash 0x1000 (fst (one_place s)))\<^sup>*\<^sup>* (nm_close one_nvs s) (nm_close one_nvs s')"
    by (rule one_run) (auto simp: one_nvs_def one_kv_def split: if_splits)
  show "one_good s \<Longrightarrow> kv_remove (nm_kv one_nvs) s k = (rr, s') \<Longrightarrow> one_place s' = one_place s \<and>
      (part_step sample_flash 0x1000 (fst (one_place s)))\<^sup>*\<^sup>* (nm_close one_nvs s) (nm_close one_nvs s')"
    by (rule one_run) (auto simp: one_nvs_def one_kv_def split: if_splits prod.splits sum.splits)
  show "read_encrypted sample_flash d a n = (r, d') \<Longrightarrow> d' = d"
    "read_encrypted sample_flash d a n = (Some bs, d') \<Longrightarrow> bs = map (\<lambda>i. d (unat a + i)) [0..<n]"
    by (auto simp: sample_flash_def)
qed

section \<open>A board\<close>

definition board_entry :: bytes where
  "board_entry = [0xAA, 0x50, 1, 2, 0, 0x90, 0, 0, 0, 0x10, 0, 0] @ ascii ''identity'' @ replicate 12 0"

definition board :: "nat \<Rightarrow> u8" where
  "board a = (if a - 0x8000 < 32 then board_entry ! (a - 0x8000) else 0xFF)"

definition board_flash :: part_flash where
  "board_flash = \<lparr>pf_base = 0x9000, pf_len = 0x1000\<rparr>"

lemma board_chunks:
  "\<exists>es. chunks_exact MAX_ENTRIES 32 (map (\<lambda>i. board (unat (0x8000 :: u32) + i)) [0..<MAX_ENTRIES * 32])
     = board_entry # replicate 32 0xFF # es"
proof -
  let ?table = "map (\<lambda>i. board (unat (0x8000 :: u32) + i)) [0..<MAX_ENTRIES * 32]"
  have "map (\<lambda>i. board (0x8000 + i)) [0..<32] = board_entry"
    by (intro nth_equalityI) (simp_all add: board_def, simp add: board_entry_def ascii_def)
  moreover have "take 32 [0..<MAX_ENTRIES * 32] = [0..<32]" by (simp add: take_upt)
  ultimately have 1: "take 32 ?table = board_entry" by (simp add: take_map)
  have "take 32 (drop 32 [0..<MAX_ENTRIES * 32]) = [32..<64]" by (simp add: take_upt)
  then have "take 32 (drop 32 ?table) = map (\<lambda>i. board (unat (0x8000 :: u32) + i)) [32..<64]"
    by (simp only: take_map drop_map)
  also have "\<dots> = map (\<lambda>_. 0xFF) [32..<64]"
    by (rule map_cong [OF refl]) (simp add: board_def del: upt_rec_numeral)
  also have "\<dots> = replicate 32 0xFF" by (simp add: map_replicate_const del: upt_rec_numeral)
  finally have 2: "take 32 (drop 32 ?table) = replicate 32 0xFF" .
  have "chunks_exact (Suc 94) 32 ?table = take 32 ?table # chunks_exact 94 32 (drop 32 ?table)"
    by (rule chunks_exact.simps(2))
  moreover have "chunks_exact (Suc 93) 32 (drop 32 ?table)
      = take 32 (drop 32 ?table) # chunks_exact 93 32 (drop 32 (drop 32 ?table))"
    by (rule chunks_exact.simps(2))
  moreover have "MAX_ENTRIES = Suc 94" "94 = Suc 93" by simp_all
  ultimately show ?thesis using 1 2 by metis
qed

lemma board_lookup:
  "table_lookup sample_flash (\<lambda>d. d) (\<lambda>_ bs. bs) 0x8000 board (ascii ''identity'') =
     Inr (Some (entry_partition board_entry))"
  "table_lookup sample_flash (\<lambda>d. d) (\<lambda>_ bs. bs) 0x8000 board (ascii ''nvs'') = Inr None"
proof -
  have t: "table_bytes sample_flash (\<lambda>d. d) (\<lambda>_ bs. bs) 0x8000 board =
      map (\<lambda>i. board (unat (0x8000 :: u32) + i)) [0..<MAX_ENTRIES * 32]"
    by (simp only: table_bytes_def Let_def if_cancel)
  obtain es where es: "chunks_exact MAX_ENTRIES 32 (table_bytes sample_flash (\<lambda>d. d) (\<lambda>_ bs. bs) 0x8000 board)
      = board_entry # replicate 32 0xFF # es"
    using board_chunks unfolding t by blast
  have two: "replicate 2 (0xFF :: u8) = [0xFF, 0xFF]" by (simp add: numeral_2_eq_2)
  have e: "take 2 board_entry = ENTRY_MAGIC" "ENTRY_MAGIC \<noteq> MD5_MAGIC" "ENTRY_MAGIC \<noteq> [0xFF, 0xFF]"
    "take 2 (replicate 32 (0xFF :: u8)) = [0xFF, 0xFF]"
    "partition_label (entry_partition board_entry) = ascii ''identity''"
    by (simp_all add: board_entry_def ENTRY_MAGIC_def MD5_MAGIC_def partition_label_def entry_partition_def
        ascii_def from_utf8_def two)
  moreover have "ascii ''identity'' \<noteq> ascii ''nvs''" by (simp add: ascii_def)
  ultimately show
    "table_lookup sample_flash (\<lambda>d. d) (\<lambda>_ bs. bs) 0x8000 board (ascii ''identity'') =
       Inr (Some (entry_partition board_entry))"
    "table_lookup sample_flash (\<lambda>d. d) (\<lambda>_ bs. bs) 0x8000 board (ascii ''nvs'') = Inr None"
    unfolding table_lookup_def es by simp_all
qed

lemma board_placed:
  "pf_new 0x1000 (pt_offset (entry_partition board_entry)) (pt_len (entry_partition board_entry)) =
     Inr board_flash"
  by (simp add: entry_partition_def board_entry_def board_flash_def u32_from_le_def pf_new_def
      checked_add32_def u32_from_be_def from_be_def)

lemma board_layout: "layout_ok sample_flash (\<lambda>d. d) (\<lambda>_ bs. bs) 0x8000 0x1000 board"
  by (auto simp: layout_ok_def placed_at_def board_lookup board_placed board_flash_def inside_def)

lemma board_opens: "nm_open one_nvs board_flash NAMESPACE board = Inr (board_flash, NAMESPACE, board)"
  by (simp add: one_nvs_def board_flash_def pf_new_def checked_add32_def)

lemma board_blank: "one_contents (board_flash, NAMESPACE, board) k = None"
proof -
  have "hd (part_image (\<lambda>d. d) board_flash board) = 0xFF"
    by (simp add: part_image_def board_flash_def hd_map board_def)
  then show ?thesis by (simp add: one_contents_def one_decode_def)
qed

definition board_random :: "u8 \<Rightarrow> u32 \<times> u8" where
  "board_random r = (if r = 0 then 1 else if r = 7 then 0x07000000 else 0, r + 1)"

lemma board_draw: "chip_rng board_random 0 32 = (Inr (1 # replicate 30 0 @ [7]), 8)"
proof -
  have be4: "be_bytes 4 v = [of_nat (v div 16777216), of_nat (v div 65536), of_nat (v div 256), of_nat v]" for v
  proof -
    have "(4 :: nat) = Suc (Suc (Suc (Suc 0)))" by simp
    then show ?thesis by (simp only: be_bytes.simps) (simp add: div_mult2_eq [symmetric])
  qed
  have "replicate 30 (0 :: u8) = replicate (3 + 4 + 4 + 4 + 4 + 4 + 4 + 3) 0" by simp
  also have "\<dots> = [0, 0, 0] @ [0, 0, 0, 0] @ [0, 0, 0, 0] @ [0, 0, 0, 0] @ [0, 0, 0, 0] @ [0, 0, 0, 0]
      @ [0, 0, 0, 0] @ [0, 0, 0]"
    by (simp only: replicate_add) (simp add: eval_nat_numeral)
  finally show ?thesis
    by (simp add: chip_rng_def fill_words.simps board_random_def u32_to_le_def u32_to_be_def be4)
qed

text \<open>The first boot mints.\<close>

definition board_key :: "(u8, u8) device_key" where
  "board_key = \<lparr>dk_secret = 7, dk_public = 7,
     dk_device_id = \<lparr>di_bytes = DEVICE_ID @ replicate 25 0, di_len = 7\<rparr>\<rparr>"

lemma board_id: "device_id_new DEVICE_ID = Inr (dk_device_id board_key)"
  by (simp add: device_id_new_def board_key_def DEVICE_ID_def ascii_def is_ascii_alphanumeric_def Let_def)

lemma board_generates: "generate sample_prims (chip_rng board_random) 0 DEVICE_ID = (Inr board_key, 8)"
proof -
  have d: "derive sample_prims (1 # replicate 30 0 @ [7]) = Some (7, 7)"
    by (simp add: derive_def sample_prims_def)
  have k: "\<lparr>dk_secret = 7, dk_public = 7, dk_device_id = dk_device_id board_key\<rparr> = board_key"
    by (simp add: board_key_def)
  have "generate_attempts sample_prims (chip_rng board_random) (dk_device_id board_key) (Suc 7) 0 = (Inr board_key, 8)"
    by (simp only: generate_attempts.simps board_draw d k prod.case sum.case option.case)
  then show ?thesis by (simp add: generate_def board_id del: generate_attempts.simps)
qed

lemma board_mints:
  "\<exists>s. report_identity sample_prims one_kv (chip_rng board_random) us (board_flash, NAMESPACE, board) 0 =
     (Minted (key_did sample_prims board_key) (us Boot), s, 8)"
proof -
  let ?s = "(board_flash, NAMESPACE, board)"
  have l: "load sample_prims one_kv ?s DEVICE_ID = Inr None"
    by (simp add: load_def one_kv_def board_blank)
  have "\<exists>s. store sample_prims one_kv ?s board_key = (Inr (), s)"
  proof -
    have l: "length (secret_bytes sample_prims board_key) = 32"
      by (simp add: secret_bytes_def board_key_def sample_prims_def)
    have "pf_at board_flash 0 33 = Inr 0x9000"
      by (simp add: pf_at_def board_flash_def checked_add32_def)
    moreover have "pf_new 0x1000 (pf_base board_flash) (pf_len board_flash) = Inr board_flash"
      by (simp add: board_flash_def pf_new_def checked_add32_def)
    ultimately show ?thesis
      using l by (simp add: store_def one_kv_def one_write_def shared_write_def shared_with_def pf_write_def
          sample_flash_def)
  qed
  then show ?thesis using l by (auto simp: report_identity_def load_or_generate_def board_generates)
qed

lemma board_boot:
  assumes "main sample_prims one_nvs sample_flash 0x8000 0x1000 E sample_bs58 board_random us ft port_name hz
    used free board (Some 0) = (res, d')" "ft_identity ft"
  shows "\<exists>lines. res = Inr lines \<and> Minted (key_did sample_prims board_key) (us Boot) \<in> set lines"
  using sample_prims_ok sample_bs58_ok assms(1)
proof (cases rule: main_runs)
  case (1 lines)
  with assms(2) show ?thesis by simp
next
  case (2 lines ran r r')
  obtain s where s: "report_identity sample_prims one_kv (chip_rng board_random) us (board_flash, NAMESPACE, board) 0 =
     (Minted (key_did sample_prims board_key) (us Boot), s, 8)"
    using board_mints by blast
  have "find_partition sample_flash 0x8000 board label =
      (table_lookup sample_flash (\<lambda>d. d) (\<lambda>_ bs. bs) 0x8000 board label, board)" for label
    by (simp add: find_partition_def table_lookup_def table_bytes_def sample_flash_def Let_def)
  then have f: "find_partition sample_flash 0x8000 board (ascii ''identity'') =
      (Inr (Some (entry_partition board_entry)), board)"
    by (simp add: board_lookup)
  then have "run_identity sample_prims one_nvs sample_flash 0x8000 0x1000 (chip_rng board_random) us board 0 =
      (([PartitionAt (ascii ''identity'') (pt_offset (entry_partition board_entry))
           (pt_len (entry_partition board_entry)),
         Minted (key_did sample_prims board_key) (us Boot)], True), nm_close one_nvs s, 8)"
    using f s board_opens board_placed
    by (simp add: run_identity_def open_part_def Let_def) (simp add: one_nvs_def)
  with 2 have "Minted (key_did sample_prims board_key) (us Boot) \<in> set ran"
    by (auto simp: run_def split: prod.splits option.splits if_splits)
  with 2 show ?thesis by blast
qed

end
