(* ===== verification/Prop_Chip.thy ===== *)
theory Prop_Chip
  imports Flash_Correct Esp_Nvs Chip Json Json_Samples Boots_Sample
begin

text \<open>
  What the chip backends and the firmware promise (\<open>hal/\<close>, \<open>idf/\<close>, \<open>xiao-s3-keys\<close>): the
  properties.
\<close>

section \<open>The firmware\<close>

text \<open>C18. The identity a firmware has shown it keeps: over any sequence of boots, whatever their builds
  (the writer's proof on the owner's partition among them), clocks and randomness, and whatever
  flash and store calls fail, a boot after one that showed an identity mints none, and the only
  identity it can show is that one.\<close>

theorem firmware_identity_kept:
  assumes "nvs_on_flash St mem M contents good storable page place decode reveal"
    and "prims_ok P" "bs58_ok B" "\<And>v. length v = 32 \<Longrightarrow> storable v"
    and "layout_ok St mem reveal off page d"
    and "power_cycles P M St off page E B random d (first # later) d'"
    and "shown \<in> set first" "shows_identity shown x"
  shows "\<forall>report \<in> set later. \<forall>y t. Minted y t \<notin> set report \<and> (Loaded y t \<in> set report \<longrightarrow> y = x)"
proof (intro ballI allI)
  fix report y t
  assume r: "report \<in> set later"
  have loaded: "\<exists>t. l = Loaded x t" if "l \<in> set report" "shows_identity l y" for l
    using assms(4) by (rule nvs_on_flash.cycles_keep_shown [OF assms(1-3,5) _ assms(6-8) r that])
  show "Minted y t \<notin> set report \<and> (Loaded y t \<in> set report \<longrightarrow> y = x)"
    using loaded [of "Minted y t"] loaded [of "Loaded y t"] by (auto simp: shows_identity_def)
qed

theorem firmware_identity_kept_witness:
  "\<exists>first second d'. power_cycles sample_prims one_nvs sample_flash 0x8000 0x1000 sample_b64 sample_bs58 board_random
       board [first, second] d' \<and> Minted (key_did sample_prims board_key) 5 \<in> set first \<and>
     (\<forall>y t. Minted y t \<notin> set second)"
proof -
  let ?ft = "\<lparr>ft_identity = True, ft_nvs_proof = False, ft_alloc_rung = True, ft_kairos = False\<rparr>"
  let ?main = "main sample_prims one_nvs sample_flash 0x8000 0x1000 sample_b64 sample_bs58 board_random (\<lambda>_. 5)
      ?ft None 240000000 100 900"
  obtain r1 d1 where 1: "?main board (Some 0) = (r1, d1)" by (rule prod.exhaust)
  obtain first where first: "r1 = Inr first" "Minted (key_did sample_prims board_key) 5 \<in> set first"
    using board_boot [OF 1] by auto
  obtain r2 d2 where 2: "?main d1 (Some 8) = (r2, d2)" by (rule prod.exhaust)
  obtain second where second: "r2 = Inr second"
    using main_runs [OF sample_prims_ok sample_bs58_ok 2] by metis
  have b: "power_cycles sample_prims one_nvs sample_flash 0x8000 0x1000 sample_b64 sample_bs58 board_random
      board [first, second] d2"
    using 1 2 first(1) second by (auto intro: power_cycles.intros)
  have "shows_identity (Minted (key_did sample_prims board_key) 5) (key_did sample_prims board_key)"
    by (simp add: shows_identity_def)
  from firmware_identity_kept [OF one_flash.nvs_on_flash_axioms sample_prims_ok sample_bs58_ok TrueI
      board_layout b first(2) this]
  have "\<forall>y t. Minted y t \<notin> set second" by simp
  with b first(2) show ?thesis by blast
qed

section \<open>The chip\<close>

text \<open>\<open>find_partition\<close> answers the first entry of the table with the label, and only one before the
  end mark with nothing malformed before it; it fails only on a malformed entry before the end
  mark, as \<open>Corrupt\<close>.\<close>

lemma partition_found_first:
  assumes "(if flash_encryption St then read_encrypted St d off (MAX_ENTRIES * 32)
      else read_nor St d off (MAX_ENTRIES * 32)) = (Some table, d')"
  shows "(find_partition St off d label = (Inr (Some p), d') \<longleftrightarrow>
      (\<exists>pre e post. chunks_exact MAX_ENTRIES 32 table = pre @ e # post \<and> list_all (passed_over label) pre \<and>
         \<not> end_mark e \<and> take 2 e = ENTRY_MAGIC \<and> p = entry_partition e \<and> partition_label p = label))
    \<and> (\<forall>err. find_partition St off d label = (Inl err, d') \<longrightarrow> err = Corrupt \<and>
        (\<exists>e \<in> set (table_entries (chunks_exact MAX_ENTRIES 32 table)). take 2 e \<noteq> ENTRY_MAGIC))"
proof -
  have f: "find_partition St off d label = (search_entries label (chunks_exact MAX_ENTRIES 32 table), d')"
    using assms by (simp add: find_partition_def)
  show ?thesis
    unfolding f using search_entries_first [of label "chunks_exact MAX_ENTRIES 32 table" p]
      search_entries_error [of label "chunks_exact MAX_ENTRIES 32 table"] by auto
qed

definition sample_entry :: bytes where
  "sample_entry = [0xAA, 0x50, 1, 2, 0, 0x90, 0, 0, 0, 0x60, 0, 0] @ ascii ''nvs'' @ replicate 17 0"

definition sample_table :: "nat \<Rightarrow> u8" where
  "sample_table a = (if a - 0x8000 < 32 then sample_entry ! (a - 0x8000) else 0xFF)"

lemma sample_table_chunks:
  "\<exists>es. chunks_exact MAX_ENTRIES 32 (map (\<lambda>i. sample_table (unat (0x8000 :: u32) + i)) [0..<MAX_ENTRIES * 32])
     = sample_entry # es"
proof -
  let ?table = "map (\<lambda>i. sample_table (unat (0x8000 :: u32) + i)) [0..<MAX_ENTRIES * 32]"
  have "map (\<lambda>i. sample_table (0x8000 + i)) [0..<32] = sample_entry"
    by (intro nth_equalityI) (simp_all add: sample_table_def, simp add: sample_entry_def)
  moreover have "take 32 [0..<MAX_ENTRIES * 32] = [0..<32]" by (simp add: take_upt)
  ultimately have "take 32 ?table = sample_entry" by (simp add: take_map)
  moreover have "chunks_exact (Suc 94) 32 ?table = take 32 ?table # chunks_exact 94 32 (drop 32 ?table)"
    by (rule chunks_exact.simps(2))
  moreover have "MAX_ENTRIES = Suc 94" by simp
  ultimately show ?thesis by metis
qed

lemma sample_entry_found:
  "\<not> end_mark sample_entry" "take 2 sample_entry = ENTRY_MAGIC"
  "partition_label (entry_partition sample_entry) = ascii ''nvs''"
  by (simp_all add: end_mark_def sample_entry_def MD5_MAGIC_def ENTRY_MAGIC_def partition_label_def
      entry_partition_def ascii_def from_utf8_def)

lemma partition_found_first_witness:
  "find_partition sample_flash 0x8000 sample_table (ascii ''nvs'') =
     (Inr (Some (entry_partition sample_entry)), sample_table)"
proof -
  let ?table = "map (\<lambda>i. sample_table (unat (0x8000 :: u32) + i)) [0..<MAX_ENTRIES * 32]"
  have r: "(if flash_encryption sample_flash then read_encrypted sample_flash sample_table 0x8000 (MAX_ENTRIES * 32)
      else read_nor sample_flash sample_table 0x8000 (MAX_ENTRIES * 32)) = (Some ?table, sample_table)"
    by (simp add: sample_flash_def)
  obtain es where "chunks_exact MAX_ENTRIES 32 ?table = [] @ sample_entry # es"
    using sample_table_chunks by auto
  moreover have "list_all (passed_over (ascii ''nvs'')) []" by simp
  ultimately show ?thesis
    using partition_found_first [OF r, of "ascii ''nvs''" "entry_partition sample_entry"] sample_entry_found
    by blast
qed

text \<open>C38. Partitions are isolated: whatever run of reads, writes and erases goes to one partition, failed
  ones included, changes no byte outside it, and a disjoint partition reads as before.\<close>

theorem partitions_isolated_by_bounds:
  assumes "nor_flash St mem" "(part_step St page f)\<^sup>*\<^sup>* d d'"
  shows "(\<forall>x. \<not> inside f x \<longrightarrow> mem d' x = mem d x)
    \<and> (\<forall>g offset n bs bs' d1 d2. part_wf g \<and> (\<forall>x. inside g x \<longrightarrow> \<not> inside f x) \<and>
         pf_read St g d offset n = (Inr bs, d1) \<and> pf_read St g d' offset n = (Inr bs', d2) \<longrightarrow> bs' = bs)"
  using nor_flash.part_run_frame [OF assms] nor_flash.partitions_isolated [OF assms] by blast

theorem partitions_isolated_by_bounds_witness:
  "snd (shared_write sample_flash 0x1000 \<lparr>pf_base = 0x9000, pf_len = 0x6000\<rparr> (\<lambda>_. 0xFF) 4 [1, 2]) 0x8000 = 0xFF"
proof -
  let ?f = "\<lparr>pf_base = 0x9000, pf_len = 0x6000\<rparr>" and ?d = "\<lambda>_ :: nat. 0xFF :: u8"
  have s: "part_step sample_flash 0x1000 ?f ?d (snd (shared_write sample_flash 0x1000 ?f ?d 4 [1, 2]))"
    by (rule part_step.step_write) (rule surjective_pairing)
  have "\<not> inside ?f 0x8000" by (simp add: inside_def)
  with partitions_isolated_by_bounds [OF sample_nor.nor_flash_axioms r_into_rtranclp [of "part_step sample_flash 0x1000 ?f", OF s]]
  show ?thesis by blast
qed

text \<open>C39. The ESP-IDF namespace is a \<open>Kv\<close>, for blobs and for the strings an owner's image wrote, with the
  contract's failures (a replaced string may be lost by a failed write, no other key ever
  changes); and a namespace opened for secrets is on an encrypted partition unless the build
  says it is for development.\<close>

theorem idf_namespace_is_store:
  assumes "idf_namespace N check_key entry"
  shows "kv_store (nvs_kv N check_key) (nvs_contents entry) (\<lambda>_. True) (\<lambda>_. True)
    \<and> (\<forall>cfg nvs_new part ns kv. open_in cfg nvs_new part ns = Inr kv \<longrightarrow>
         en_protection kv = protection_of cfg \<and> (Encrypted \<le> en_protection kv \<or> bc_allow_insecure_dev cfg))
    \<and> (\<forall>cfg take_partition nvs_new label ns kv. open_custom cfg take_partition nvs_new label ns = Inr kv \<longrightarrow>
         en_protection kv = protection_of cfg \<and> (Encrypted \<le> en_protection kv \<or> bc_allow_insecure_dev cfg))"
  using idf_namespace.contract [OF assms] open_in_protected open_custom_protected by blast

theorem idf_namespace_is_store_witness:
  "kv_store (nvs_kv sample_nvs sample_check_key) (nvs_contents map_of) (\<lambda>_. True) (\<lambda>_. True)"
  using idf_namespace_is_store [OF sample_idf.idf_namespace_axioms] by blast

text \<open>C40. The sealing key's blocking loop ends: over a peripheral that takes at least a byte each time,
  \<open>seal_key\<close> returns, with nothing when the block is not configured and otherwise with the
  peripheral's MAC of the whole label under that block.\<close>

theorem seal_key_returns:
  assumes "hmac_peripheral H absorbed efuse mac"
  shows "seal_key H h block =
    Some (if hm_configure H (hm_init H h) block = None then None else mac block KEY_LABEL)"
  using assms by (rule hmac_peripheral.seal_key_mac)

theorem seal_key_returns_witness:
  "seal_key sample_hmac (0, []) 1 = Some (Some (replicate 31 1 @ [sum_list KEY_LABEL]))
     \<and> seal_key sample_hmac (0, []) 7 = Some None"
  using seal_key_returns [OF sample_peripheral.hmac_peripheral_axioms, of "(0, [])" 1]
    seal_key_returns [OF sample_peripheral.hmac_peripheral_axioms, of "(0, [])" 7]
  by (simp add: sample_hmac_def)

end
