(* ===== verification/Tests_Adoption.thy ===== *)
theory Tests_Adoption
  imports Adoption_Accept Key_Correct Json
begin

text \<open>
  The unit tests of \<open>adoption.rs\<close>, as checks that compute: \<open>unwrap\<close> and \<open>assert\<close> are branches to
  \<open>False\<close>. Each holds for every choice of the primitives with their contracts, given that the
  tests' seeds make keys (the helper panics where they do not) and, where a test has a thief, that
  the thief's key is another.
\<close>

section \<open>The helpers\<close>

definition tests_owner :: "('sk, 'vk, 'sig) prims \<Rightarrow> ('sk, 'vk) device_key result" where
  "tests_owner P = from_seed_for_tests P (ascii ''owner'') (ascii ''phone'')"

definition tests_device :: "('sk, 'vk, 'sig) prims \<Rightarrow> ('sk, 'vk) device_key result" where
  "tests_device P = from_seed_for_tests P (ascii ''device'') (ascii ''cam-1'')"

definition tests_fields ::
  "('sk, 'vk, 'sig) prims \<Rightarrow> ('sk, 'vk) device_key \<Rightarrow> rstr \<Rightarrow> rstr \<Rightarrow> rstr list \<Rightarrow> u32 \<Rightarrow> u64
     \<Rightarrow> adoption_fields" where
  "tests_fields P owner owner_did device_did caps rv exp =
     \<lparr>af_device_did = device_did, af_owner_did = owner_did,
      af_owner_genesis_pubkey = did_pubkey (key_did P owner), af_hub_endpoint_id = replicate 32 7,
      af_hub_relay = ascii ''https://relay.mata.network'', af_hub_host = ascii ''10.0.0.10:4243'',
      af_caps = CapSlice caps, af_roster_version = rv, af_issued_at = 1700000000, af_expires_at = exp\<rparr>"

definition tests_signed ::
  "('sk, 'vk, 'sig) prims \<Rightarrow> bs58 \<Rightarrow> ('sk, 'vk) device_key \<Rightarrow> rstr \<Rightarrow> rstr list \<Rightarrow> u32 \<Rightarrow> u64 \<Rightarrow> bytes result" where
  "tests_signed P B owner device_did caps rv exp =
     bind_res (to_did_string B (key_did P owner)) (\<lambda>owner_did.
       let fields = tests_fields P owner owner_did device_did caps rv exp in
       case sign_into P (key_signer P owner) fields (replicate (canonical_len fields + SIG_LEN) 0) of
         (Inr n, buf) \<Rightarrow> Inr (take n buf)
       | (Inl _, _) \<Rightarrow> Inl Panic)"

text \<open>\<open>Adoption::decode(&signed(..)).unwrap()\<close>\<close>

definition tests_adoption ::
  "('sk, 'vk, 'sig) prims \<Rightarrow> bs58 \<Rightarrow> ('sk, 'vk) device_key \<Rightarrow> rstr \<Rightarrow> rstr list \<Rightarrow> u32 \<Rightarrow> u64 \<Rightarrow> adoption result" where
  "tests_adoption P B owner device_did caps rv exp =
     bind_res (tests_signed P B owner device_did caps rv exp) decode"

section \<open>The tests\<close>

definition round_trip_and_accept :: "('sk, 'vk, 'sig) prims \<Rightarrow> bs58 \<Rightarrow> bool" where
  "round_trip_and_accept P B =
     (case (tests_owner P, tests_device P) of
        (Inr own, Inr dev) \<Rightarrow>
          (case to_did_string B (key_did P dev) of
             Inl _ \<Rightarrow> False
           | Inr ddid \<Rightarrow>
             (case tests_adoption P B own ddid [ascii ''camera:snapshot'', ascii ''telemetry:read@home''] 3 0 of
                Inl _ \<Rightarrow> False
              | Inr a \<Rightarrow>
                  af_device_did (ad_fields a) = ddid \<and>
                  af_hub_host (ad_fields a) = ascii ''10.0.0.10:4243'' \<and>
                  cap_len (af_caps (ad_fields a)) = 2 \<and>
                  caps_of (af_caps (ad_fields a)) =
                    [ascii ''camera:snapshot'', ascii ''telemetry:read@home''] \<and>
                  grants a (ascii ''camera:snapshot@front'') \<and> \<not> grants a (ascii ''gpio:set'') \<and>
                  (case accept P a ddid None (Some 1700000100) of
                     Inl _ \<Rightarrow> False
                   | Inr pin \<Rightarrow> roster_version pin = 3 \<and> genesis_pubkey pin = did_pubkey (key_did P own))))
      | _ \<Rightarrow> False)"

definition tofu_pin_rejects_a_second_owner_and_rollback :: "('sk, 'vk, 'sig) prims \<Rightarrow> bs58 \<Rightarrow> bool" where
  "tofu_pin_rejects_a_second_owner_and_rollback P B =
     (case (tests_owner P, tests_device P, from_seed_for_tests P (ascii ''thief'') (ascii ''laptop'')) of
        (Inr own, Inr dev, Inr thief) \<Rightarrow>
          (case to_did_string B (key_did P dev) of
             Inl _ \<Rightarrow> False
           | Inr ddid \<Rightarrow>
             (case bind_res (tests_adoption P B own ddid [] 5 0) (\<lambda>a. accept P a ddid None None) of
                Inl _ \<Rightarrow> False
              | Inr pin \<Rightarrow>
                  (case tests_adoption P B thief ddid [] 9 0 of
                     Inl _ \<Rightarrow> False
                   | Inr a \<Rightarrow> verify_signature P a = Inr () \<and> accept P a ddid (Some pin) None = Inl Denied) \<and>
                  (case tests_adoption P B own ddid [] 4 0 of
                     Inl _ \<Rightarrow> False
                   | Inr a \<Rightarrow> accept P a ddid (Some pin) None = Inl Denied) \<and>
                  (case bind_res (tests_adoption P B own ddid [] 6 0) (\<lambda>a. accept P a ddid (Some pin) None) of
                     Inl _ \<Rightarrow> False
                   | Inr pin \<Rightarrow> roster_version pin = 6)))
      | _ \<Rightarrow> False)"

definition pin_round_trip :: "('sk, 'vk, 'sig) prims \<Rightarrow> bool" where
  "pin_round_trip P =
     (case tests_owner P of
        Inl _ \<Rightarrow> False
      | Inr own \<Rightarrow>
          let pin = \<lparr>genesis_pubkey = did_pubkey (key_did P own), roster_version = 42\<rparr> in
          (case pin_encode pin (replicate PIN_LEN 0) of
             (Inl _, _) \<Rightarrow> False
           | (Inr _, buf) \<Rightarrow> pin_decode buf = Inr pin \<and> pin_decode (take 10 buf) = Inl Corrupt))"

definition validation_rejects_bad_caps_and_lengths :: "('sk, 'vk, 'sig) prims \<Rightarrow> bs58 \<Rightarrow> bool" where
  "validation_rejects_bad_caps_and_lengths P B =
     (case tests_owner P of
        Inl _ \<Rightarrow> False
      | Inr own \<Rightarrow>
        (case to_did_string B (key_did P own) of
           Inl _ \<Rightarrow> False
         | Inr owner_did \<Rightarrow>
             let fields =
               \<lparr>af_device_did = ascii ''did:mata:x'', af_owner_did = owner_did,
                af_owner_genesis_pubkey = did_pubkey (key_did P own), af_hub_endpoint_id = replicate 32 0,
                af_hub_relay = [], af_hub_host = [], af_caps = CapSlice [ascii ''not-a-cap''],
                af_roster_version = 1, af_issued_at = 10, af_expires_at = 0\<rparr> in
             validate fields = Inl InvalidFormat \<and>
             (case encode (fields\<lparr>af_caps := CapSlice []\<rparr>) (replicate 8 0) of
                (Inl (BufferTooSmall _), _) \<Rightarrow> True
              | _ \<Rightarrow> False)))"

section \<open>They pass\<close>

lemma did_string_ok:
  assumes "prims_ok P" "bs58_ok B"
  obtains t where "to_did_string B (key_did P key) = Inr t" "t \<noteq> []" "length t \<le> 55" "utf8_valid t"
proof -
  have "valid_did P (key_did P key)" using valid_from_verifying_key [OF assms(1)] by (simp add: key_did_def)
  from assms(2) this show thesis
  proof (rule to_did_string_valid)
    fix t
    assume t: "to_did_string B (key_did P key) = Inr (DID_PREFIX @ t)" "length t \<le> MAX_BASE58_LEN"
      "\<forall>x \<in> set t. x < 0x80"
    have "utf8_valid (DID_PREFIX @ t)" using t(3) ascii_prefixes(1) by (intro utf8_valid_ascii_bytes) auto
    moreover have "DID_PREFIX \<noteq> []" by (simp add: DID_PREFIX_def ascii_def)
    ultimately show thesis using t by (intro that [of "DID_PREFIX @ t"]) simp_all
  qed
qed

lemma tests_adoption_signed:
  assumes P: "prims_ok P" "bs58_ok B" "wf_key P owner"
    and d: "ddid \<noteq> []" "length ddid \<le> 55" "utf8_valid ddid"
    and caps: "\<forall>c \<in> set caps. length c \<le> MAX_FIELD_LEN \<and> parse c \<noteq> None \<and> utf8_valid c" "length caps \<le> MAX_CAPS"
    and exp: "exp = 0 \<or> 1700000000 < exp"
  obtains a where "tests_adoption P B owner ddid caps rv exp = Inr a" "verify_signature P a = Inr ()"
    "af_device_did (ad_fields a) = ddid" "af_owner_genesis_pubkey (ad_fields a) = did_pubkey (key_did P owner)"
    "af_hub_host (ad_fields a) = ascii ''10.0.0.10:4243''" "af_roster_version (ad_fields a) = rv"
    "af_expires_at (ad_fields a) = exp" "caps_of (af_caps (ad_fields a)) = caps"
    "cap_len (af_caps (ad_fields a)) = length caps"
proof -
  from P(1,2) show thesis
  proof (rule did_string_ok [where key = owner])
    fix t
    assume t: "to_did_string B (key_did P owner) = Inr t" "t \<noteq> []" "length t \<le> 55" "utf8_valid t"
    let ?f = "tests_fields P owner t ddid caps rv exp"
    let ?out = "replicate (canonical_len ?f + SIG_LEN) (0 :: u8)"
    have S: "device_signer P (key_signer P owner) (af_owner_genesis_pubkey ?f)"
      using key_signer_provides [OF P(1,3)] by (simp add: tests_fields_def)
    have c: "caps_of (af_caps ?f) = caps"
      by (simp add: tests_fields_def caps_of_def cap_iter_of_def iter_collect_slice)
    have "length (did_pubkey (key_did P owner)) = 33"
      using valid_from_verifying_key [OF P(1), of "dk_public owner"] by (simp add: key_did_def valid_did_def)
    then have wf: "fields_wf ?f"
      unfolding fields_wf_def c using d t caps
      by (simp add: tests_fields_def arrays_ok_def cap_len_def utf8_valid_ascii_text)
    have v: "validate ?f = Inr ()"
      unfolding validate_Inr c using d t caps exp by (simp add: tests_fields_def cap_len_def ascii_def)
    show thesis
      using S wf v
    proof (rule signed_accepted)
      show "canonical_len ?f + SIG_LEN \<le> length ?out" by simp
      fix out' a
      assume a: "sign_into P (key_signer P owner) ?f ?out = (Inr (canonical_len ?f + SIG_LEN), out')"
        "decode (take (canonical_len ?f + SIG_LEN) out') = Inr a" "ad_fields a = wire_view ?f"
        "verify_signature P a = Inr ()"
      have "tests_adoption P B owner ddid caps rv exp = Inr a"
        using a(2) by (simp add: tests_adoption_def tests_signed_def t(1) Let_def a(1))
      with a(3,4) caps_of_wire_view [OF wf v] c show thesis
        by (intro that [of a]) (simp_all add: wire_view_def tests_fields_def cap_len_def)
    qed
  qed
qed

lemma sample_requests:
  "any_satisfies [ascii ''camera:snapshot'', ascii ''telemetry:read@home''] (ascii ''camera:snapshot@front'')"
  "\<not> any_satisfies [ascii ''camera:snapshot'', ascii ''telemetry:read@home''] (ascii ''gpio:set'')"
  "parse (ascii ''camera:snapshot'') \<noteq> None" "parse (ascii ''telemetry:read@home'') \<noteq> None"
  "parse (ascii ''not-a-cap'') = None"
  by code_simp+

lemma round_trip_and_accept_passes:
  assumes "prims_ok P" "bs58_ok B" "tests_owner P = Inr own" "tests_device P = Inr dev"
  shows "round_trip_and_accept P B"
  using assms(1,2)
proof (rule did_string_ok [where key = dev])
  fix t
  assume t: "to_did_string B (key_did P dev) = Inr t" "t \<noteq> []" "length t \<le> 55" "utf8_valid t"
  have own: "wf_key P own" using assms(3) by (simp add: tests_owner_def seed_key(1))
  let ?caps = "[ascii ''camera:snapshot'', ascii ''telemetry:read@home'']"
  have caps: "\<forall>c \<in> set ?caps. length c \<le> MAX_FIELD_LEN \<and> parse c \<noteq> None \<and> utf8_valid c" "length ?caps \<le> MAX_CAPS"
    using sample_requests(3,4) by (simp_all add: utf8_valid_ascii_text ascii_def)
  show ?thesis
    using assms(1,2) own t(2-4) caps
  proof (rule tests_adoption_signed [where rv = 3 and exp = 0])
    fix a
    assume a: "tests_adoption P B own t ?caps 3 0 = Inr a" "verify_signature P a = Inr ()"
      "af_device_did (ad_fields a) = t" "af_owner_genesis_pubkey (ad_fields a) = did_pubkey (key_did P own)"
      "af_hub_host (ad_fields a) = ascii ''10.0.0.10:4243''" "af_roster_version (ad_fields a) = 3"
      "af_expires_at (ad_fields a) = 0" "caps_of (af_caps (ad_fields a)) = ?caps"
      "cap_len (af_caps (ad_fields a)) = length ?caps"
    have "accept P a t None (Some 1700000100) =
        Inr \<lparr>genesis_pubkey = did_pubkey (key_did P own), roster_version = 3\<rparr>"
      using a by (simp add: accept_Inr pin_allows_def unexpired_def)
    with a sample_requests(1,2) show ?thesis
      by (simp add: round_trip_and_accept_def assms(3,4) t(1) grants_def)
  qed simp
qed

lemma tofu_passes:
  assumes "prims_ok P" "bs58_ok B" "tests_owner P = Inr own" "tests_device P = Inr dev"
    and "from_seed_for_tests P (ascii ''thief'') (ascii ''laptop'') = Inr thief"
    and "did_pubkey (key_did P thief) \<noteq> did_pubkey (key_did P own)"
  shows "tofu_pin_rejects_a_second_owner_and_rollback P B"
  using assms(1,2)
proof (rule did_string_ok [where key = dev])
  fix t
  assume t: "to_did_string B (key_did P dev) = Inr t" "t \<noteq> []" "length t \<le> 55" "utf8_valid t"
  have keys: "wf_key P own" "wf_key P thief"
    using assms(3,5) by (simp_all add: tests_owner_def seed_key(1))
  have made: "\<exists>a. tests_adoption P B key t [] rv 0 = Inr a \<and> verify_signature P a = Inr () \<and>
      af_device_did (ad_fields a) = t \<and> af_owner_genesis_pubkey (ad_fields a) = did_pubkey (key_did P key) \<and>
      af_roster_version (ad_fields a) = rv \<and> af_expires_at (ad_fields a) = 0" if "wf_key P key" for key rv
    using assms(1,2) that t(2-4) by (rule tests_adoption_signed [where caps = "[]" and exp = 0 and rv = rv]) auto
  let ?pin = "\<lparr>genesis_pubkey = did_pubkey (key_did P own), roster_version = 5\<rparr>"
  obtain a5 where a5: "tests_adoption P B own t [] 5 0 = Inr a5" "accept P a5 t None None = Inr ?pin"
    using made [OF keys(1), of 5] by (auto simp: accept_Inr pin_allows_def unexpired_def)
  obtain a9 where a9: "tests_adoption P B thief t [] 9 0 = Inr a9" "verify_signature P a9 = Inr ()"
    "accept P a9 t (Some ?pin) None = Inl Denied"
    using made [OF keys(2), of 9] assms(6) by (auto simp: accept_def)
  obtain a4 where a4: "tests_adoption P B own t [] 4 0 = Inr a4" "accept P a4 t (Some ?pin) None = Inl Denied"
    using made [OF keys(1), of 4] by (auto simp: accept_def)
  obtain a6 where a6: "tests_adoption P B own t [] 6 0 = Inr a6"
    "accept P a6 t (Some ?pin) None = Inr (?pin\<lparr>roster_version := 6\<rparr>)"
    using made [OF keys(1), of 6] by (auto simp: accept_Inr pin_allows_def unexpired_def)
  show ?thesis
    by (simp add: tofu_pin_rejects_a_second_owner_and_rollback_def assms(3-5) t(1) a5 a9 a4 a6)
qed

lemma pin_round_trip_passes:
  assumes "prims_ok P" "tests_owner P = Inr own"
  shows "pin_round_trip P"
proof -
  have "length (did_pubkey (key_did P own)) = 33"
    using valid_from_verifying_key [OF assms(1), of "dk_public own"] by (simp add: key_did_def valid_did_def)
  with pin_decode_encode [of "\<lparr>genesis_pubkey = did_pubkey (key_did P own), roster_version = 42\<rparr>"] show ?thesis
    by (simp add: pin_round_trip_def assms(2) Let_def pin_encode_fits) (simp add: pin_decode_def)
qed

lemma validation_passes:
  assumes "prims_ok P" "bs58_ok B" "tests_owner P = Inr own"
  shows "validation_rejects_bad_caps_and_lengths P B"
  using assms(1,2)
proof (rule did_string_ok [where key = own])
  fix t
  assume t: "to_did_string B (key_did P own) = Inr t" "t \<noteq> []" "length t \<le> 55" "utf8_valid t"
  have len: "length (did_pubkey (key_did P own)) = 33"
    using valid_from_verifying_key [OF assms(1), of "dk_public own"] by (simp add: key_did_def valid_did_def)
  let ?f = "\<lambda>caps. \<lparr>af_device_did = ascii ''did:mata:x'', af_owner_did = t,
      af_owner_genesis_pubkey = did_pubkey (key_did P own), af_hub_endpoint_id = replicate 32 (0 :: u8),
      af_hub_relay = [], af_hub_host = [], af_caps = CapSlice caps,
      af_roster_version = 1, af_issued_at = 10, af_expires_at = 0\<rparr>"
  have c: "caps_of (af_caps (?f caps)) = caps" for caps
    by (simp add: caps_of_def cap_iter_of_def)
  have bad: "validate (?f [ascii ''not-a-cap'']) = Inl InvalidFormat"
  proof (cases "validate (?f [ascii ''not-a-cap''])")
    case (Inl e)
    with validate_error [OF Inl] show ?thesis by simp
  next
    case (Inr u)
    then show ?thesis using sample_requests(5) by (simp add: validate_Inr c)
  qed
  have "validate (?f []) = Inr ()" unfolding validate_Inr c using t by (simp add: cap_len_def ascii_def)
  moreover have "arrays_ok (?f [])" using len by (simp add: arrays_ok_def)
  moreover have "8 < canonical_len (?f [])" by (simp add: canonical_len_def)
  ultimately have "encode (?f []) (replicate 8 0) = (Inl (BufferTooSmall (canonical_len (?f []))), replicate 8 0)"
    by (simp add: encode_cases)
  with bad show ?thesis
    by (simp add: validation_rejects_bad_caps_and_lengths_def assms(3) t(1) Let_def)
qed

end
