(* ===== verification/Tests_Codecs.thy ===== *)
theory Tests_Codecs
  imports Cap Nonce Key_Correct Kms Status Token
begin

text \<open>
  The unit tests of \<open>cap.rs\<close>, \<open>nonce.rs\<close>, \<open>did.rs\<close>, \<open>kms.rs\<close>, \<open>status.rs\<close>, \<open>jws.rs\<close>, \<open>roster.rs\<close> and
  \<open>token.rs\<close> as checks that compute, and that they pass: the closed ones by evaluation, the others for
  every choice of the primitives with their contracts, given that the tests' seeds make keys.
\<close>

section \<open>Capabilities\<close>

definition scope_rules_match_mata_cap :: bool where
  "scope_rules_match_mata_cap \<longleftrightarrow>
     grant_satisfies (ascii ''ledger:read'') (ascii ''ledger:read'') \<and>
     grant_satisfies (ascii ''ledger:read'') (ascii ''ledger:read@eu'') \<and>
     grant_satisfies (ascii ''ledger:read@us'') (ascii ''ledger:read@us'') \<and>
     \<not> grant_satisfies (ascii ''ledger:read@us'') (ascii ''ledger:read@eu'') \<and>
     \<not> grant_satisfies (ascii ''ledger:read@us'') (ascii ''ledger:read'') \<and>
     \<not> grant_satisfies (ascii ''ledger:read'') (ascii ''ledger:admin'')"

definition malformed_never_satisfies :: bool where
  "malformed_never_satisfies \<longleftrightarrow>
     \<not> grant_satisfies (ascii ''ledger'') (ascii ''ledger:read'') \<and>
     \<not> grant_satisfies (ascii ''ledger:read'') (ascii ''ledger'') \<and>
     \<not> grant_satisfies (ascii '':read'') (ascii '':read'') \<and>
     \<not> grant_satisfies (ascii ''a:b@'') (ascii ''a:b@'') \<and>
     parse (ascii ''a:b:c'') = None \<and> parse (ascii ''a:b@c@d'') = None"

definition any_over_a_grant_list :: bool where
  "any_over_a_grant_list \<longleftrightarrow>
     (let grants = [ascii ''camera:snapshot@front'', ascii ''telemetry:read''] in
      any_satisfies grants (ascii ''telemetry:read@anything'') \<and>
      any_satisfies grants (ascii ''camera:snapshot@front'') \<and>
      \<not> any_satisfies grants (ascii ''camera:snapshot@back'') \<and> \<not> any_satisfies grants (ascii ''gpio:set''))"

lemma cap_tests_pass: "scope_rules_match_mata_cap" "malformed_never_satisfies" "any_over_a_grant_list"
  by code_simp+

section \<open>The nonce window\<close>

text \<open>A run of \<open>assert!\<close>s on \<open>check_and_insert\<close>.\<close>

fun offers_answer :: "nat \<Rightarrow> nonce_window \<Rightarrow> (bytes \<times> bool) list \<Rightarrow> nonce_window option" where
  "offers_answer N w [] = Some w"
| "offers_answer N w ((x, b) # r) =
     (case check_and_insert N w x of
        Inl _ \<Rightarrow> None
      | Inr (b', w') \<Rightarrow> if b' = b then offers_answer N w' r else None)"

definition replay_is_rejected_until_evicted :: bool where
  "replay_is_rejected_until_evicted \<longleftrightarrow>
     (let n = (\<lambda>b. replicate 32 b) in
      case offers_answer 3 (new_window 3) [(n 1, True), (n 1, False), (n 2, True), (n 3, True)] of
        None \<Rightarrow> False
      | Some w \<Rightarrow> nw_len w = 3 \<and>
          (case offers_answer 3 w [(n 4, True), (n 1, True), (n 4, False)] of
             None \<Rightarrow> False
           | Some w \<Rightarrow> nw_is_empty (clear w) \<and> offers_answer 3 (clear w) [(n 4, True)] \<noteq> None))"

lemma nonce_test_passes: "replay_is_rejected_until_evicted"
  by code_simp

section \<open>Identifiers\<close>

definition tests_did :: "('sk, 'vk, 'sig) prims \<Rightarrow> did result" where
  "tests_did P = bind_res (from_seed_for_tests P (ascii ''did-tests'') (ascii ''dev'')) (\<lambda>k. Inr (key_did P k))"

definition write_and_parse_round_trip :: "('sk, 'vk, 'sig) prims \<Rightarrow> bs58 \<Rightarrow> bool" where
  "write_and_parse_round_trip P B =
     (case tests_did P of
        Inl _ \<Rightarrow> False
      | Inr d \<Rightarrow>
          (case did_write B d MAX_DID_LEN of
             Inl _ \<Rightarrow> False
           | Inr s \<Rightarrow> starts_with s DID_PREFIX \<and> did_parse P B s = Inr d) \<and>
          (case write_multibase B d MAX_MULTIBASE_LEN of
             Inl _ \<Rightarrow> False
           | Inr m \<Rightarrow> starts_with m (ascii ''z'') \<and> parse_multibase P B m = Inr d))"

definition small_buffer_is_reported :: "('sk, 'vk, 'sig) prims \<Rightarrow> bs58 \<Rightarrow> bool" where
  "small_buffer_is_reported P B =
     (case tests_did P of
        Inl _ \<Rightarrow> False
      | Inr d \<Rightarrow> (case did_write B d 12 of Inl (BufferTooSmall _) \<Rightarrow> True | _ \<Rightarrow> False))"

definition display_matches_write :: "('sk, 'vk, 'sig) prims \<Rightarrow> bs58 \<Rightarrow> bool" where
  "display_matches_write P B =
     (case tests_did P of
        Inl _ \<Rightarrow> False
      | Inr d \<Rightarrow> (case did_write B d MAX_DID_LEN of Inl _ \<Rightarrow> False | Inr s \<Rightarrow> did_display B d = s))"

text \<open>The test's buffer of 12 is too small where the text is longer than three characters, as base58 of
  33 bytes is.\<close>

lemma tests_did_valid:
  assumes "prims_ok P" "tests_did P = Inr d"
  shows "valid_did P d"
  using assms valid_from_verifying_key [OF assms(1)]
  by (auto simp: tests_did_def result_iffs key_did_def)

lemma did_written:
  assumes "bs58_ok B" "valid_did P d"
  obtains t where "did_write B d MAX_DID_LEN = Inr (DID_PREFIX @ t)" "did_parse P B (DID_PREFIX @ t) = Inr d"
    "write_multibase B d MAX_MULTIBASE_LEN = Inr (MULTIBASE_Z @ t)"
    "parse_multibase P B (MULTIBASE_Z @ t) = Inr d"
proof -
  from assms show thesis
  proof (rule to_did_string_valid)
    fix t
    assume t: "to_did_string B d = Inr (DID_PREFIX @ t)" "from_base58 P B t = Inr d"
      "to_multibase_string B d = Inr (MULTIBASE_Z @ t)"
    from t(1,3) have "did_write B d MAX_DID_LEN = Inr (DID_PREFIX @ t)"
      "write_multibase B d MAX_MULTIBASE_LEN = Inr (MULTIBASE_Z @ t)"
      by (auto simp: to_did_string_def to_multibase_string_def split: sum.splits)
    with parse_strings [OF t(2)] that show thesis by blast
  qed
qed

lemma did_tests_pass:
  assumes "prims_ok P" "bs58_ok B" "tests_did P = Inr d"
  shows "write_and_parse_round_trip P B" "display_matches_write P B"
    "(\<And>t. b58_encode B (did_pubkey d) 3 \<noteq> Some t) \<Longrightarrow> small_buffer_is_reported P B"
proof -
  from assms(2) tests_did_valid [OF assms(1,3)]
  show "write_and_parse_round_trip P B"
    by (rule did_written)
      (simp add: write_and_parse_round_trip_def assms(3) starts_with_def MULTIBASE_Z_def)
  from assms(2) tests_did_valid [OF assms(1,3)] show "display_matches_write P B"
    by (rule did_written) (simp add: display_matches_write_def assms(3) did_display_def)
  show "small_buffer_is_reported P B" if "\<And>t. b58_encode B (did_pubkey d) 3 \<noteq> Some t"
  proof -
    have "b58_encode B (did_pubkey d) 3 = None" using that by (cases "b58_encode B (did_pubkey d) 3") auto
    then show ?thesis
      by (simp add: small_buffer_is_reported_def assms(3) did_write_def write_with_prefix_def Let_def ok_or_def)
  qed
qed

text \<open>The last key has the right tag and, \<open>with overwhelming odds\<close>, no point with that \<open>x\<close>.\<close>

definition rejects_bad_inputs :: "('sk, 'vk, 'sig) prims \<Rightarrow> bs58 \<Rightarrow> bool" where
  "rejects_bad_inputs P B \<longleftrightarrow>
     did_parse P B (ascii ''did:key:zabc'') = Inl InvalidFormat \<and>
     did_parse P B (ascii ''did:mata:550e8400-e29b-41d4-a716-446655440000'') = Inl InvalidFormat \<and>
     did_parse P B (ascii ''did:mata:abc'') = Inl InvalidFormat \<and>
     from_pubkey P (replicate 33 0x04) = Inl InvalidFormat \<and> from_pubkey P (replicate 32 0x02) = Inl InvalidFormat \<and>
     from_pubkey P (0x02 # replicate 32 0xFF) \<in> {Inl Crypto, Inl InvalidFormat}"

lemma rejects_test_passes:
  assumes "\<And>t b. t \<in> {ascii ''550e8400-e29b-41d4-a716-446655440000'', ascii ''abc''} \<Longrightarrow>
      b58_decode B t (PUBKEY_LEN + 1) = Some b \<Longrightarrow> length b \<noteq> PUBKEY_LEN"
    and "sec1_decode P (0x02 # replicate 32 0xFF) = None"
  shows "rejects_bad_inputs P B"
proof -
  have bad: "from_base58 P B t = Inl InvalidFormat"
    if "t \<in> {ascii ''550e8400-e29b-41d4-a716-446655440000'', ascii ''abc''}" for t
    using assms(1) [OF that] by (cases "b58_decode B t (PUBKEY_LEN + 1)") (auto simp: from_base58_def)
  have pre: "ascii ''did:mata:550e8400-e29b-41d4-a716-446655440000'' =
      DID_PREFIX @ ascii ''550e8400-e29b-41d4-a716-446655440000''" "ascii ''did:mata:abc'' = DID_PREFIX @ ascii ''abc''"
    by (simp_all add: DID_PREFIX_def ascii_def)
  have "strip_prefix DID_PREFIX (DID_PREFIX @ t) = Some t" for t by (simp add: strip_prefix_eq_Some)
  then have "did_parse P B (ascii ''did:mata:550e8400-e29b-41d4-a716-446655440000'') = Inl InvalidFormat"
    "did_parse P B (ascii ''did:mata:abc'') = Inl InvalidFormat"
    unfolding pre by (simp_all add: did_parse_def bad)
  moreover have "did_parse P B (ascii ''did:key:zabc'') = Inl InvalidFormat"
    by (simp add: did_parse_def strip_prefix_def starts_with_def DID_PREFIX_def ascii_def)
  ultimately show ?thesis
    by (simp add: rejects_bad_inputs_def from_pubkey_def assms(2))
qed

section \<open>The nonce envelope\<close>

definition tests_env :: "rstr \<Rightarrow> bytes \<Rightarrow> nonce_ref" where
  "tests_env did nonce =
     \<lparr>nr_version = 1, nr_nonce = nonce, nr_did = did, nr_audience = ascii ''home-computer'',
      nr_purpose = ascii ''janus.telemetry'', nr_issued_at = 1716583200, nr_expires_at = 1716583230,
      nr_issuer = ascii ''home-computer-gateway''\<rparr>"

definition validate_rules :: "('sk, 'vk, 'sig) prims \<Rightarrow> bs58 \<Rightarrow> bool" where
  "validate_rules P B =
     (case bind_res (from_seed_for_tests P (ascii ''kms'') (ascii ''dev'')) (\<lambda>k. to_did_string B (key_did P k)) of
        Inl _ \<Rightarrow> False
      | Inr did \<Rightarrow>
          let e = tests_env did (replicate 32 1) in
          nonce_validate P B e = Inr () \<and>
          nonce_validate P B (e\<lparr>nr_expires_at := nr_issued_at e + 301\<rparr>) = Inl InvalidFormat \<and>
          nonce_validate P B (e\<lparr>nr_nonce := replicate 31 1\<rparr>) = Inl InvalidFormat \<and>
          nonce_validate P B (e\<lparr>nr_version := 2\<rparr>) = Inl Unsupported)"

definition canonical_is_deterministic_and_field_sensitive :: "('sk, 'vk, 'sig) prims \<Rightarrow> bs58 \<Rightarrow> bool" where
  "canonical_is_deterministic_and_field_sensitive P B =
     (case bind_res (from_seed_for_tests P (ascii ''kms'') (ascii ''dev'')) (\<lambda>k. to_did_string B (key_did P k)) of
        Inl _ \<Rightarrow> False
      | Inr did \<Rightarrow>
          let a = tests_env did (replicate 32 0xAB); base = canonical_message a;
              b = a\<lparr>nr_purpose := ascii ''janus.control''\<rparr>; c = a\<lparr>nr_expires_at := nr_expires_at a + 1\<rparr> in
          base = canonical_message a \<and> base \<noteq> canonical_message b \<and> base \<noteq> canonical_message c)"

lemma kms_canonical_test_passes:
  assumes "prims_ok P" "bs58_ok B" "from_seed_for_tests P (ascii ''kms'') (ascii ''dev'') = Inr k"
  shows "canonical_is_deterministic_and_field_sensitive P B"
proof -
  have v: "valid_did P (key_did P k)" using valid_from_verifying_key [OF assms(1)] by (simp add: key_did_def)
  from assms(2) v obtain t where t: "to_did_string B (key_did P k) = Inr (DID_PREFIX @ t)" "length t \<le> MAX_BASE58_LEN"
    by (rule to_did_string_valid)
  let ?a = "tests_env (DID_PREFIX @ t) (replicate 32 0xAB)"
  let ?b = "?a\<lparr>nr_purpose := ascii ''janus.control''\<rparr>" and ?c = "?a\<lparr>nr_expires_at := nr_expires_at ?a + 1\<rparr>"
  have wf: "nonce_wf ?a" "nonce_wf ?b" "nonce_wf ?c"
    using t(2) by (simp_all add: tests_env_def nonce_wf_def ENVELOPE_VERSION_def ascii_def)
  have "?a \<noteq> ?b" "?a \<noteq> ?c" by (simp_all add: tests_env_def ascii_def)
  with nonce_body_inj [OF wf(1,2)] nonce_body_inj [OF wf(1,3)] canonical_message_body wf
  have "canonical_message ?a \<noteq> canonical_message ?b" "canonical_message ?a \<noteq> canonical_message ?c" by auto
  then show ?thesis
    by (simp add: canonical_is_deterministic_and_field_sensitive_def assms(3) t(1) Let_def)
qed

lemma kms_test_passes:
  assumes "prims_ok P" "bs58_ok B" "from_seed_for_tests P (ascii ''kms'') (ascii ''dev'') = Inr k"
  shows "validate_rules P B"
proof -
  have v: "valid_did P (key_did P k)" using valid_from_verifying_key [OF assms(1)] by (simp add: key_did_def)
  from assms(2) v obtain t where t: "to_did_string B (key_did P k) = Inr (DID_PREFIX @ t)"
    "from_base58 P B t = Inr (key_did P k)" "length t \<le> MAX_BASE58_LEN" by (rule to_did_string_valid)
  have p: "did_parse P B (DID_PREFIX @ t) = Inr (key_did P k)" by (rule parse_strings(1) [OF t(2)])
  have l: "length (DID_PREFIX @ t) \<le> 65535" using t(3) by simp
  show ?thesis
    using p l
    by (simp add: validate_rules_def assms(3) t(1) Let_def)
      (simp add: tests_env_def nonce_validate_def ENVELOPE_VERSION_def MAX_TTL_SECS_def ascii_def)
qed

section \<open>The status\<close>

definition tests_nonce :: bytes where
  "tests_nonce = [0x00, 0x01, 0x02, 0x03, 0x04, 0x05, 0x06, 0x07, 0x08, 0x09, 0x0a, 0x0b, 0x0c, 0x0d, 0x0e,
     0x0f, 0x10, 0x11, 0x12, 0x13, 0x14, 0x15, 0x16, 0x17, 0x18, 0x19, 0x1a, 0x1b, 0x1c, 0x1d, 0x1e, 0x1f]"

text \<open>The message laid out by hand, each length cut to 16 bits as \<open>as u16\<close> does.\<close>

definition by_hand :: "rstr \<Rightarrow> rstr \<Rightarrow> rstr \<Rightarrow> bytes \<Rightarrow> bytes" where
  "by_hand device owner kind h =
     ascii ''janus-status-v1'' @ [0x0A] @ [1] @ tests_nonce @
     concat (map (\<lambda>s. u16_to_be (of_nat (length s)) @ s) [device, owner, kind]) @ h"

definition the_message_is_laid_out_as_the_contract_says :: "('sk, 'vk, 'sig) prims \<Rightarrow> bs58 \<Rightarrow> bool" where
  "the_message_is_laid_out_as_the_contract_says P B =
     (case bind_res (from_seed_for_tests P (ascii ''status-vector-device'') (ascii ''dev-1''))
             (\<lambda>k. did_write B (key_did P k) 64) of
        Inl _ \<Rightarrow> False
      | Inr device \<Rightarrow>
          let owner = ascii ''did:mata:owner-for-the-layout-test'';
              adoption = ascii ''an adoption's raw bytes'';
              p = adopted P tests_nonce device owner KIND_ADOPTION_V1 adoption;
              expected = by_hand device owner KIND_ADOPTION_V1 (sha256 P adoption) in
          (case status_write p (replicate 256 0) of
             (Inl _, _) \<Rightarrow> False
           | (Inr len, out) \<Rightarrow> len = status_len p \<and> take len out = expected) \<and>
          status_prehash P p = Inr (sha256 P expected))"

definition unadopted_is_empty_strings_and_a_zero_hash :: "('sk, 'vk, 'sig) prims \<Rightarrow> bool" where
  "unadopted_is_empty_strings_and_a_zero_hash P =
     (case status_write (unadopted tests_nonce (ascii ''did:mata:x'')) (replicate 128 0) of
        (Inl _, _) \<Rightarrow> False
      | (Inr len, out) \<Rightarrow>
          take len out = by_hand (ascii ''did:mata:x'') [] [] (replicate 32 0) \<and> NO_ADOPTION \<noteq> sha256 P [])"

definition a_short_buffer_says_what_it_needed :: bool where
  "a_short_buffer_says_what_it_needed =
     (let p = unadopted tests_nonce (ascii ''did:mata:x'') in
      fst (status_write p (replicate 8 0)) = Inl (BufferTooSmall (status_len p)))"

definition to_uppercase :: "rstr \<Rightarrow> rstr" where
  "to_uppercase = map (\<lambda>c. if 0x61 \<le> c \<and> c \<le> 0x7A then c - 0x20 else c)"

definition the_nonce_is_64_lowercase_hex :: bool where
  "the_nonce_is_64_lowercase_hex =
     (let hex = concat (map hex_byte tests_nonce); refused = (\<lambda>s. case parse_nonce_hex s of Inl _ \<Rightarrow> True | Inr _ \<Rightarrow> False) in
      parse_nonce_hex hex = Inr tests_nonce \<and> refused (to_uppercase hex) \<and> refused (take 62 hex) \<and>
      refused (hex @ ascii ''00'') \<and> refused (take 62 hex @ ascii ''zz''))"

lemma status_evaluated_tests_pass: "a_short_buffer_says_what_it_needed" "the_nonce_is_64_lowercase_hex"
  by code_simp+

lemma by_hand_message:
  assumes "length device < 65536" "length owner < 65536" "length kind < 65536"
  shows "status_message \<lparr>sp_nonce = tests_nonce, sp_device_did = device, sp_owner_did = owner,
      sp_adoption_kind = kind, sp_adoption_hash = h\<rparr> = by_hand device owner kind h"
  using assms
  by (simp add: status_message_def status_body_def by_hand_def str16_def len_as_u16_def STATUS_DOMAIN_def
      STATUS_VERSION_def)

lemma status_layout_test_passes:
  assumes "prims_ok P" "bs58_ok B"
    and "from_seed_for_tests P (ascii ''status-vector-device'') (ascii ''dev-1'') = Inr k"
  shows "the_message_is_laid_out_as_the_contract_says P B"
proof -
  have v: "valid_did P (key_did P k)" using valid_from_verifying_key [OF assms(1)] by (simp add: key_did_def)
  then have "length (did_pubkey (key_did P k)) = PUBKEY_LEN" by (simp add: valid_did_def)
  from assms(2) this obtain t where t: "length t \<le> MAX_BASE58_LEN" "\<forall>x \<in> set t. x < 0x80"
    "\<And>n. b58_encode B (did_pubkey (key_did P k)) n = (if length t \<le> n then Some t else None)"
    by (rule bs58_text) blast
  have "utf8_valid (DID_PREFIX @ t)" using t(2) ascii_prefixes(1) by (intro utf8_valid_ascii_bytes) auto
  then have w: "did_write B (key_did P k) 64 = Inr (DID_PREFIX @ t)"
    using t(1,3) by (simp add: did_write_def write_with_prefix_def Let_def from_utf8_def)
  let ?device = "DID_PREFIX @ t"
  let ?owner = "ascii ''did:mata:owner-for-the-layout-test''"
  let ?h = "sha256 P (ascii ''an adoption's raw bytes'')"
  let ?p = "adopted P tests_nonce ?device ?owner KIND_ADOPTION_V1 (ascii ''an adoption's raw bytes'')"
  have lens: "length ?device \<le> 55" "length ?owner = 34" "length KIND_ADOPTION_V1 = 17"
    "length STATUS_DOMAIN = 16"
    using t(1) by (simp_all add: KIND_ADOPTION_V1_def STATUS_DOMAIN_def)
  have m: "status_message ?p = by_hand ?device ?owner KIND_ADOPTION_V1 ?h"
    unfolding adopted_def using lens by (intro by_hand_message) simp_all
  have fit: "status_lens_fit ?p" unfolding status_lens_fit_def adopted_def using lens by simp
  have len: "status_len ?p \<le> 256" unfolding status_len_def adopted_def using lens by simp
  have "status_write ?p (replicate 256 0) =
      (Inr (status_len ?p), status_message ?p @ drop (status_len ?p) (replicate 256 0))"
    using fit len by (intro status_write_message) (simp_all add: adopted_def tests_nonce_def prims_okD(1) [OF assms(1)])
  moreover have "length (status_message ?p) = status_len ?p"
    using fit by (intro status_len_message) (simp_all add: adopted_def tests_nonce_def prims_okD(1) [OF assms(1)])
  moreover have "status_prehash P ?p = Inr (sha256 P (status_message ?p))"
    using fit by (simp add: status_prehash_eq)
  ultimately show ?thesis
    by (simp add: the_message_is_laid_out_as_the_contract_says_def assms(3) w Let_def m [symmetric])
qed

lemma status_unadopted_test_passes:
  assumes "sha256 P [] \<noteq> replicate 32 0"
  shows "unadopted_is_empty_strings_and_a_zero_hash P"
proof -
  let ?p = "unadopted tests_nonce (ascii ''did:mata:x'')"
  have fit: "status_lens_fit ?p" and len: "status_len ?p \<le> 128"
    by (simp_all add: status_lens_fit_def status_len_def unadopted_def STATUS_DOMAIN_def)
  have "status_write ?p (replicate 128 0) =
      (Inr (status_len ?p), status_message ?p @ drop (status_len ?p) (replicate 128 0))"
    using fit len by (intro status_write_message) (simp_all add: unadopted_def tests_nonce_def NO_ADOPTION_def)
  moreover have "length (status_message ?p) = status_len ?p"
    by (intro status_len_message) (simp_all add: unadopted_def tests_nonce_def NO_ADOPTION_def)
  moreover have "status_message ?p = by_hand (ascii ''did:mata:x'') [] [] (replicate 32 0)"
    unfolding unadopted_def NO_ADOPTION_def by (intro by_hand_message) simp_all
  ultimately show ?thesis
    using assms by (simp add: unadopted_is_empty_strings_and_a_zero_hash_def NO_ADOPTION_def)
qed

section \<open>The signed forms\<close>

definition three_segments_with_expected_header_and_signature_size ::
  "('sk, 'vk, 'sig) prims \<Rightarrow> b64 \<Rightarrow> bool" where
  "three_segments_with_expected_header_and_signature_size P E =
     (case from_seed_for_tests P (ascii ''jws'') (ascii ''dev'') of
        Inl _ \<Rightarrow> False
      | Inr k \<Rightarrow>
          (case split_on 0x2E (build_jws_compact P E
                  (ascii [CHR 0x7B, CHR 0x22, CHR ''x'', CHR 0x22, CHR '':'', CHR ''1'', CHR 0x7D]) (key_signer P k)) of
             [a, b, c] \<Rightarrow> b64_decode E a = Some JWS_HEADER_JSON \<and> map_option length (b64_decode E c) = Some 64
           | _ \<Rightarrow> False))"

lemma jws_test_passes:
  assumes "prims_ok P" "b64_ok E" "from_seed_for_tests P (ascii ''jws'') (ascii ''dev'') = Inr k"
  shows "three_segments_with_expected_header_and_signature_size P E"
  using b64_okD(1) [OF assms(2)] length_sign_prehash [OF assms(1)]
  by (simp add: three_segments_with_expected_header_and_signature_size_def assms(3) jws_parts [OF assms(2)]
      key_signer_def)

definition ends_with :: "rstr \<Rightarrow> rstr \<Rightarrow> bool" where
  "ends_with s t \<longleftrightarrow> starts_with (rev s) (rev t)"

definition genesis_self_signature_verifies_under_the_did_key ::
  "('sk, 'vk, 'sig) prims \<Rightarrow> bs58 \<Rightarrow> b64 \<Rightarrow> (genesis_roster \<Rightarrow> bytes) \<Rightarrow> bool" where
  "genesis_self_signature_verifies_under_the_did_key P B E canon =
     (case from_seed_for_tests P (ascii ''g'') (ascii ''cam-1'') of
        Inl _ \<Rightarrow> False
      | Inr k \<Rightarrow>
          (case sign_genesis_roster P B E canon (key_did P k) (key_signer P k) 1700000000 of
             Inl _ \<Rightarrow> False
           | Inr g \<Rightarrow>
               gr_version g = 1 \<and> length (gr_methods g) = 1 \<and>
               ends_with (vm_id (gr_methods g ! 0)) (ascii ''#cam-1'') \<and>
               (case b64_decode E (gr_self_signed g) of
                  None \<Rightarrow> False
                | Some sig \<Rightarrow> length sig = 64 \<and>
                    verify_prehash P (did_pubkey (key_did P k)) (sha256 P (canon g)) sig = Inr ())))"

lemma roster_test_passes:
  assumes "prims_ok P" "bs58_ok B" "b64_ok E" "canon_ok canon"
    and "from_seed_for_tests P (ascii ''g'') (ascii ''cam-1'') = Inr k"
  shows "genesis_self_signature_verifies_under_the_did_key P B E canon"
proof -
  have v: "valid_did P (key_did P k)" using valid_from_verifying_key [OF assms(1)] by (simp add: key_did_def)
  from assms(2) v obtain s vm sg where g: "sign_genesis_roster P B E canon (key_did P k) (key_signer P k) 1700000000 =
      Inr \<lparr>gr_version = 1, gr_did = s, gr_methods = [vm], gr_signed_at = 1700000000, gr_self_signed = sg\<rparr>"
    "vm_id vm = s @ ascii ''#'' @ sg_device_id (key_signer P k)"
    by (rule sign_genesis_roster_runs) blast
  let ?g = "\<lparr>gr_version = 1, gr_did = s, gr_methods = [vm], gr_signed_at = 1700000000, gr_self_signed = sg\<rparr>"
  have "sg = b64_encode E (sign_prehash P k (sha256 P (canon (?g\<lparr>gr_self_signed := []\<rparr>))))"
    using g(1) by (auto simp: sign_genesis_roster_def make_verification_method_def Let_def result_iffs key_signer_def)
  then have d: "b64_decode E sg = Some (sign_prehash P k (sha256 P (canon (?g\<lparr>gr_self_signed := []\<rparr>))))"
    using b64_okD(1) [OF assms(3)] by simp
  have S: "device_signer P (key_signer P k) (did_pubkey (key_did P k))"
    using assms(1) seed_key(1) [OF assms(5)] by (rule key_signer_provides)
  have v: "verify_prehash P (did_pubkey (key_did P k)) (sha256 P (canon ?g))
      (sign_prehash P k (sha256 P (canon (?g\<lparr>gr_self_signed := []\<rparr>)))) = Inr ()"
    using device_signer.genesis_self_signed [OF S assms(3,4) g(1)] d by simp
  have "ends_with (vm_id vm) (ascii ''#cam-1'')"
    using g(2) seed_key(2) [OF assms(5)]
    by (simp add: key_signer_def ends_with_def starts_with_def) (simp add: ascii_def)
  with d v show ?thesis
    by (simp add: genesis_self_signature_verifies_under_the_did_key_def assms(5) g(1) length_sign_prehash [OF assms(1)])
qed

definition rejects_empty_request ::
  "('sk, 'vk, 'sig) prims \<Rightarrow> bs58 \<Rightarrow> b64 \<Rightarrow> (genesis_roster \<Rightarrow> bytes) \<Rightarrow> ('o jwt_payload \<Rightarrow> bytes option) \<Rightarrow> bool" where
  "rejects_empty_request P B E canon to_vec =
     (case from_seed_for_tests P (ascii ''tok'') (ascii ''cam-1'') of
        Inl _ \<Rightarrow> False
      | Inr k \<Rightarrow> build_self_issued_token P B E canon to_vec (key_did P k) (key_signer P k)
          \<lparr>rq_audience = [], rq_nonce = ascii ''n''\<rparr> 1 1 [] = Inl InvalidFormat)"

lemma token_test_passes:
  "from_seed_for_tests P (ascii ''tok'') (ascii ''cam-1'') = Inr k \<Longrightarrow> rejects_empty_request P B E canon to_vec"
  by (simp add: rejects_empty_request_def build_token_error)

text \<open>\<open>GENESIS_DOMAIN\<close> is a constant of \<open>mid_types\<close>: the argument \<open>domain\<close>.\<close>

definition canonical_excludes_signature_and_starts_with_domain ::
  "('sk, 'vk, 'sig) prims \<Rightarrow> bs58 \<Rightarrow> b64 \<Rightarrow> (genesis_roster \<Rightarrow> bytes) \<Rightarrow> bytes \<Rightarrow> bool" where
  "canonical_excludes_signature_and_starts_with_domain P B E canon domain =
     (case from_seed_for_tests P (ascii ''g'') (ascii ''cam-1'') of
        Inl _ \<Rightarrow> False
      | Inr k \<Rightarrow>
          (case sign_genesis_roster P B E canon (key_did P k) (key_signer P k) 1 of
             Inl _ \<Rightarrow> False
           | Inr g \<Rightarrow>
               let a = canon g; g = g\<lparr>gr_self_signed := ascii ''x''\<rparr> in
               a = canon g \<and> starts_with a domain))"

lemma canonical_test_passes:
  assumes "prims_ok P" "bs58_ok B" "canon_ok canon" "\<And>g. starts_with (canon g) domain"
    and "from_seed_for_tests P (ascii ''g'') (ascii ''cam-1'') = Inr k"
  shows "canonical_excludes_signature_and_starts_with_domain P B E canon domain"
proof -
  have v: "valid_did P (key_did P k)" using valid_from_verifying_key [OF assms(1)] by (simp add: key_did_def)
  from assms(2) v show ?thesis
  proof (rule sign_genesis_roster_runs [where E = E and canon = canon and S = "key_signer P k" and at = 1])
    fix s vm sig
    let ?g = "\<lambda>x. \<lparr>gr_version = 1, gr_did = s, gr_methods = [vm], gr_signed_at = 1, gr_self_signed = x\<rparr>"
    assume g: "sign_genesis_roster P B E canon (key_did P k) (key_signer P k) 1 = Inr (?g sig)"
    have "canon (?g sig) = canon (?g (ascii ''x''))"
      by (rule trans [OF canon_okD canon_okD [symmetric]]) (rule assms(3))+
    with g show ?thesis
      by (simp add: canonical_excludes_signature_and_starts_with_domain_def assms(4,5))
  qed
qed

text \<open>\<open>from_slice\<close> is \<open>serde_json::from_slice\<close> at \<open>MidJwtPayload\<close>.\<close>

definition token_has_three_segments_and_echoes_the_request ::
  "('sk, 'vk, 'sig) prims \<Rightarrow> bs58 \<Rightarrow> b64 \<Rightarrow> (genesis_roster \<Rightarrow> bytes) \<Rightarrow> ('o jwt_payload \<Rightarrow> bytes option) \<Rightarrow>
     (bytes \<Rightarrow> 'o jwt_payload option) \<Rightarrow> bool" where
  "token_has_three_segments_and_echoes_the_request P B E canon to_vec from_slice =
     (case from_seed_for_tests P (ascii ''tok'') (ascii ''cam-1'') of
        Inl _ \<Rightarrow> False
      | Inr k \<Rightarrow>
          let claims = [(ascii ''name'', self_attested (ascii ''acme doorbell''))] in
          (case build_self_issued_token P B E canon to_vec (key_did P k) (key_signer P k)
                  \<lparr>rq_audience = ascii ''https://home.local'', rq_nonce = ascii ''n-1''\<rparr>
                  1700000000 3600 claims of
             Inl _ \<Rightarrow> False
           | Inr jwt \<Rightarrow>
               let parts = split_on 0x2E jwt in
               length parts = 3 \<and>
               (case b64_decode E (parts ! 1) \<bind> from_slice of
                  None \<Rightarrow> False
                | Some p \<Rightarrow>
                    jp_aud p = ascii ''https://home.local'' \<and> jp_nonce p = ascii ''n-1'' \<and>
                    to_did_string B (key_did P k) = Inr (jp_iss p) \<and>
                    jp_exp p - jp_iat p = 3600 \<and> jp_chain p = [])))"

lemma token_segments_test_passes:
  fixes to_vec :: "'o jwt_payload \<Rightarrow> bytes option"
  assumes "prims_ok P" "bs58_ok B" "b64_ok E" "from_seed_for_tests P (ascii ''tok'') (ascii ''cam-1'') = Inr k"
    and "\<And>p. \<exists>m. to_vec p = Some m \<and> from_slice m = Some p"
  shows "token_has_three_segments_and_echoes_the_request P B E canon to_vec from_slice"
proof -
  have v: "valid_did P (key_did P k)" using valid_from_verifying_key [OF assms(1)] by (simp add: key_did_def)
  let ?iat = "max (sat_sub64 1700000000 1) 1"
  from assms(2) v show ?thesis
  proof (rule sign_genesis_roster_runs [where E = E and canon = canon and S = "key_signer P k" and at = ?iat])
    fix s vm sig
    let ?g = "\<lparr>gr_version = 1, gr_did = s, gr_methods = [vm], gr_signed_at = ?iat, gr_self_signed = sig\<rparr>"
    assume s: "to_did_string B (key_did P k) = Inr s"
      and g: "sign_genesis_roster P B E canon (key_did P k) (key_signer P k) ?iat = Inr ?g"
    let ?p = "\<lparr>jp_iss = s, jp_sub = s, jp_aud = ascii ''https://home.local'', jp_iat = 1700000000,
      jp_exp = 1700003600, jp_nonce = ascii ''n-1'',
      jp_claims = [(ascii ''name'', self_attested (ascii ''acme doorbell''))],
      jp_genesis = ?g, jp_chain = [], jp_vm = embedded_vm_of vm\<rparr> :: 'o jwt_payload"
    obtain m where m: "to_vec ?p = Some m" "from_slice m = Some ?p" using assms(5) by blast
    have e: "sat_add64 1700000000 3600 = 1700003600" by (simp add: sat_add64_def)
    have ne: "ascii ''https://home.local'' \<noteq> []" "ascii ''n-1'' \<noteq> []" by (simp_all add: ascii_def)
    have t: "build_self_issued_token P B E canon to_vec (key_did P k) (key_signer P k)
        \<lparr>rq_audience = ascii ''https://home.local'', rq_nonce = ascii ''n-1''\<rparr> 1700000000 3600
        [(ascii ''name'', self_attested (ascii ''acme doorbell''))] = Inr (build_jws_compact P E m (key_signer P k))"
      using ne by (simp add: build_self_issued_token_def g s e m(1) Let_def)
    show ?thesis
      by (simp add: token_has_three_segments_and_echoes_the_request_def assms(4) t Let_def jws_parts [OF assms(3)]
          b64_okD(1) [OF assms(3)] m(2) s)
  qed
qed

end
