(* ===== verification/Printing.thy ===== *)
theory Printing
  imports Key Flash Seal Esp_Nvs Nonce
begin

text \<open>
  What the handles print: \<open>core::fmt\<close>'s struct builder as \<open>{:?}\<close> runs it, and the \<open>Debug\<close>
  implementations of \<open>key.rs\<close>, \<open>did.rs\<close>, \<open>seal.rs\<close>, \<open>hal/partitions.rs\<close>, \<open>hal/flash.rs\<close>, \<open>hal/shared.rs\<close>,
  \<open>hal/rng.rs\<close> and \<open>idf/nvs.rs\<close>; none of them shows a secret. \<open>NonceWindow\<close>'s \<open>Default\<close> is here too.
\<close>

section \<open>The builder\<close>

text \<open>\<open>{}\<close> of an unsigned integer.\<close>

fun decimal :: "nat \<Rightarrow> rstr" where
  "decimal n = (if n < 10 then [] else decimal (n div 10)) @ [0x30 + of_nat (n mod 10)]"

declare decimal.simps [simp del]

fun separated :: "rstr \<Rightarrow> rstr list \<Rightarrow> rstr" where
  "separated sep (x # y # xs) = x @ sep @ separated sep (y # xs)"
| "separated sep [x] = x"
| "separated sep [] = []"

text \<open>\<open>debug_struct\<close>, its fields, then \<open>finish\<close> or \<open>finish_non_exhaustive\<close>.\<close>

datatype debug_end = Finish | Non_Exhaustive

definition debug_struct :: "string \<Rightarrow> (string \<times> rstr) list \<Rightarrow> debug_end \<Rightarrow> rstr" where
  "debug_struct name shown e =
     (let fs = map (\<lambda>(k, v). ascii k @ ascii '': '' @ v) shown
          @ (case e of Finish \<Rightarrow> [] | Non_Exhaustive \<Rightarrow> [ascii ''..'']) in
      if fs = [] then ascii name
      else ascii name @ ascii '' { '' @ separated (ascii '', '') fs @ ascii '' }'')"

definition debug_bool :: "bool \<Rightarrow> rstr" where
  "debug_bool b = ascii (if b then ''true'' else ''false'')"

section \<open>The core's handles\<close>

definition device_id_debug :: "device_id \<Rightarrow> rstr" where
  "device_id_debug d = device_id_as_str d"

definition did_debug :: "bs58 \<Rightarrow> did \<Rightarrow> rstr" where
  "did_debug B d = did_display B d"

definition sealed_kv_debug :: "('s, 'r, 'c) sealed_kv \<Rightarrow> rstr" where
  "sealed_kv_debug st = debug_struct ''SealedKv'' [(''sealing'', debug_bool (sk_cipher st \<noteq> None))] Non_Exhaustive"

definition window_default :: "nat \<Rightarrow> nonce_window" where
  "window_default N = new_window N"

section \<open>The backends' handles\<close>

text \<open>\<open>quote\<close> is \<open>str\<close>'s own \<open>Debug\<close>: the quotation marks, and its escapes by Unicode's tables.\<close>

definition partition_debug :: "(rstr \<Rightarrow> rstr) \<Rightarrow> partition \<Rightarrow> rstr" where
  "partition_debug quote p = debug_struct ''Partition''
     [(''label'', quote (partition_label p)), (''kind'', decimal (unat (pt_kind p))),
      (''subtype'', decimal (unat (pt_subtype p))), (''offset'', decimal (unat (pt_offset p))),
      (''len'', decimal (unat (pt_len p)))] Finish"

definition part_flash_debug :: "part_flash \<Rightarrow> rstr" where
  "part_flash_debug f = debug_struct ''PartitionFlash''
     [(''base'', decimal (unat (pf_base f))), (''len'', decimal (unat (pf_len f)))] Finish"

text \<open>A \<open>SharedPartition\<close> has the same two numbers.\<close>

definition shared_partition_debug :: "part_flash \<Rightarrow> rstr" where
  "shared_partition_debug f = debug_struct ''SharedPartition''
     [(''base'', decimal (unat (pf_base f))), (''len'', decimal (unat (pf_len f)))] Finish"

definition esp_hal_rng_debug :: rstr where
  "esp_hal_rng_debug = ascii ''EspHalRng''"

definition esp_nvs_kv_debug :: "'n esp_nvs_kv \<Rightarrow> rstr" where
  "esp_nvs_kv_debug s = debug_struct ''EspNvsKv''
     [(''protection'', ascii (case en_protection s of Encrypted \<Rightarrow> ''Encrypted'' | Plaintext \<Rightarrow> ''Plaintext''))]
     Non_Exhaustive"

section \<open>No secret is printed\<close>

text \<open>A key's text is the id and the DID: two keys of one public key and id print alike, whatever
  their secrets; a sealed store's is whether it seals, whatever the key, the store or the generator.\<close>

lemma device_key_debug_public:
  "dk_public k = dk_public k' \<Longrightarrow> dk_device_id k = dk_device_id k' \<Longrightarrow>
     device_key_debug P B k = device_key_debug P B k'"
  by (simp add: device_key_debug_def key_did_def)

lemma sealed_kv_debug_text:
  "sealed_kv_debug (seal_new A inner r key) =
     ascii (if key = None then ''SealedKv { sealing: false, .. }'' else ''SealedKv { sealing: true, .. }'')"
  by (simp add: sealed_kv_debug_def seal_new_def debug_struct_def debug_bool_def ascii_def)

lemma esp_nvs_kv_debug_text:
  "esp_nvs_kv_debug s =
     ascii (case en_protection s of
       Encrypted \<Rightarrow> ''EspNvsKv { protection: Encrypted, .. }''
     | Plaintext \<Rightarrow> ''EspNvsKv { protection: Plaintext, .. }'')"
  by (simp add: esp_nvs_kv_debug_def debug_struct_def ascii_def split: protection.split)

text \<open>The numbers printed are the handle's: two partitions that print alike are the same range.\<close>

lemma decimal_digits: "x \<in> set (decimal n) \<Longrightarrow> 0x30 \<le> x \<and> x \<le> 0x39"
proof (induction n rule: decimal.induct)
  case (1 n)
  have "0x30 \<le> (0x30 + of_nat (n mod 10) :: u8) \<and> (0x30 + of_nat (n mod 10) :: u8) \<le> 0x39"
  proof -
    have "n mod 10 < 10" by simp
    then show ?thesis
      by (simp add: word_le_nat_alt unat_word_ariths(1) unat_of_nat)
  qed
  with 1 show ?case by (subst (asm) (2) decimal.simps) (auto split: if_splits)
qed

lemma decimal_inj: "decimal m = decimal n \<Longrightarrow> m = n"
proof (induction m arbitrary: n rule: decimal.induct)
  case (1 m)
  have digit: "i = j" if "i < 10" "j < 10" "(of_nat i :: u8) = of_nat j" for i j :: nat
    using arg_cong [OF that(3), of unat] that(1,2) by (simp add: unat_of_nat)
  have ne: "decimal k \<noteq> []" for k by (subst decimal.simps) simp
  from 1(2) have last: "m mod 10 = n mod 10"
    and front: "(if m < 10 then [] else decimal (m div 10)) = (if n < 10 then [] else decimal (n div 10))"
    by (subst (asm) (1 2) decimal.simps, auto intro: digit)+
  show ?case
  proof (cases "m < 10")
    case True
    with front ne [of "n div 10"] have "n < 10" by (auto split: if_splits)
    with True last show ?thesis by simp
  next
    case False
    with front ne [of "m div 10"] have "\<not> n < 10" "decimal (m div 10) = decimal (n div 10)"
      by (auto split: if_splits)
    with 1(1) [OF False] have "m div 10 = n div 10" by blast
    with last show ?thesis by (metis div_mult_mod_eq)
  qed
qed

lemma decimal_ends:
  assumes "decimal m @ 0x2C # s = decimal n @ 0x2C # t"
  shows "m = n \<and> s = t"
proof -
  have no: "(0x2C :: u8) \<notin> set (decimal k)" for k using decimal_digits [of "0x2C" k] by auto
  then have "takeWhile (\<lambda>x. x \<noteq> 0x2C) (decimal k @ 0x2C # r) = decimal k" for k r
    by (subst takeWhile_append2) auto
  then have "decimal m = decimal n" using arg_cong [OF assms, of "takeWhile (\<lambda>x. x \<noteq> 0x2C)"] by simp
  with assms show ?thesis using decimal_inj by auto
qed

lemma part_flash_debug_inj: "part_flash_debug f = part_flash_debug g \<Longrightarrow> f = g"
proof -
  assume "part_flash_debug f = part_flash_debug g"
  then have "decimal (unat (pf_base f)) @ 0x2C # ascii '' len: '' @ decimal (unat (pf_len f)) @ ascii '' }'' =
      decimal (unat (pf_base g)) @ 0x2C # ascii '' len: '' @ decimal (unat (pf_len g)) @ ascii '' }''"
    by (simp add: part_flash_debug_def debug_struct_def ascii_def)
  from decimal_ends [OF this] have "unat (pf_base f) = unat (pf_base g)" "unat (pf_len f) = unat (pf_len g)"
    by (auto dest: decimal_inj)
  then show "f = g" by (simp add: word_unat_eq_iff)
qed

end
