(* ===== verification/Tests_Stores.thy ===== *)
theory Tests_Stores
  imports Key_Correct Setup Seal_Correct Printing
begin

text \<open>
  The unit tests of \<open>setup.rs\<close>, \<open>key.rs\<close> and \<open>seal.rs\<close> that work on a store, as checks that
  compute, and that they pass on every store with the contract of a store that works. The tests'
  \<open>MemoryKv\<close> is not part of the repository: it is \<open>K\<close>, the record of operations, and \<open>new\<close>,
  the empty store. Where a test tampers with an entry, that the tag of the tampered entry does not
  hold is a hypothesis.
\<close>

locale memory_store = kv_reliable K contents inv storable
  for K :: "'s kv" and contents :: "'s \<Rightarrow> bytes \<Rightarrow> bytes option" and inv :: "'s \<Rightarrow> bool"
    and storable :: "bytes \<Rightarrow> bool" +
  fixes new :: 's
  assumes new_inv: "inv new"
    and new_empty: "contents new = Map.empty"
    and all_storable: "storable v"

interpretation mem_memory: memory_store mem_kv map_of "\<lambda>_. True" "\<lambda>_. True" "[]"
  by unfold_locales simp_all

text \<open>\<open>kv.put(k, v).unwrap()\<close>, and the rest of the test on the store after it.\<close>

definition put_then :: "'s kv \<Rightarrow> 's \<Rightarrow> bytes \<Rightarrow> bytes \<Rightarrow> ('s \<Rightarrow> bool) \<Rightarrow> bool" where
  "put_then K s k v f = (case kv_put K s k v of (Inr _, s) \<Rightarrow> f s | (Inl _, _) \<Rightarrow> False)"

context memory_store
begin

lemma put_thenI:
  assumes "inv s" "\<And>s'. inv s' \<Longrightarrow> contents s' = (contents s)(k \<mapsto> v) \<Longrightarrow> f s'"
  shows "put_then K s k v f"
  using assms(1) all_storable by (rule put_runs [where k = k and v = v]) (simp add: put_then_def assms(2))

end

text \<open>\<open>e[i] ^= 1\<close>, which several tests do to an entry.\<close>

definition flip :: "nat \<Rightarrow> bytes \<Rightarrow> bytes" where
  "flip i e = e[i := e ! i XOR 1]"

lemma flip_differs:
  assumes "i < length e"
  shows "flip i e \<noteq> e"
proof
  assume "flip i e = e"
  then have "e ! i = e ! i XOR 1" using assms by (metis flip_def nth_list_update_eq)
  then have "bit (e ! i) 0 = bit (e ! i XOR 1) 0" by (rule arg_cong)
  then show False by (simp add: bit_xor_iff)
qed

section \<open>Setup\<close>

definition the_stored_records :: "'s kv \<Rightarrow> 's \<Rightarrow> bool" where
  "the_stored_records K new \<longleftrightarrow>
     (let kv = new; record = replicate SETUP_VERIFIER_LEN 0x5A in
      load_verifier K kv = Inr None \<and> load_failures K kv = Inr 0 \<and>
      (case store_verifier K kv record of (Inl _, _) \<Rightarrow> False | (Inr _, kv) \<Rightarrow>
        load_verifier K kv = Inr (Some record) \<and>
        (case store_failures K kv 3 of (Inl _, _) \<Rightarrow> False | (Inr _, kv) \<Rightarrow>
          load_failures K kv = Inr 3 \<and>
          put_then K kv KV_SETUP_VERIFIER (replicate 117 1) (\<lambda>kv.
            load_verifier K kv = Inl Corrupt \<and>
            put_then K kv KV_SETUP_VERIFIER (replicate 200 1) (\<lambda>kv.
              load_verifier K kv = Inl Corrupt \<and>
              put_then K kv KV_SETUP_FAILURES [1, 2] (\<lambda>kv. load_failures K kv = Inl Corrupt))))))"

definition a_context_too_long_for_its_prefix :: "('sk, 'vk, 'sig) prims \<Rightarrow> bool" where
  "a_context_too_long_for_its_prefix P \<longleftrightarrow>
     reply_prehash P (replicate 70000 0) (replicate 65 4) (replicate 65 4) (replicate 32 0) = Inl InvalidFormat"

lemma context_test_passes: "a_context_too_long_for_its_prefix P"
  by (simp add: a_context_too_long_for_its_prefix_def reply_prehash_def)

lemma setup_keys_distinct [simp]: "KV_SETUP_VERIFIER \<noteq> KV_SETUP_FAILURES"
  by (simp add: KV_SETUP_VERIFIER_def KV_SETUP_FAILURES_def)

context memory_store
begin

lemma stored_records_pass: "the_stored_records K new"
proof -
  let ?r = "replicate SETUP_VERIFIER_LEN (0x5A :: u8)"
  obtain s1 where s1: "store_verifier K new ?r = (Inr (), s1)" "inv s1"
    "contents s1 = (contents new)(KV_SETUP_VERIFIER \<mapsto> ?r)"
    unfolding store_verifier_def using new_inv all_storable by (rule put_runs)
  obtain s2 where s2: "store_failures K s1 3 = (Inr (), s2)" "inv s2"
    "contents s2 = (contents s1)(KV_SETUP_FAILURES \<mapsto> [3])"
    unfolding store_failures_def using s1(2) all_storable by (rule put_runs)
  have "put_then K s2 KV_SETUP_VERIFIER (replicate 117 1) (\<lambda>kv.
      load_verifier K kv = Inl Corrupt \<and>
      put_then K kv KV_SETUP_VERIFIER (replicate 200 1) (\<lambda>kv.
        load_verifier K kv = Inl Corrupt \<and>
        put_then K kv KV_SETUP_FAILURES [1, 2] (\<lambda>kv. load_failures K kv = Inl Corrupt)))"
    by (intro put_thenI conjI s2(2)) (simp_all add: load_verifier_exact load_failures_exact)
  then show ?thesis
    using s1 s2 new_inv
    by (simp add: the_stored_records_def Let_def load_verifier_exact load_failures_exact new_empty)
qed

end

section \<open>The device key\<close>

text \<open>\<open>len\<close> is \<open>MemoryKv::len\<close>.\<close>

definition generate_store_load_is_stable ::
  "('sk, 'vk, 'sig) prims \<Rightarrow> 's kv \<Rightarrow> ('s \<Rightarrow> nat) \<Rightarrow> 'r rng \<Rightarrow> 's \<Rightarrow> 'r \<Rightarrow> bool" where
  "generate_store_load_is_stable P K len fill new seeded =
     (case load_or_generate P K fill new seeded (ascii ''cam-1'') of
        (Inl _, _) \<Rightarrow> False
      | (Inr a, kv, rng) \<Rightarrow>
          (case load_or_generate P K fill kv rng (ascii ''cam-1'') of
             (Inl _, _) \<Rightarrow> False
           | (Inr b, kv, _) \<Rightarrow>
               key_did P a = key_did P b \<and> secret_bytes P a = secret_bytes P b \<and> len kv = 1))"

definition device_id_rules :: bool where
  "device_id_rules \<longleftrightarrow>
     (\<exists>d. device_id_new (ascii ''cam-1.a_b'') = Inr d) \<and>
     device_id_new [] = Inl InvalidFormat \<and>
     device_id_new (ascii ''has space'') = Inl InvalidFormat \<and>
     device_id_new (ascii ''012345678901234567890123456789012'') = Inl InvalidFormat"

definition corrupt_store_is_reported :: "('sk, 'vk, 'sig) prims \<Rightarrow> 's kv \<Rightarrow> 's \<Rightarrow> bool" where
  "corrupt_store_is_reported P K new =
     put_then K new KV_KEY [1, 2, 3] (\<lambda>kv. load P K kv (ascii ''dev'') = Inl Corrupt)"

definition ecdh_agrees_both_ways :: "('sk, 'vk, 'sig) prims \<Rightarrow> bool" where
  "ecdh_agrees_both_ways P =
     (case (from_seed_for_tests P (ascii ''a'') (ascii ''a''), from_seed_for_tests P (ascii ''b'') (ascii ''b'')) of
        (Inr a, Inr b) \<Rightarrow>
          (case (shared_secret P a (key_did P b), shared_secret P b (key_did P a)) of
             (Inr x, Inr y) \<Rightarrow> x = y
           | _ \<Rightarrow> False)
      | _ \<Rightarrow> False)"

text \<open>The key against \<open>SigningKey\<close> itself: its public key, its DID, its signatures in low-s form.\<close>

definition signatures_and_keys_are_signing_keys_own :: "('sk, 'vk, 'sig) prims \<Rightarrow> bool" where
  "signatures_and_keys_are_signing_keys_own P \<longleftrightarrow>
     (\<forall>seed \<in> set [0..<24].
        case from_seed_for_tests P (ascii ''r7-'' @ decimal seed) (ascii ''x'') of
          Inl _ \<Rightarrow> False
        | Inr key \<Rightarrow>
            (case scalar_from_repr P (secret_bytes P key) of
               None \<Rightarrow> False
             | Some sk \<Rightarrow>
                 dk_public key = public_of P sk \<and> key_did P key = from_verifying_key P (public_of P sk) \<and>
                 (\<forall>m \<in> set [0..<8].
                    let prehash = replicate 32 (of_nat m * 37 + of_nat seed);
                        raw = ecdsa_sign P sk prehash;
                        want = (case normalize_s P raw of Some s \<Rightarrow> s | None \<Rightarrow> raw) in
                    sign_prehash P key prehash = sig_to_bytes P want)))"

lemma device_id_test_passes: "device_id_rules"
proof -
  have "\<exists>d. device_id_new (ascii ''cam-1.a_b'') = Inr d"
    by (simp add: device_id_new_def Let_def ascii_def is_ascii_alphanumeric_def)
  moreover have "device_id_new (ascii ''has space'') = Inl InvalidFormat"
    "device_id_new (ascii ''012345678901234567890123456789012'') = Inl InvalidFormat"
    by (simp_all add: device_id_new_def Let_def ascii_def is_ascii_alphanumeric_def)
  ultimately show ?thesis by (simp add: device_id_rules_def device_id_new_def)
qed

lemma ecdh_test_passes:
  assumes "prims_ok P" "from_seed_for_tests P (ascii ''a'') (ascii ''a'') = Inr a"
    "from_seed_for_tests P (ascii ''b'') (ascii ''b'') = Inr b"
  shows "ecdh_agrees_both_ways P"
  using shared_secret_agrees [OF assms(1) seed_key(1) [OF assms(2)] seed_key(1) [OF assms(3)]]
  by (auto simp: ecdh_agrees_both_ways_def assms(2,3))

lemma signing_key_test_passes:
  assumes "prims_ok P"
    and "\<And>seed. seed < 24 \<Longrightarrow> \<exists>key. from_seed_for_tests P (ascii ''r7-'' @ decimal seed) (ascii ''x'') = Inr key"
  shows "signatures_and_keys_are_signing_keys_own P"
  unfolding signatures_and_keys_are_signing_keys_own_def
proof
  fix seed :: nat
  assume "seed \<in> set [0..<24]"
  with assms(2) obtain key where key: "from_seed_for_tests P (ascii ''r7-'' @ decimal seed) (ascii ''x'') = Inr key"
    by auto
  from seed_key(1) [OF this] show "case from_seed_for_tests P (ascii ''r7-'' @ decimal seed) (ascii ''x'') of
      Inl _ \<Rightarrow> False
    | Inr key \<Rightarrow>
        (case scalar_from_repr P (secret_bytes P key) of
           None \<Rightarrow> False
         | Some sk \<Rightarrow>
             dk_public key = public_of P sk \<and> key_did P key = from_verifying_key P (public_of P sk) \<and>
             (\<forall>m \<in> set [0..<8].
                let prehash = replicate 32 (of_nat m * 37 + of_nat seed);
                    raw = ecdsa_sign P sk prehash;
                    want = (case normalize_s P raw of Some s \<Rightarrow> s | None \<Rightarrow> raw) in
                sign_prehash P key prehash = sig_to_bytes P want))"
    by (simp add: key secret_bytes_def prims_okD(4) [OF assms(1)] wf_key_def key_did_def sign_prehash_def Let_def)
qed

context memory_store
begin

lemma corrupt_store_test_passes: "corrupt_store_is_reported P K new"
  unfolding corrupt_store_is_reported_def
  by (rule put_thenI [OF new_inv]) (simp add: load_def get_works)

lemma generate_test_passes:
  assumes P: "prims_ok P" and len: "\<And>s. inv s \<Longrightarrow> len s = card (dom (contents s))"
    and gen: "generate P fill seeded (ascii ''cam-1'') = (Inr key, rng)"
  shows "generate_store_load_is_stable P K len fill new seeded"
proof -
  have "load P K new (ascii ''cam-1'') = Inr None"
    by (simp add: load_def get_works [OF new_inv] new_empty)
  moreover obtain s where s: "kv_put K new KV_KEY (secret_bytes P key) = (Inr (), s)" "inv s"
    "contents s = (contents new)(KV_KEY \<mapsto> secret_bytes P key)"
    using new_inv all_storable by (rule put_runs)
  ultimately have first: "load_or_generate P K fill new seeded (ascii ''cam-1'') = (Inr key, s, rng)"
    by (simp add: load_or_generate_def gen store_def)
  have "load P K s (ascii ''cam-1'') = Inr (Some key)"
    by (rule load_again [OF P s(2) generate_Inr [OF gen]]) (simp add: s(3))
  then have "load_or_generate P K fill s rng (ascii ''cam-1'') = (Inr key, s, rng)"
    by (simp add: load_or_generate_def)
  with first show ?thesis
    by (simp add: generate_store_load_is_stable_def len [OF s(2)] s(3) new_empty)
qed

end

end
