(* ===== verification/Tests_Caches.thy ===== *)
theory Tests_Caches
  imports Tests_Stores
begin

text \<open>
  The two unit tests of \<open>key.rs\<close> on its caches, as checks that compute, and that they pass on every
  store that works. The tests also tamper with the entries; where the tampered entry's tag would
  have to be a forgery to be taken, that it does not hold is a hypothesis. A flipped bit in the tag
  itself, and a short entry, need none.
\<close>

section \<open>The remembered signature\<close>

text \<open>\<open>assert_eq!(key.sign_prehash_cached(..), key.sign_prehash(..))\<close>, and the rest of the test.\<close>

definition signs_then ::
  "('sk, 'vk, 'sig) prims \<Rightarrow> 's kv \<Rightarrow> ('sk, 'vk) device_key \<Rightarrow> bytes \<Rightarrow> 's \<Rightarrow> ('s \<Rightarrow> bool) \<Rightarrow> bool" where
  "signs_then P K key h kv f =
     (case sign_prehash_cached P K kv key (ascii ''mid.sig'') h of
        (sig, kv) \<Rightarrow> sig = sign_prehash P key h \<and> f kv)"

definition a_remembered_signature_is_the_signature_and_a_wrong_entry_is_not_used ::
  "('sk, 'vk, 'sig) prims \<Rightarrow> 's kv \<Rightarrow> 's \<Rightarrow> bool" where
  "a_remembered_signature_is_the_signature_and_a_wrong_entry_is_not_used P K new =
     (case (from_seed_for_tests P (ascii ''r8'') (ascii ''c''), from_seed_for_tests P (ascii ''r8-other'') (ascii ''c'')) of
        (Inr key, Inr other) \<Rightarrow>
          let a = replicate 32 3; b = replicate 32 4; signs = signs_then P K key in
          signs a new (\<lambda>kv. signs a kv (\<lambda>kv. signs b kv (\<lambda>kv. signs a kv (\<lambda>kv.
            (case kv_get K kv (ascii ''mid.sig'') 128 of
               Inr (Some entry) \<Rightarrow>
                 length entry = 128 \<and>
                 put_then K kv (ascii ''mid.sig'') (flip 40 entry) (\<lambda>kv.
                   signs a kv (\<lambda>kv.
                     case sign_prehash_cached P K kv other (ascii ''mid.sig'') a of (_, kv) \<Rightarrow>
                       signs a kv (\<lambda>_. True)))
             | _ \<Rightarrow> False)))))
      | _ \<Rightarrow> False)"

definition sig_entry :: "('sk, 'vk, 'sig) prims \<Rightarrow> ('sk, 'vk) device_key \<Rightarrow> bytes \<Rightarrow> bytes" where
  "sig_entry P key h =
     (h @ sign_prehash P key h) @ hmac_sha256 P (secret_bytes P key) [SIG_DOMAIN, h @ sign_prehash P key h]"

abbreviation sig_tag_holds :: "('sk, 'vk, 'sig) prims \<Rightarrow> ('sk, 'vk) device_key \<Rightarrow> bytes \<Rightarrow> bool" where
  "sig_tag_holds P key e \<equiv> drop 96 e = hmac_sha256 P (secret_bytes P key) [SIG_DOMAIN, take 96 e]"

lemma length_sig_entry: "prims_ok P \<Longrightarrow> length h = 32 \<Longrightarrow> length (sig_entry P key h) = 128"
  by (simp add: sig_entry_def length_sign_prehash)

lemma sig_entry_honest: "prims_ok P \<Longrightarrow> length h = 32 \<Longrightarrow> sig_honest P key (Some (sig_entry P key h))"
  unfolding sig_entry_def by (rule sig_honest_entry) simp_all

lemma tag_fails_honest: "\<not> sig_tag_holds P key e \<Longrightarrow> sig_honest P key (Some e)"
  by (simp add: sig_honest_def)

context memory_store
begin

lemma cached_entry:
  assumes P: "prims_ok P" and s: "inv s" and h: "length h = 32" and honest: "sig_honest P key (contents s name)"
  obtains s' where "sign_prehash_cached P K s key name h = (sign_prehash P key h, s')" "inv s'"
    "contents s' = (contents s)(name \<mapsto> sig_entry P key h)"
proof (cases "\<exists>e. kv_get K s name 128 = Inr (Some e) \<and> length e = 128 \<and>
    ct_eq32 h (take 32 (take 96 e)) \<and> ct_eq32 (hmac_sha256 P (secret_bytes P key) [SIG_DOMAIN, take 96 e]) (drop 96 e)")
  case True
  then obtain e where e: "kv_get K s name 128 = Inr (Some e)" "length e = 128" "take 32 e = h" "sig_tag_holds P key e"
    and tests: "ct_eq32 h (take 32 (take 96 e))"
      "ct_eq32 (hmac_sha256 P (secret_bytes P key) [SIG_DOMAIN, take 96 e]) (drop 96 e)"
    using h P by (auto simp: ct_eq32_iff)
  from get_value [OF s e(1)] have c: "contents s name = Some e" by simp
  with honest e(2-4) have m: "take 64 (drop 32 e) = sign_prehash P key h" by (simp add: sig_honest_def)
  have t: "take 96 e = h @ sign_prehash P key h"
    using take_add [of 32 64 e] e(3) m by simp
  have "e = sig_entry P key h"
    using append_take_drop_id [of 96 e] e(4) unfolding t sig_entry_def by simp
  moreover have "take 64 (drop 32 (take 96 e)) = sign_prehash P key h"
    unfolding t using h by (simp add: length_sign_prehash [OF P])
  ultimately show thesis
    using e(1,2) tests s c by (intro that [of s]) (auto simp: sign_prehash_cached_def Let_def length_sign_prehash [OF P])
next
  case False
  have len: "length (sig_entry P key h) = 128" using P h by (rule length_sig_entry)
  obtain s' where s': "kv_put K s name (sig_entry P key h) = (Inr (), s')" "inv s'"
    "contents s' = (contents s)(name \<mapsto> sig_entry P key h)"
    using s all_storable by (rule put_runs)
  from False have "sign_prehash_cached P K s key name h =
      (sign_prehash P key h, snd (kv_put K s name (sig_entry P key h)))"
    by (simp add: sign_prehash_cached_def sig_entry_def Let_def split: sum.splits option.splits) blast
  with s' show thesis by (intro that [of s']) simp_all
qed

lemma signs_thenI:
  assumes "prims_ok P" "inv s" "length h = 32" "sig_honest P key (contents s (ascii ''mid.sig''))"
    and "\<And>s'. inv s' \<Longrightarrow> contents s' (ascii ''mid.sig'') = Some (sig_entry P key h) \<Longrightarrow> f s'"
  shows "signs_then P K key h s f"
  using assms(1-4) by (rule cached_entry) (simp add: signs_then_def assms(5))

lemma remembered_signature_test_passes:
  assumes P: "prims_ok P"
    and keys: "from_seed_for_tests P (ascii ''r8'') (ascii ''c'') = Inr key"
      "from_seed_for_tests P (ascii ''r8-other'') (ascii ''c'') = Inr other"
    and tampered: "\<not> sig_tag_holds P key (flip 40 (sig_entry P key (replicate 32 3)))"
    and others: "\<not> sig_tag_holds P other (sig_entry P key (replicate 32 3))"
      "\<not> sig_tag_holds P key (sig_entry P other (replicate 32 3))"
  shows "a_remembered_signature_is_the_signature_and_a_wrong_entry_is_not_used P K new"
proof -
  let ?a = "replicate 32 (3 :: u8)" and ?b = "replicate 32 (4 :: u8)" and ?name = "ascii ''mid.sig''"
  note own = sig_entry_honest [OF P, of _ key]
  have after_other: "case sign_prehash_cached P K s other ?name ?a of (_, kv) \<Rightarrow> signs_then P K key ?a kv (\<lambda>_. True)"
    if "inv s" "contents s ?name = Some (sig_entry P key ?a)" for s
  proof -
    have l: "length ?a = 32" and "sig_honest P other (contents s ?name)"
      using that(2) tag_fails_honest [OF others(1)] by simp_all
    from P that(1) this obtain s' where s': "sign_prehash_cached P K s other ?name ?a = (sign_prehash P other ?a, s')"
      "inv s'" "contents s' = (contents s)(?name \<mapsto> sig_entry P other ?a)"
      by (rule cached_entry)
    then have "signs_then P K key ?a s' (\<lambda>_. True)"
      using tag_fails_honest [OF others(2)] by (intro signs_thenI P) simp_all
    with s'(1) show ?thesis by simp
  qed
  have after_tampering: "put_then K s ?name (flip 40 (sig_entry P key ?a)) (\<lambda>kv.
      signs_then P K key ?a kv (\<lambda>kv. case sign_prehash_cached P K kv other ?name ?a of
        (_, kv) \<Rightarrow> signs_then P K key ?a kv (\<lambda>_. True)))" if "inv s" for s
    using that
  proof (rule put_thenI)
    fix s1
    assume s1: "inv s1" "contents s1 = (contents s)(?name \<mapsto> flip 40 (sig_entry P key ?a))"
    show "signs_then P K key ?a s1 (\<lambda>kv. case sign_prehash_cached P K kv other ?name ?a of
        (_, kv) \<Rightarrow> signs_then P K key ?a kv (\<lambda>_. True))"
      using P s1(1) by (rule signs_thenI) (simp_all add: s1(2) tag_fails_honest [OF tampered] after_other)
  qed
  have reads: "kv_get K s ?name 128 = Inr (Some (sig_entry P key ?a)) \<and> length (sig_entry P key ?a) = 128"
    if "inv s" "contents s ?name = Some (sig_entry P key ?a)" for s
    using that length_sig_entry [OF P, of ?a key] by (simp add: get_works)
  have start: "sig_honest P key (contents new ?name)" by (simp add: new_empty sig_honest_def)
  show ?thesis
    unfolding a_remembered_signature_is_the_signature_and_a_wrong_entry_is_not_used_def keys Let_def
    by (simp only: sum.case prod.case)
      (intro signs_thenI P new_inv start; simp add: own reads after_tampering)
qed

end

section \<open>The cached public key\<close>

text \<open>\<open>load_cached(..).unwrap().unwrap()\<close>, and the rest of the test.\<close>

definition loads_then ::
  "('sk, 'vk, 'sig) prims \<Rightarrow> 's kv \<Rightarrow> 's \<Rightarrow> (('sk, 'vk) device_key \<Rightarrow> 's \<Rightarrow> bool) \<Rightarrow> bool" where
  "loads_then P K kv f = (case load_cached P K kv (ascii ''c'') of (Inr (Some k), kv) \<Rightarrow> f k kv | _ \<Rightarrow> False)"

text \<open>The entry under \<open>KV_PUB\<close>, of 97 bytes, opening with \<open>first\<close>'s point.\<close>

definition pub_cached_then :: "('sk, 'vk, 'sig) prims \<Rightarrow> 's kv \<Rightarrow> 's \<Rightarrow> ('sk, 'vk) device_key \<Rightarrow> (bytes \<Rightarrow> bool) \<Rightarrow> bool" where
  "pub_cached_then P K kv first f =
     (case kv_get K kv KV_PUB 97 of
        Inr (Some entry) \<Rightarrow> length entry = 97 \<and> take 65 entry = pubkey_sec1_uncompressed P first \<and> f entry
      | _ \<Rightarrow> False)"

definition the_cached_load_is_the_same_key_and_refuses_a_stale_cache ::
  "('sk, 'vk, 'sig) prims \<Rightarrow> 's kv \<Rightarrow> ('s \<Rightarrow> nat) \<Rightarrow> 'r rng \<Rightarrow> 's \<Rightarrow> 'r \<Rightarrow> bool" where
  "the_cached_load_is_the_same_key_and_refuses_a_stale_cache P K len fill new seeded =
     (case load_or_generate_cached P K fill new seeded (ascii ''c'') of
        (Inl _, _) \<Rightarrow> False
      | (Inr first, kv, _) \<Rightarrow>
          pub_cached_then P K kv first (\<lambda>_.
          loads_then P K kv (\<lambda>cached kv.
            (case load P K kv (ascii ''c'') of
               Inr (Some plain) \<Rightarrow>
                 key_did P cached = key_did P first \<and> key_did P plain = key_did P first \<and>
                 sign_prehash P cached (replicate 32 9) = sign_prehash P plain (replicate 32 9)
             | _ \<Rightarrow> False) \<and>
            (case from_seed_for_tests P (ascii ''other'') (ascii ''c'') of
               Inl _ \<Rightarrow> False
             | Inr other \<Rightarrow>
                 let point = pubkey_sec1_uncompressed P other;
                     forged = point @ hmac_sha256 P (secret_bytes P other) [PUB_DOMAIN, point] in
                 put_then K kv KV_PUB forged (\<lambda>kv.
                 loads_then P K kv (\<lambda>again kv.
                   key_did P again = key_did P first \<and>
                   pub_cached_then P K kv first (\<lambda>entry.
                   let entry = flip 96 entry in
                   put_then K kv KV_PUB entry (\<lambda>kv.
                   loads_then P K kv (\<lambda>k kv.
                     key_did P k = key_did P first \<and>
                     put_then K kv KV_PUB (take 40 entry) (\<lambda>kv.
                     loads_then P K kv (\<lambda>k _. key_did P k = key_did P first)))))))))) \<and>
          (case load_cached P K new (ascii ''c'') of (Inr None, kv) \<Rightarrow> len kv = 0 | _ \<Rightarrow> False))"

lemma device_keys_distinct [simp]: "KV_KEY \<noteq> KV_PUB" "KV_PUB \<noteq> KV_KEY"
  by (simp_all add: KV_KEY_def KV_PUB_def)

abbreviation own_pub :: "('sk, 'vk, 'sig) prims \<Rightarrow> ('sk, 'vk) device_key \<Rightarrow> bytes" where
  "own_pub P key \<equiv> pub_entry P key (secret_bytes P key)"

text \<open>An entry that is not taken: of the wrong length, or with a tag that does not hold.\<close>

definition pub_refused :: "('sk, 'vk, 'sig) prims \<Rightarrow> ('sk, 'vk) device_key \<Rightarrow> bytes \<Rightarrow> bool" where
  "pub_refused P key e \<longleftrightarrow>
     length e \<noteq> 97 \<or> drop 65 e \<noteq> hmac_sha256 P (secret_bytes P key) [PUB_DOMAIN, take 65 e]"

context memory_store
begin

lemma load_cached_hit:
  assumes "prims_ok P" "inv s" "wf_key P key" "device_id_new did = Inr (dk_device_id key)"
    and "contents s KV_KEY = Some (secret_bytes P key)" "contents s KV_PUB = Some (own_pub P key)"
  shows "load_cached P K s did = (Inr (Some key), s)"
proof -
  have "cached_public P K s (secret_bytes P key) = Some (dk_public key)"
    using length_pub_entry [OF assms(1)] pub_entry_parts [OF assms(1)] prims_okD(8) [OF assms(1)] assms(1)
    by (simp add: cached_public_def get_works [OF assms(2)] assms(6) Let_def or_diff_0)
  with assms prims_okD(3,4) [OF assms(1)] show ?thesis
    by (simp add: load_cached_def get_works from_secret_cached_def secret_bytes_def)
qed

lemma load_cached_derives:
  assumes P: "prims_ok P" and s: "inv s" and key: "wf_key P key" "device_id_new did = Inr (dk_device_id key)"
    and c: "contents s KV_KEY = Some (secret_bytes P key)" "contents s KV_PUB = Some e" "pub_refused P key e"
  obtains s' where "load_cached P K s did = (Inr (Some key), s')" "inv s'"
    "contents s' = (contents s)(KV_PUB \<mapsto> own_pub P key)"
proof -
  obtain s' where s': "kv_put K s KV_PUB (own_pub P key) = (Inr (), s')" "inv s'"
    "contents s' = (contents s)(KV_PUB \<mapsto> own_pub P key)"
    using s all_storable by (rule put_runs)
  have "cached_public P K s (secret_bytes P key) = None"
    using c(3) P by (auto simp: cached_public_def get_works [OF s] c(2) Let_def or_diff_0 pub_refused_def)
  then have "load_cached P K s did = (Inr (Some key), s')"
    using key c(1) prims_okD(3,4) [OF P] s'(1)
    by (cases key) (simp add: load_cached_def get_works [OF s] from_secret_cached_def secret_bytes_def
        wf_key_def store_pub_def)
  with s'(2,3) show thesis by (intro that)
qed

lemma pub_cached_thenI:
  assumes "prims_ok P" "inv s" "contents s KV_PUB = Some (own_pub P first)" "f (own_pub P first)"
  shows "pub_cached_then P K s first f"
  using assms(3,4) length_pub_entry [OF assms(1)] pub_entry_parts(1) [OF assms(1)]
  by (simp add: pub_cached_then_def get_works [OF assms(2)] pubkey_sec1_uncompressed_def)

lemma first_cached_load:
  assumes P: "prims_ok P" and gen: "generate P fill seeded did = (Inr key, rng)"
  obtains s where "load_or_generate_cached P K fill new seeded did = (Inr key, s, rng)" "inv s"
    "contents s = [KV_KEY \<mapsto> secret_bytes P key, KV_PUB \<mapsto> own_pub P key]"
proof -
  have l: "load_cached P K new did = (Inr None, new)"
    by (simp add: load_cached_def get_works [OF new_inv] new_empty)
  obtain s1 where s1: "kv_put K new KV_KEY (secret_bytes P key) = (Inr (), s1)" "inv s1"
    "contents s1 = (contents new)(KV_KEY \<mapsto> secret_bytes P key)"
    using new_inv all_storable by (rule put_runs)
  obtain s where s: "kv_put K s1 KV_PUB (own_pub P key) = (Inr (), s)" "inv s"
    "contents s = (contents s1)(KV_PUB \<mapsto> own_pub P key)"
    using s1(2) all_storable by (rule put_runs)
  show thesis
    using s s1 by (intro that [of s]) (simp_all add: load_or_generate_cached_def l gen store_def store_pub_def new_empty)
qed

lemma loads_then_derives:
  assumes "prims_ok P" "inv s" "wf_key P key" "device_id_new (ascii ''c'') = Inr (dk_device_id key)"
    and "contents s = [KV_KEY \<mapsto> secret_bytes P key, KV_PUB \<mapsto> e]" "pub_refused P key e"
    and "\<And>s'. inv s' \<Longrightarrow> contents s' = [KV_KEY \<mapsto> secret_bytes P key, KV_PUB \<mapsto> own_pub P key] \<Longrightarrow> f key s'"
  shows "loads_then P K s f"
  using assms(1-4) _ _ assms(6)
proof (rule load_cached_derives)
  fix s'
  assume "load_cached P K s (ascii ''c'') = (Inr (Some key), s')" "inv s'"
    "contents s' = (contents s)(KV_PUB \<mapsto> own_pub P key)"
  with assms(7) [of s'] show ?thesis by (simp add: loads_then_def assms(5))
qed (simp_all add: assms(5))

lemma cached_load_test_passes:
  assumes P: "prims_ok P" and len: "\<And>s. inv s \<Longrightarrow> len s = card (dom (contents s))"
    and gen: "generate P fill seeded (ascii ''c'') = (Inr first, rng)"
    and other: "from_seed_for_tests P (ascii ''other'') (ascii ''c'') = Inr other"
    and forged: "pub_refused P first (own_pub P other)"
  shows "the_cached_load_is_the_same_key_and_refuses_a_stale_cache P K len fill new seeded"
proof -
  note wf = generate_Inr [OF gen]
  let ?m = "\<lambda>e. [KV_KEY \<mapsto> secret_bytes P first, KV_PUB \<mapsto> e]"
  let ?e = "flip 96 (own_pub P first)"
  have l97: "length (own_pub P first) = 97" using P by (rule length_pub_entry)
  have flipped: "pub_refused P first ?e"
  proof -
    have t: "take 65 ?e = take 65 (own_pub P first)" by (simp add: flip_def)
    have "?e \<noteq> own_pub P first" using l97 by (simp add: flip_differs)
    with t have "drop 65 ?e \<noteq> drop 65 (own_pub P first)" by (metis append_take_drop_id)
    with t show ?thesis using pub_entry_parts [OF P, of first] by (simp add: pub_refused_def)
  qed
  have short: "pub_refused P first (take 40 ?e)" using l97 by (simp add: pub_refused_def flip_def)
  have last: "put_then K s KV_PUB (take 40 ?e) (\<lambda>kv. loads_then P K kv (\<lambda>k _. key_did P k = key_did P first))"
    if "inv s" "contents s = ?m e" for s e
    using that(1) by (rule put_thenI) (rule loads_then_derives [OF P _ wf _ short]; simp add: that(2))
  have flip_step: "put_then K s KV_PUB ?e (\<lambda>kv. loads_then P K kv (\<lambda>k kv. key_did P k = key_did P first \<and>
      put_then K kv KV_PUB (take 40 ?e) (\<lambda>kv. loads_then P K kv (\<lambda>k _. key_did P k = key_did P first))))"
    if "inv s" "contents s = ?m e" for s e
    using that(1) by (rule put_thenI) (rule loads_then_derives [OF P _ wf _ flipped]; simp add: that(2) last)
  have forge_step: "put_then K s KV_PUB (own_pub P other) (\<lambda>kv. loads_then P K kv (\<lambda>again kv.
      key_did P again = key_did P first \<and> pub_cached_then P K kv first (\<lambda>entry. let entry = flip 96 entry in
        put_then K kv KV_PUB entry (\<lambda>kv. loads_then P K kv (\<lambda>k kv. key_did P k = key_did P first \<and>
          put_then K kv KV_PUB (take 40 entry) (\<lambda>kv. loads_then P K kv (\<lambda>k _. key_did P k = key_did P first)))))))"
    if "inv s" "contents s = ?m e" for s e
    using that(1)
    by (rule put_thenI)
      (rule loads_then_derives [OF P _ wf _ forged]; simp add: that(2) pub_cached_thenI [OF P] flip_step Let_def)
  obtain s where s: "load_or_generate_cached P K fill new seeded (ascii ''c'') = (Inr first, s, rng)" "inv s"
    "contents s = ?m (own_pub P first)"
    using P gen by (rule first_cached_load)
  have hit: "load_cached P K s (ascii ''c'') = (Inr (Some first), s)" "load P K s (ascii ''c'') = Inr (Some first)"
    using load_cached_hit [OF P s(2) wf] load_again [OF P s(2) wf] by (simp_all add: s(3))
  have none: "load_cached P K new (ascii ''c'') = (Inr None, new)"
    by (simp add: load_cached_def get_works [OF new_inv] new_empty)
  have other_pub: "pubkey_sec1_uncompressed P other @
      hmac_sha256 P (secret_bytes P other) [PUB_DOMAIN, pubkey_sec1_uncompressed P other] = own_pub P other"
    by (simp add: pub_entry_def Let_def)
  show ?thesis
    unfolding the_cached_load_is_the_same_key_and_refuses_a_stale_cache_def Let_def [of "pubkey_sec1_uncompressed P other"]
    using forge_step [OF s(2,3)] s(2,3)
    by (simp add: s(1) pub_cached_thenI [OF P] loads_then_def [of P K s] hit other other_pub none
        len [OF new_inv] new_empty)
qed

end

end
