(* ===== verification/Tests_Seal.thy ===== *)
theory Tests_Seal
  imports Tests_Stores
begin

text \<open>
  The unit tests of \<open>seal.rs\<close> as checks that compute, and that they pass for every cipher and every
  store with their contracts. What only a good cipher gives (no plaintext shows in the ciphertext,
  what was tampered with does not open) is a hypothesis on the bytes the test looks at.
\<close>

locale sealed_memory = memory_store K contents inv storable new
    + healthy_store K contents inv storable A fill
  for K :: "'s kv" and contents :: "'s \<Rightarrow> bytes \<Rightarrow> bytes option" and inv :: "'s \<Rightarrow> bool"
    and storable :: "bytes \<Rightarrow> bool" and new :: 's and A :: "'c aead" and fill :: "'r rng"

interpretation mem_sealed_memory: sealed_memory mem_kv map_of "\<lambda>_. True" "\<lambda>_. True" "[]" sample_aead sample_rng
  by unfold_locales

section \<open>The tests\<close>

definition tests_key :: bytes where "tests_key = replicate 32 7"

definition tests_sealed :: "'c aead \<Rightarrow> 's \<Rightarrow> 'r \<Rightarrow> ('s, 'r, 'c) sealed_kv" where
  "tests_sealed A new seeded = seal_new A new seeded (Some tests_key)"

text \<open>What lies under the sealed store.\<close>

definition tests_raw :: "'s kv \<Rightarrow> ('s, 'r, 'c) sealed_kv \<Rightarrow> bytes \<Rightarrow> bytes option" where
  "tests_raw K st key = (case kv_get K (sk_inner st) key 512 of Inr got \<Rightarrow> got | Inl _ \<Rightarrow> None)"

definition tests_get :: "'c aead \<Rightarrow> 's kv \<Rightarrow> ('s, 'r, 'c) sealed_kv \<Rightarrow> bytes \<Rightarrow> bytes option result" where
  "tests_get A K st key = seal_get A K st key 512"

text \<open>\<open>s.windows(n).any(|x| x == w)\<close>\<close>

definition any_window :: "bytes \<Rightarrow> bytes \<Rightarrow> bool" where
  "any_window w s \<longleftrightarrow> list_ex (\<lambda>i. take (length w) (drop i s) = w) [0..<length s + 1 - length w]"

text \<open>\<open>kv.put(..).unwrap()\<close> on the sealed store, and the rest of the test.\<close>

definition seals_then ::
  "'c aead \<Rightarrow> 's kv \<Rightarrow> 'r rng \<Rightarrow> ('s, 'r, 'c) sealed_kv \<Rightarrow> bytes \<Rightarrow> bytes
     \<Rightarrow> (('s, 'r, 'c) sealed_kv \<Rightarrow> bool) \<Rightarrow> bool" where
  "seals_then A K fill st k v f = (case seal_put A K fill st k v of (Inr _, st) \<Rightarrow> f st | (Inl _, _) \<Rightarrow> False)"

definition inner_put_then ::
  "'s kv \<Rightarrow> ('s, 'r, 'c) sealed_kv \<Rightarrow> bytes \<Rightarrow> bytes \<Rightarrow> (('s, 'r, 'c) sealed_kv \<Rightarrow> bool) \<Rightarrow> bool" where
  "inner_put_then K st k v f = put_then K (sk_inner st) k v (\<lambda>s. f (st\<lparr>sk_inner := s\<rparr>))"

abbreviation WIFI_PSK :: bytes where "WIFI_PSK \<equiv> ascii ''wifi.psk''"

definition a_value_reads_back_and_is_not_on_the_flash_in_the_clear ::
  "'c aead \<Rightarrow> 's kv \<Rightarrow> 'r rng \<Rightarrow> 's \<Rightarrow> 'r \<Rightarrow> bool" where
  "a_value_reads_back_and_is_not_on_the_flash_in_the_clear A K fill new seeded =
     seals_then A K fill (tests_sealed A new seeded) WIFI_PSK (ascii ''correct horse battery'') (\<lambda>kv.
       tests_get A K kv WIFI_PSK = Inr (Some (ascii ''correct horse battery'')) \<and>
       (case tests_raw K kv WIFI_PSK of
          None \<Rightarrow> False
        | Some stored \<Rightarrow>
            starts_with stored MAGIC \<and> length stored = 21 + OVERHEAD \<and> \<not> any_window (ascii ''horse'') stored) \<and>
       is_sealed K kv WIFI_PSK = Inr (Some True) \<and> is_sealed K kv (ascii ''absent'') = Inr None \<and>
       tests_get A K kv (ascii ''absent'') = Inr None)"

definition the_same_value_twice_is_two_different_ciphertexts ::
  "'c aead \<Rightarrow> 's kv \<Rightarrow> 'r rng \<Rightarrow> 's \<Rightarrow> 'r \<Rightarrow> bool" where
  "the_same_value_twice_is_two_different_ciphertexts A K fill new seeded =
     seals_then A K fill (tests_sealed A new seeded) (ascii ''a'') (ascii ''same'') (\<lambda>kv.
       let first = tests_raw K kv (ascii ''a'') in
       first \<noteq> None \<and>
       seals_then A K fill kv (ascii ''a'') (ascii ''same'') (\<lambda>kv.
         tests_raw K kv (ascii ''a'') \<notin> {None, first}))"

definition a_flipped_bit_a_moved_value_or_the_wrong_key_does_not_open ::
  "'c aead \<Rightarrow> 's kv \<Rightarrow> 'r rng \<Rightarrow> 's \<Rightarrow> 'r \<Rightarrow> 'r \<Rightarrow> 'r \<Rightarrow> bool" where
  "a_flipped_bit_a_moved_value_or_the_wrong_key_does_not_open A K fill new seeded1 seeded2 seeded3 =
     seals_then A K fill (tests_sealed A new seeded1) WIFI_PSK (ascii ''secret'') (\<lambda>kv.
       case tests_raw K kv WIFI_PSK of
         None \<Rightarrow> False
       | Some good \<Rightarrow>
           inner_put_then K kv WIFI_PSK (flip (length MAGIC) good) (\<lambda>kv.
           tests_get A K kv WIFI_PSK = Inl Crypto \<and>
           inner_put_then K kv WIFI_PSK (flip (length MAGIC + NONCE_LEN) good) (\<lambda>kv.
           tests_get A K kv WIFI_PSK = Inl Crypto \<and>
           inner_put_then K kv WIFI_PSK (flip (length good - 1) good) (\<lambda>kv.
           tests_get A K kv WIFI_PSK = Inl Crypto \<and>
           inner_put_then K kv (ascii ''name'') good (\<lambda>kv.
           tests_get A K kv (ascii ''name'') = Inl Crypto \<and>
           inner_put_then K (seal_new A new seeded2 (Some (replicate 32 8))) WIFI_PSK good (\<lambda>other.
             tests_get A K other WIFI_PSK = Inl Crypto) \<and>
           inner_put_then K (seal_new A new seeded3 None) WIFI_PSK good (\<lambda>keyless.
             tests_get A K keyless WIFI_PSK = Inl Crypto) \<and>
           inner_put_then K kv WIFI_PSK (take (OVERHEAD - 1) good) (\<lambda>kv.
             tests_get A K kv WIFI_PSK = Inl Corrupt))))))"

definition a_board_provisioned_in_the_clear_is_sealed_where_it_lies ::
  "'c aead \<Rightarrow> 's kv \<Rightarrow> 'r rng \<Rightarrow> 's \<Rightarrow> 'r \<Rightarrow> bool" where
  "a_board_provisioned_in_the_clear_is_sealed_where_it_lies A K fill new seeded =
     inner_put_then K (tests_sealed A new seeded) (ascii ''wifi.ssid'') (ascii ''home'') (\<lambda>kv.
     inner_put_then K kv WIFI_PSK (ascii ''hunter22'') (\<lambda>kv.
       tests_get A K kv WIFI_PSK = Inr (Some (ascii ''hunter22'')) \<and>
       is_sealed K kv WIFI_PSK = Inr (Some False) \<and>
       (case seal_in_place A K fill kv [ascii ''wifi.ssid'', WIFI_PSK, ascii ''absent''] of
          (Inl _, _) \<Rightarrow> False
        | (Inr n, kv) \<Rightarrow>
            n = 2 \<and> is_sealed K kv WIFI_PSK = Inr (Some True) \<and>
            tests_get A K kv WIFI_PSK = Inr (Some (ascii ''hunter22'')) \<and>
            tests_get A K kv (ascii ''wifi.ssid'') = Inr (Some (ascii ''home'')) \<and>
            fst (seal_in_place A K fill kv [ascii ''wifi.ssid'', WIFI_PSK]) = Inr 0)))"

definition with_no_key_nothing_is_sealed_and_it_says_so ::
  "'c aead \<Rightarrow> 's kv \<Rightarrow> 'r rng \<Rightarrow> 's \<Rightarrow> 'r \<Rightarrow> bool" where
  "with_no_key_nothing_is_sealed_and_it_says_so A K fill new seeded \<longleftrightarrow>
     (let kv = seal_new A new seeded None in
      \<not> sealing kv \<and>
      seals_then A K fill kv WIFI_PSK (ascii ''plain'') (\<lambda>kv.
        kv_get K (sk_inner kv) WIFI_PSK 64 = Inr (Some (ascii ''plain'')) \<and>
        fst (seal_in_place A K fill kv [WIFI_PSK]) = Inr 0 \<and>
        sealing (tests_sealed A new seeded)))"

definition sizes_are_refused_not_truncated :: "'c aead \<Rightarrow> 's kv \<Rightarrow> 'r rng \<Rightarrow> 's \<Rightarrow> 'r \<Rightarrow> bool" where
  "sizes_are_refused_not_truncated A K fill new seeded =
     (case seal_put A K fill (tests_sealed A new seeded) (ascii ''big'') (replicate (MAX_VALUE + 1) 1) of
        (res, kv) \<Rightarrow>
          res = Inl Unsupported \<and>
          seals_then A K fill kv (ascii ''max'') (replicate MAX_VALUE 2) (\<lambda>kv.
            (case tests_get A K kv (ascii ''max'') of Inr (Some v) \<Rightarrow> length v = MAX_VALUE | _ \<Rightarrow> False) \<and>
            seals_then A K fill kv (ascii ''k'') (ascii ''twelve bytes'') (\<lambda>kv.
              seal_get A K kv (ascii ''k'') 4 = Inl (BufferTooSmall 12) \<and>
              inner_put_then K kv (ascii ''legacy'') (replicate 400 3) (\<lambda>kv.
                (case seal_get A K kv (ascii ''legacy'') 400 of
                   Inr (Some v) \<Rightarrow> length v = 400
                 | _ \<Rightarrow> False)))))"

section \<open>They pass\<close>

lemma tests_sealed_fields [simp]:
  "sk_inner (tests_sealed A new seeded) = new" "sk_rng (tests_sealed A new seeded) = seeded"
  "sk_cipher (tests_sealed A new seeded) = Some (aead_new A tests_key)"
  by (simp_all add: tests_sealed_def seal_new_def)

abbreviation sealed_bytes :: "bytes \<Rightarrow> bytes \<Rightarrow> bytes \<Rightarrow> bytes" where
  "sealed_bytes nonce ct tag \<equiv> MAGIC @ nonce @ ct @ tag"

context sealed_memory
begin

lemma inner_put_thenI:
  assumes "inv (sk_inner st)"
    and "\<And>s. inv s \<Longrightarrow> contents s = (contents (sk_inner st))(k \<mapsto> v) \<Longrightarrow> f (st\<lparr>sk_inner := s\<rparr>)"
  shows "inner_put_then K st k v f"
  unfolding inner_put_then_def using assms(1) by (rule put_thenI) (rule assms(2))

lemma seals_thenI:
  assumes i: "inv (sk_inner st)" and c: "sk_cipher st = Some c" and v: "length v \<le> 256"
    and f: "fill (sk_rng st) 12 = (Inr nonce, r)" and e: "aead_encrypt A c nonce k v = Some (ct, tag)"
    and rest: "\<And>s. inv s \<Longrightarrow> contents s = (contents (sk_inner st))(k \<mapsto> sealed_bytes nonce ct tag) \<Longrightarrow>
      F (st\<lparr>sk_inner := s, sk_rng := r\<rparr>)"
  shows "seals_then A K fill st k v F"
  using i all_storable
proof (rule put_runs [where k = k and v = "sealed_bytes nonce ct tag"])
  fix s
  assume "kv_put K (sk_inner st) k (sealed_bytes nonce ct tag) = (Inr (), s)" "inv s"
    "contents s = (contents (sk_inner st))(k \<mapsto> sealed_bytes nonce ct tag)"
  with rest [of s] show ?thesis
    using c v f e by (simp add: seals_then_def seal_put_def)
qed

lemma sealed_put:
  assumes "length v \<le> 256"
  obtains nonce r ct tag where "fill rng 12 = (Inr nonce, r)" "aead_encrypt A c nonce k v = Some (ct, tag)"
    "length nonce = 12" "length ct = length v" "length tag = 16"
proof -
  obtain nonce r where f: "fill rng 12 = (Inr nonce, r)" using fill_works by blast
  obtain ct tag where e: "aead_encrypt A c nonce k v = Some (ct, tag)" using aead_okD(1) [OF cipher_ok assms] by blast
  show thesis
    by (rule that [OF f e rng_okD(1) [OF fill_ok f]]) (use aead_okD(2) [OF cipher_ok e] in simp_all)
qed

lemma get_sealed:
  assumes "inv (sk_inner st)" "contents (sk_inner st) k = Some (sealed_bytes nonce ct tag)"
    and "sk_cipher st = Some c" "aead_encrypt A c nonce k v = Some (ct, tag)" "length nonce = 12" "length v \<le> 256"
  shows "seal_get A K st k n = bounded v n"
proof -
  note e = sealed_entry [OF cipher_ok assms(4-6)]
  have l: "length (sealed_bytes nonce ct tag) \<le> 288" using e(3) by (simp add: sealed_form_def)
  then have "kv_get K (sk_inner st) k 288 = Inr (Some (sealed_bytes nonce ct tag))"
    using get_works [OF assms(1), of k 288] assms(2) by simp
  from seal_get_raw(1) [where A = A, OF this l] e(1,2) assms(3) show ?thesis by simp
qed

lemma get_clear:
  assumes "inv (sk_inner st)" "contents (sk_inner st) k = Some raw" "\<not> starts_with raw MAGIC"
  shows "seal_get A K st k n = bounded raw n"
  using assms(2,3) by (simp add: seal_get_def get_works [OF assms(1)] bounded_def)

lemma get_absent:
  "inv (sk_inner st) \<Longrightarrow> contents (sk_inner st) k = None \<Longrightarrow> seal_get A K st k n = Inr None"
  by (simp add: seal_get_def get_works)

lemma get_refused:
  assumes "inv (sk_inner st)" "contents (sk_inner st) k = Some raw" "starts_with raw MAGIC" "length raw \<le> 288"
    and "32 \<le> length raw" "\<And>c. sk_cipher st = Some c \<Longrightarrow> unseal_parts A c k raw = None"
  shows "seal_get A K st k n = Inl Crypto"
proof -
  have d: "32 \<le> length raw \<Longrightarrow> length raw - 32 + 16 = length raw - 16" by simp
  show ?thesis using assms(2-)
    by (cases "sk_cipher st")
      (simp_all add: d seal_get_def get_works [OF assms(1)] unseal_parts_def Let_def ok_or_def bind_res_def)
qed

lemma raw_read:
  "inv (sk_inner st) \<Longrightarrow> contents (sk_inner st) k = Some raw \<Longrightarrow> length raw \<le> 512 \<Longrightarrow>
     tests_raw K st k = Some raw"
  by (simp add: tests_raw_def get_works)

lemma no_key_passes: "with_no_key_nothing_is_sealed_and_it_says_so A K fill new seeded"
proof -
  obtain s where s: "kv_put K new WIFI_PSK (ascii ''plain'') = (Inr (), s)" "inv s"
    "contents s = (contents new)(WIFI_PSK \<mapsto> ascii ''plain'')"
    using new_inv all_storable by (rule put_runs)
  have "length (ascii ''plain'') \<le> 64" by (simp add: ascii_def)
  with s show ?thesis
    by (simp add: with_no_key_nothing_is_sealed_and_it_says_so_def seal_new_def seals_then_def seal_put_def
        sealing_def seal_in_place_def get_works tests_sealed_def Let_def)
qed

lemma sizes_pass: "sizes_are_refused_not_truncated A K fill new seeded"
proof -
  let ?st = "tests_sealed A new seeded" and ?c = "aead_new A tests_key"
  have big: "seal_put A K fill ?st (ascii ''big'') (replicate (MAX_VALUE + 1) 1) = (Inl Unsupported, ?st)"
    by (simp add: seal_put_def)
  obtain n1 r1 c1 t1 where m: "fill (sk_rng ?st) 12 = (Inr n1, r1)"
    "aead_encrypt A ?c n1 (ascii ''max'') (replicate MAX_VALUE 2) = Some (c1, t1)" "length n1 = 12"
    by (rule sealed_put [of "replicate MAX_VALUE 2" "sk_rng ?st" ?c "ascii ''max''"]) simp
  have l12: "length (ascii ''twelve bytes'') = 12" by (simp add: ascii_def)
  then have "length (ascii ''twelve bytes'') \<le> 256" by simp
  then obtain n2 r2 c2 t2 where k: "fill r1 12 = (Inr n2, r2)"
    "aead_encrypt A ?c n2 (ascii ''k'') (ascii ''twelve bytes'') = Some (c2, t2)" "length n2 = 12"
    by (rule sealed_put [of "ascii ''twelve bytes''" r1 ?c "ascii ''k''"]) blast
  have new: "inv (sk_inner ?st)" by (simp add: new_inv)
  show ?thesis
    unfolding sizes_are_refused_not_truncated_def big prod.case
  proof (intro conjI refl, rule seals_thenI [OF new _ _ m(1,2)])
    fix s
    let ?s1 = "?st\<lparr>sk_inner := s, sk_rng := r1\<rparr>"
    assume s: "inv s" "contents s = (contents (sk_inner ?st))(ascii ''max'' \<mapsto> sealed_bytes n1 c1 t1)"
    have g: "tests_get A K ?s1 (ascii ''max'') = bounded (replicate MAX_VALUE 2) 512"
      unfolding tests_get_def by (rule get_sealed [OF _ _ _ m(2,3)]) (simp_all add: s)
    have "seals_then A K fill ?s1 (ascii ''k'') (ascii ''twelve bytes'') (\<lambda>kv.
        seal_get A K kv (ascii ''k'') 4 = Inl (BufferTooSmall 12) \<and>
        inner_put_then K kv (ascii ''legacy'') (replicate 400 3) (\<lambda>kv.
          case seal_get A K kv (ascii ''legacy'') 400 of Inr (Some v) \<Rightarrow> length v = 400 | _ \<Rightarrow> False))"
    proof (rule seals_thenI [OF _ _ _ _ k(2)])
      fix s'
      let ?s2 = "?s1\<lparr>sk_inner := s', sk_rng := r2\<rparr>"
      assume s': "inv s'" "contents s' = (contents (sk_inner ?s1))(ascii ''k'' \<mapsto> sealed_bytes n2 c2 t2)"
      have "seal_get A K ?s2 (ascii ''k'') 4 = bounded (ascii ''twelve bytes'') 4"
        by (rule get_sealed [OF _ _ _ k(2,3)]) (simp_all add: s' l12)
      then have "seal_get A K ?s2 (ascii ''k'') 4 = Inl (BufferTooSmall 12)"
        by (simp add: bounded_def l12)
      moreover have "inner_put_then K ?s2 (ascii ''legacy'') (replicate 400 3) (\<lambda>kv.
          case seal_get A K kv (ascii ''legacy'') 400 of Inr (Some v) \<Rightarrow> length v = 400 | _ \<Rightarrow> False)"
        by (rule inner_put_thenI)
          (simp_all add: s' get_clear [where raw = "replicate 400 3"] bounded_def starts_with_def MAGIC_def)
      ultimately show "seal_get A K ?s2 (ascii ''k'') 4 = Inl (BufferTooSmall 12) \<and>
        inner_put_then K ?s2 (ascii ''legacy'') (replicate 400 3) (\<lambda>kv.
          case seal_get A K kv (ascii ''legacy'') 400 of Inr (Some v) \<Rightarrow> length v = 400 | _ \<Rightarrow> False)" ..
    qed (simp_all add: s k(1) l12)
    then show "(case tests_get A K ?s1 (ascii ''max'') of Inr (Some v) \<Rightarrow> length v = MAX_VALUE | _ \<Rightarrow> False) \<and>
      seals_then A K fill ?s1 (ascii ''k'') (ascii ''twelve bytes'') (\<lambda>kv.
        seal_get A K kv (ascii ''k'') 4 = Inl (BufferTooSmall 12) \<and>
        inner_put_then K kv (ascii ''legacy'') (replicate 400 3) (\<lambda>kv.
          case seal_get A K kv (ascii ''legacy'') 400 of Inr (Some v) \<Rightarrow> length v = 400 | _ \<Rightarrow> False))"
      by (simp add: g bounded_def)
  qed simp_all
qed

lemma sealed_length:
  assumes "fill rng 12 = (Inr nonce, r)" "aead_encrypt A c nonce k v = Some (ct, tag)"
  shows "length nonce = 12" "length (sealed_bytes nonce ct tag) = length v + 32"
    "starts_with (sealed_bytes nonce ct tag) MAGIC"
  using rng_okD(1) [OF fill_ok assms(1)] aead_okD(2) [OF cipher_ok assms(2)] by simp_all

lemma value_reads_back_passes:
  assumes draw: "fill seeded 12 = (Inr nonce, r)"
    and e: "aead_encrypt A (aead_new A tests_key) nonce WIFI_PSK (ascii ''correct horse battery'') = Some (ct, tag)"
    and hidden: "\<not> any_window (ascii ''horse'') (sealed_bytes nonce ct tag)"
  shows "a_value_reads_back_and_is_not_on_the_flash_in_the_clear A K fill new seeded"
proof -
  let ?st = "tests_sealed A new seeded" and ?v = "ascii ''correct horse battery''"
  have v: "length ?v = 21" by (simp add: ascii_def)
  note l = sealed_length [OF draw e]
  have other: "ascii ''absent'' \<noteq> WIFI_PSK" by (simp add: ascii_def)
  show ?thesis
    unfolding a_value_reads_back_and_is_not_on_the_flash_in_the_clear_def
  proof (rule seals_thenI [OF _ _ _ _ e])
    fix s
    let ?s = "?st\<lparr>sk_inner := s, sk_rng := r\<rparr>"
    assume s: "inv s" "contents s = (contents (sk_inner ?st))(WIFI_PSK \<mapsto> sealed_bytes nonce ct tag)"
    have "tests_get A K ?s WIFI_PSK = bounded ?v 512"
      unfolding tests_get_def by (rule get_sealed [OF _ _ _ e l(1)]) (simp_all add: s v)
    moreover have "tests_get A K ?s (ascii ''absent'') = Inr None"
      unfolding tests_get_def by (rule get_absent) (simp_all add: s other new_empty)
    moreover have "is_sealed K ?s WIFI_PSK = Inr (Some True)" "is_sealed K ?s (ascii ''absent'') = Inr None"
      using l by (simp_all add: is_sealed_exact s other new_empty sealed_form_def v)
    moreover have "tests_raw K ?s WIFI_PSK = Some (sealed_bytes nonce ct tag)"
      using l(2) by (intro raw_read) (simp_all add: s v)
    ultimately show "tests_get A K ?s WIFI_PSK = Inr (Some ?v) \<and>
       (case tests_raw K ?s WIFI_PSK of
          None \<Rightarrow> False
        | Some stored \<Rightarrow>
            starts_with stored MAGIC \<and> length stored = 21 + OVERHEAD \<and> \<not> any_window (ascii ''horse'') stored) \<and>
       is_sealed K ?s WIFI_PSK = Inr (Some True) \<and> is_sealed K ?s (ascii ''absent'') = Inr None \<and>
       tests_get A K ?s (ascii ''absent'') = Inr None"
      using l hidden v by (simp add: bounded_def)
  qed (simp_all add: new_inv v draw)
qed

lemma same_value_twice_passes:
  assumes draws: "fill seeded 12 = (Inr n1, r1)" "fill r1 12 = (Inr n2, r2)" "n1 \<noteq> n2"
  shows "the_same_value_twice_is_two_different_ciphertexts A K fill new seeded"
proof -
  let ?st = "tests_sealed A new seeded" and ?v = "ascii ''same''" and ?c = "aead_new A tests_key"
  have v: "length ?v = 4" by (simp add: ascii_def)
  then have short: "length ?v \<le> 256" by simp
  obtain c1 t1 where e1: "aead_encrypt A ?c n1 (ascii ''a'') ?v = Some (c1, t1)"
    using aead_okD(1) [OF cipher_ok short] by blast
  obtain c2 t2 where e2: "aead_encrypt A ?c n2 (ascii ''a'') ?v = Some (c2, t2)"
    using aead_okD(1) [OF cipher_ok short] by blast
  note l1 = sealed_length [OF draws(1) e1] and l2 = sealed_length [OF draws(2) e2]
  have differ: "sealed_bytes n2 c2 t2 \<noteq> sealed_bytes n1 c1 t1" using draws(3) l1(1) l2(1) by simp
  show ?thesis
    unfolding the_same_value_twice_is_two_different_ciphertexts_def Let_def
  proof (rule seals_thenI [OF _ _ _ _ e1])
    fix s
    let ?s1 = "?st\<lparr>sk_inner := s, sk_rng := r1\<rparr>"
    assume s: "inv s" "contents s = (contents (sk_inner ?st))(ascii ''a'' \<mapsto> sealed_bytes n1 c1 t1)"
    have first: "tests_raw K ?s1 (ascii ''a'') = Some (sealed_bytes n1 c1 t1)"
      using l1(2) by (intro raw_read) (simp_all add: s v)
    have "seals_then A K fill ?s1 (ascii ''a'') ?v
        (\<lambda>kv. tests_raw K kv (ascii ''a'') \<notin> {None, Some (sealed_bytes n1 c1 t1)})"
    proof (rule seals_thenI [OF _ _ _ _ e2])
      fix s'
      assume s': "inv s'" "contents s' = (contents (sk_inner ?s1))(ascii ''a'' \<mapsto> sealed_bytes n2 c2 t2)"
      have "tests_raw K (?s1\<lparr>sk_inner := s', sk_rng := r2\<rparr>) (ascii ''a'') = Some (sealed_bytes n2 c2 t2)"
        using l2(2) by (intro raw_read) (simp_all add: s' v)
      with differ show "tests_raw K (?s1\<lparr>sk_inner := s', sk_rng := r2\<rparr>) (ascii ''a'')
          \<notin> {None, Some (sealed_bytes n1 c1 t1)}" by simp
    qed (simp_all add: s v draws)
    with first show "tests_raw K ?s1 (ascii ''a'') \<noteq> None \<and>
        seals_then A K fill ?s1 (ascii ''a'') ?v (\<lambda>kv. tests_raw K kv (ascii ''a'') \<notin> {None, tests_raw K ?s1 (ascii ''a'')})"
      by simp
  qed (simp_all add: new_inv v draws)
qed

lemma seal_step:
  assumes i: "inv (sk_inner st)" and o: "all_open A contents st"
    and raw: "contents (sk_inner st) k = Some raw" "\<not> sealed_form raw" "length raw \<le> 256"
  obtains st' raw' where "\<And>ks m. seal_loop A K fill (k # ks) m st = seal_loop A K fill ks (m + 1) st'"
    "inv (sk_inner st')" "all_open A contents st'" "sk_cipher st' = sk_cipher st" "sealed_form raw'"
    "contents (sk_inner st') = (contents (sk_inner st))(k \<mapsto> raw')" "unseal A (sk_cipher st) k raw' = raw"
  using i o raw(3)
proof (rule healthy_put [where k = k])
  fix raw' st'
  assume p: "seal_put A K fill st k raw = (Inr (), st')" "inv (sk_inner st')" "all_open A contents st'"
    "sealed_form raw'" "sk_cipher st' = sk_cipher st"
    "contents (sk_inner st') = (contents (sk_inner st))(k \<mapsto> raw')" "unseal A (sk_cipher st) k raw' = raw"
  have "kv_get K (sk_inner st) k 256 = Inr (Some raw)"
    using raw(1,3) by (simp add: get_works [OF i])
  then have "seal_loop A K fill (k # ks) m st = seal_loop A K fill ks (m + 1) st'" for ks m
    using is_sealed_exact [OF i, of k] raw(1,2) p(1) by simp
  from this p(2,3,5,4,6,7) show thesis by (rule that)
qed

lemma board_passes: "a_board_provisioned_in_the_clear_is_sealed_where_it_lies A K fill new seeded"
proof -
  let ?st = "tests_sealed A new seeded" and ?ssid = "ascii ''wifi.ssid''" and ?absent = "ascii ''absent''"
  let ?home = "ascii ''home''" and ?psk = "ascii ''hunter22''"
  have keys: "?ssid \<noteq> WIFI_PSK" "?absent \<noteq> WIFI_PSK" "?absent \<noteq> ?ssid" by (simp_all add: ascii_def)
  have clear: "\<not> starts_with ?home MAGIC" "\<not> starts_with ?psk MAGIC"
    by (simp_all add: starts_with_def MAGIC_def ascii_def)
  then have plain: "\<not> sealed_form ?home" "\<not> sealed_form ?psk" by (simp_all add: sealed_form_def)
  have l: "length ?home = 4" "length ?psk = 8" by (simp_all add: ascii_def)
  show ?thesis
    unfolding a_board_provisioned_in_the_clear_is_sealed_where_it_lies_def
  proof (intro inner_put_thenI)
    fix s0 s
    let ?s = "?st\<lparr>sk_inner := s0\<rparr>\<lparr>sk_inner := s\<rparr>"
    assume s0: "contents s0 = (contents (sk_inner ?st))(?ssid \<mapsto> ?home)"
      and s: "inv s" "contents s = (contents (sk_inner (?st\<lparr>sk_inner := s0\<rparr>)))(WIFI_PSK \<mapsto> ?psk)"
    have c: "contents (sk_inner ?s) = [?ssid \<mapsto> ?home, WIFI_PSK \<mapsto> ?psk]" by (simp add: s s0 new_empty)
    have i: "inv (sk_inner ?s)" by (simp add: s)
    have o: "all_open A contents ?s"
      unfolding all_open_def c using plain by (auto simp: opens_def)
    have before: "tests_get A K ?s WIFI_PSK = Inr (Some ?psk)" "is_sealed K ?s WIFI_PSK = Inr (Some False)"
      using get_clear [OF i, of WIFI_PSK ?psk 512] clear(2) c is_sealed_exact [OF i, of WIFI_PSK] plain(2)
      by (simp_all add: tests_get_def bounded_def l)
    obtain st1 raw1 where st1: "\<And>ks m. seal_loop A K fill (?ssid # ks) m ?s = seal_loop A K fill ks (m + 1) st1"
      "inv (sk_inner st1)" "all_open A contents st1" "sk_cipher st1 = sk_cipher ?s" "sealed_form raw1"
      "contents (sk_inner st1) = (contents (sk_inner ?s))(?ssid \<mapsto> raw1)" "unseal A (sk_cipher ?s) ?ssid raw1 = ?home"
      by (rule seal_step [OF i o, of ?ssid ?home]) (use c keys plain l in auto)
    obtain st2 raw2 where st2: "\<And>ks m. seal_loop A K fill (WIFI_PSK # ks) m st1 = seal_loop A K fill ks (m + 1) st2"
      "inv (sk_inner st2)" "all_open A contents st2" "sk_cipher st2 = sk_cipher st1" "sealed_form raw2"
      "contents (sk_inner st2) = (contents (sk_inner st1))(WIFI_PSK \<mapsto> raw2)" "unseal A (sk_cipher st1) WIFI_PSK raw2 = ?psk"
      by (rule seal_step [OF st1(2,3), of WIFI_PSK ?psk]) (use c keys plain l st1(6) in auto)
    have c2: "contents (sk_inner st2) = [?ssid \<mapsto> raw1, WIFI_PSK \<mapsto> raw2]"
      using st1(6) st2(6) c keys by auto
    have flags: "is_sealed K st2 WIFI_PSK = Inr (Some True)" "is_sealed K st2 ?ssid = Inr (Some True)"
      "is_sealed K st2 ?absent = Inr None"
      using is_sealed_exact [OF st2(2)] c2 keys st1(5) st2(5) by simp_all
    have "seal_loop A K fill [?ssid, WIFI_PSK, ?absent] 0 ?s = (Inr 2, st2)"
      using st1(1) [of "[WIFI_PSK, ?absent]" 0] st2(1) [of "[?absent]" 1] flags(3) by simp
    moreover have "sk_cipher ?s \<noteq> None" "sk_cipher st2 \<noteq> None" using o st2(3) by (simp_all add: all_open_def)
    ultimately have first: "seal_in_place A K fill ?s [?ssid, WIFI_PSK, ?absent] = (Inr 2, st2)"
      and again: "fst (seal_in_place A K fill st2 [?ssid, WIFI_PSK]) = Inr 0"
      using flags by (simp_all add: seal_in_place_def)
    have after: "tests_get A K st2 WIFI_PSK = Inr (Some ?psk)" "tests_get A K st2 ?ssid = Inr (Some ?home)"
      using healthy_get [OF st2(2,3)] c2 keys st1(4,7) st2(4,7)
      by (simp_all add: tests_get_def sealed_contents_def bounded_def l)
    show "tests_get A K ?s WIFI_PSK = Inr (Some ?psk) \<and> is_sealed K ?s WIFI_PSK = Inr (Some False) \<and>
       (case seal_in_place A K fill ?s [?ssid, WIFI_PSK, ?absent] of
          (Inl _, _) \<Rightarrow> False
        | (Inr n, kv) \<Rightarrow>
            n = 2 \<and> is_sealed K kv WIFI_PSK = Inr (Some True) \<and>
            tests_get A K kv WIFI_PSK = Inr (Some ?psk) \<and> tests_get A K kv ?ssid = Inr (Some ?home) \<and>
            fst (seal_in_place A K fill kv [?ssid, WIFI_PSK]) = Inr 0)"
      using before after flags(1) again by (simp only: first prod.case sum.case)
  qed (simp_all add: new_inv)
qed

lemma get_cut_short:
  "inv (sk_inner st) \<Longrightarrow> contents (sk_inner st) k = Some raw \<Longrightarrow> starts_with raw MAGIC \<Longrightarrow>
     length raw < 32 \<Longrightarrow> sk_cipher st \<noteq> None \<Longrightarrow> seal_get A K st k n = Inl Corrupt"
  by (auto simp: seal_get_def get_works ok_or_def bind_res_def)

lemma flipped_or_moved_passes:
  fixes nonce ct tag
  defines "good \<equiv> sealed_bytes nonce ct tag"
  assumes draw: "fill seeded1 12 = (Inr nonce, r)"
    and e: "aead_encrypt A (aead_new A tests_key) nonce WIFI_PSK (ascii ''secret'') = Some (ct, tag)"
    and bits: "\<And>i. i \<in> {4, 16, length good - 1} \<Longrightarrow> unseal_parts A (aead_new A tests_key) WIFI_PSK (flip i good) = None"
    and moved: "unseal_parts A (aead_new A tests_key) (ascii ''name'') good = None"
    and wrong_key: "unseal_parts A (aead_new A (replicate 32 8)) WIFI_PSK good = None"
  shows "a_flipped_bit_a_moved_value_or_the_wrong_key_does_not_open A K fill new seeded1 seeded2 seeded3"
proof -
  let ?c = "Some (aead_new A tests_key)"
  have v: "length (ascii ''secret'') = 6" by (simp add: ascii_def)
  have l: "length good = 38" "starts_with good MAGIC" using sealed_length [OF draw e] v by (simp_all add: good_def)
  have flips: "starts_with (flip i good) MAGIC" "length (flip i good) = 38" if "i \<in> {4, 16, length good - 1}" for i
    using that l by (auto simp: flip_def starts_with_def)
  have name: "ascii ''name'' \<noteq> WIFI_PSK" by (simp add: ascii_def)
  have flipped: "tests_get A K st WIFI_PSK = Inl Crypto"
    if "inv (sk_inner st)" "sk_cipher st = ?c" "contents (sk_inner st) WIFI_PSK = Some (flip i good)"
      "i \<in> {4, 16, length good - 1}" for st :: "('s, 'r, 'c) sealed_kv" and i
    unfolding tests_get_def using that(1,3) flips [OF that(4)] bits [OF that(4)] that(2)
    by (intro get_refused [where raw = "flip i good"]) simp_all
  have refused: "tests_get A K st k = Inl Crypto"
    if "inv (sk_inner st)" "contents (sk_inner st) k = Some good"
      "\<And>c. sk_cipher st = Some c \<Longrightarrow> unseal_parts A c k good = None" for st :: "('s, 'r, 'c) sealed_kv" and k
    unfolding tests_get_def using that l by (intro get_refused [where raw = good]) simp_all
  have elsewhere: "tests_get A K st (ascii ''name'') = Inl Crypto"
    if "inv (sk_inner st)" "contents (sk_inner st) (ascii ''name'') = Some good" "sk_cipher st = ?c"
    for st :: "('s, 'r, 'c) sealed_kv"
    using that moved by (intro refused) simp_all
  have inner [simp]: "sk_inner (seal_new A new seeded key) = new" for seeded :: 'r and key
    by (simp add: seal_new_def)
  have other: "tests_get A K (seal_new A new seeded key\<lparr>sk_inner := s\<rparr>) WIFI_PSK = Inl Crypto"
    if "inv s" "contents s WIFI_PSK = Some good" "key \<in> {None, Some (replicate 32 8)}" for s key and seeded :: 'r
    using that wrong_key by (intro refused) (auto simp: seal_new_def)
  have cut: "tests_get A K st WIFI_PSK = Inl Corrupt"
    if "inv (sk_inner st)" "sk_cipher st = ?c" "contents (sk_inner st) WIFI_PSK = Some (take (OVERHEAD - 1) good)"
    for st :: "('s, 'r, 'c) sealed_kv"
    unfolding tests_get_def using that l by (intro get_cut_short [where raw = "take 31 good"]) (simp_all add: starts_with_def)
  show ?thesis
    unfolding a_flipped_bit_a_moved_value_or_the_wrong_key_does_not_open_def
  proof (rule seals_thenI [OF _ _ _ _ e])
    fix s
    let ?s = "tests_sealed A new seeded1\<lparr>sk_inner := s, sk_rng := r\<rparr>"
    assume s: "inv s" "contents s = (contents (sk_inner (tests_sealed A new seeded1)))(WIFI_PSK \<mapsto> sealed_bytes nonce ct tag)"
    have raw: "tests_raw K ?s WIFI_PSK = Some good"
      using l by (intro raw_read) (simp_all add: s good_def)
    show "case tests_raw K ?s WIFI_PSK of
         None \<Rightarrow> False
       | Some good \<Rightarrow>
           inner_put_then K ?s WIFI_PSK (flip (length MAGIC) good) (\<lambda>kv.
           tests_get A K kv WIFI_PSK = Inl Crypto \<and>
           inner_put_then K kv WIFI_PSK (flip (length MAGIC + NONCE_LEN) good) (\<lambda>kv.
           tests_get A K kv WIFI_PSK = Inl Crypto \<and>
           inner_put_then K kv WIFI_PSK (flip (length good - 1) good) (\<lambda>kv.
           tests_get A K kv WIFI_PSK = Inl Crypto \<and>
           inner_put_then K kv (ascii ''name'') good (\<lambda>kv.
           tests_get A K kv (ascii ''name'') = Inl Crypto \<and>
           inner_put_then K (seal_new A new seeded2 (Some (replicate 32 8))) WIFI_PSK good (\<lambda>other.
             tests_get A K other WIFI_PSK = Inl Crypto) \<and>
           inner_put_then K (seal_new A new seeded3 None) WIFI_PSK good (\<lambda>keyless.
             tests_get A K keyless WIFI_PSK = Inl Crypto) \<and>
           inner_put_then K kv WIFI_PSK (take (OVERHEAD - 1) good) (\<lambda>kv.
             tests_get A K kv WIFI_PSK = Inl Corrupt)))))"
      unfolding raw option.case
      by (intro inner_put_thenI conjI)
        (simp_all add: s(1) flipped [where i = 4] flipped [where i = 16] flipped [where i = "length good - 1"]
          elsewhere wrong_key other cut name new_inv)
  qed (simp_all add: new_inv v draw)
qed

end

end
