(* ===== verification/Tests_Settings.thy ===== *)
theory Tests_Settings
  imports Tests_Stores Delivery
begin

text \<open>
  The unit tests of \<open>settings_adoption.rs\<close> as checks that compute. The container is assembled as the
  test assembles it, the JSON texts written out. That \<open>serde_json\<close> reads those texts as the objects
  they spell is \<open>codecs_read\<close>; the tests' \<open>MemoryKv\<close> is the store \<open>K\<close>, empty at \<open>new\<close>.
\<close>

section \<open>The container\<close>

text \<open>JSON text, with \<open>|\<close> for the quotation mark.\<close>

definition jtext :: "string \<Rightarrow> rstr" where
  "jtext s = map (\<lambda>b. if b = 0x7C then 0x22 else b) (ascii s)"

definition content_text :: "rstr \<Rightarrow> rstr \<Rightarrow> u32 \<Rightarrow> rstr" where
  "content_text device owner roster =
     jtext ''{|caps|:[],|device_did|:|'' @ device @ jtext ''|,|exp|:0,|iat|:1760000000,|name|:|porch|,|owner_did|:|'' @
     owner @ jtext ''|,|roster_version|:'' @ decimal (unat roster) @ jtext '',|v|:1}''"

definition payload_text :: "rstr \<Rightarrow> rstr \<Rightarrow> rstr \<Rightarrow> rstr" where
  "payload_text iss ctx hash =
     jtext ''{|iss|:|'' @ iss @ jtext ''|,|iat|:1760000000,|exp|:null,|nonce|:null,|context|:|'' @ ctx @
     jtext ''|,|content_type|:|application/json|,|content_hash|:|'' @ hash @ jtext ''|,|content_preview|:null}''"

definition header_text :: rstr where
  "header_text = jtext ''{|alg|:|ES256|,|typ|:|JWT|}''"

definition tests_outer ::
  "('sk, 'vk, 'sig) prims \<Rightarrow> b64 \<Rightarrow> rstr \<Rightarrow> rstr \<Rightarrow> rstr \<Rightarrow> json" where
  "tests_outer P E content iss ctx =
     JObj [(ascii ''content'', JStr content),
       (ascii ''jws'', JStr (b64_encode E header_text @ ascii ''.'' @
          b64_encode E (payload_text iss ctx (b64_encode E (sha256 P content))) @ ascii ''.'' @
          b64_encode E (replicate 64 7)))]"

definition tests_container ::
  "('sk, 'vk, 'sig) prims \<Rightarrow> b64 \<Rightarrow> json_codec \<Rightarrow> rstr \<Rightarrow> rstr \<Rightarrow> rstr \<Rightarrow> u32 \<Rightarrow> rstr \<Rightarrow> bytes" where
  "tests_container P E J device owner iss roster ctx =
     js_write J (tests_outer P E (content_text device owner roster) iss ctx)"

section \<open>The DIDs\<close>

definition settings_did_of :: "('sk, 'vk, 'sig) prims \<Rightarrow> bs58 \<Rightarrow> ('sk, 'vk) device_key \<Rightarrow> rstr result" where
  "settings_did_of P B key = did_write B (key_did P key) 64"

definition settings_tests_setup :: "('sk, 'vk, 'sig) prims \<Rightarrow> bs58 \<Rightarrow> (rstr \<times> rstr \<times> rstr) result" where
  "settings_tests_setup P B =
     bind_res (bind_res (from_seed_for_tests P (ascii ''settings-adopt-device'') (ascii ''d'')) (settings_did_of P B)) (\<lambda>device.
     bind_res (bind_res (from_seed_for_tests P (ascii ''settings-adopt-owner'') (ascii ''o'')) (settings_did_of P B)) (\<lambda>owner.
     bind_res (bind_res (from_seed_for_tests P (ascii ''settings-adopt-other'') (ascii ''x'')) (settings_did_of P B)) (\<lambda>other.
       Inr (device, owner, other))))"

section \<open>The tests\<close>

text \<open>A delivery, \<open>apply\<close>, and the rest of the test on its answer and the two stores.\<close>

definition boot_then ::
  "('sk, 'vk, 'sig) prims \<Rightarrow> bs58 \<Rightarrow> b64 \<Rightarrow> json_codec \<Rightarrow> 's kv \<Rightarrow> rstr \<Rightarrow> 's \<Rightarrow> 's \<Rightarrow> bytes
     \<Rightarrow> (outcome result \<Rightarrow> 's \<Rightarrow> 's \<Rightarrow> bool) \<Rightarrow> bool" where
  "boot_then P B E J K device s i container f =
     put_then K s SETTINGS_ADOPT container (\<lambda>s.
       case apply_settings P B E J K K s i device of (out, s, i) \<Rightarrow> f out s i)"

definition forgetting_the_owner_keeps_the_key_and_the_next_owner_adopts_afresh ::
  "('sk, 'vk, 'sig) prims \<Rightarrow> bs58 \<Rightarrow> b64 \<Rightarrow> json_codec \<Rightarrow> 's kv \<Rightarrow> 's \<Rightarrow> bool" where
  "forgetting_the_owner_keeps_the_key_and_the_next_owner_adopts_afresh P B E J K new =
     (case settings_tests_setup P B of
        Inl _ \<Rightarrow> False
      | Inr (device, owner, other) \<Rightarrow>
        put_then K new (ascii ''mid.devkey'') (replicate 32 7) (\<lambda>i.
          case forget K i of
            (Inr False, i) \<Rightarrow>
              boot_then P B E J K device new i (tests_container P E J device owner owner 1 STATEMENT_CONTEXT) (\<lambda>out s i.
                (case out of Inl _ \<Rightarrow> False | Inr _ \<Rightarrow> True) \<and>
                (case stored P B E J K i device of Inr (Some _) \<Rightarrow> True | _ \<Rightarrow> False) \<and>
                (case forget K i of
                   (Inr True, i) \<Rightarrow>
                     list_all (\<lambda>k. kv_get K i k ADOPT_MAX = Inr None)
                       [KV_ADOPTION, KV_ADOPTION_KIND, KV_OWNER_PIN, KV_PIN_PROVISIONAL] \<and>
                     (case kv_get K i (ascii ''mid.devkey'') ADOPT_MAX of Inr (Some v) \<Rightarrow> length v = 32 | _ \<Rightarrow> False) \<and>
                     stored P B E J K i device = Inr None \<and>
                     boot_then P B E J K device s i (tests_container P E J device other other 1 STATEMENT_CONTEXT)
                       (\<lambda>out _ _. case out of Inr (Adopted owner_did _ _) \<Rightarrow> owner_did = other | _ \<Rightarrow> False)
                 | _ \<Rightarrow> False))
          | _ \<Rightarrow> False))"

definition nothing_in_the_settings_is_nothing ::
  "('sk, 'vk, 'sig) prims \<Rightarrow> bs58 \<Rightarrow> b64 \<Rightarrow> json_codec \<Rightarrow> 's kv \<Rightarrow> 's \<Rightarrow> bool" where
  "nothing_in_the_settings_is_nothing P B E J K new =
     (case settings_tests_setup P B of
        Inl _ \<Rightarrow> False
      | Inr (device, _, _) \<Rightarrow> fst (apply_settings P B E J K K new new device) = Inr Nothing)"

definition a_first_adoption_is_pinned_provisionally_stored_verbatim_and_cleared ::
  "('sk, 'vk, 'sig) prims \<Rightarrow> bs58 \<Rightarrow> b64 \<Rightarrow> json_codec \<Rightarrow> 's kv \<Rightarrow> 's \<Rightarrow> bool" where
  "a_first_adoption_is_pinned_provisionally_stored_verbatim_and_cleared P B E J K new =
     (case settings_tests_setup P B of
        Inl _ \<Rightarrow> False
      | Inr (device, owner, _) \<Rightarrow>
          let c = tests_container P E J device owner owner 1 STATEMENT_CONTEXT in
          boot_then P B E J K device new new c (\<lambda>out s i.
            out = Inr (Adopted owner 1 True) \<and>
            kv_get K i KV_ADOPTION ADOPT_MAX = Inr (Some c) \<and>
            kv_get K i KV_ADOPTION_KIND ADOPT_MAX = Inr (Some KIND_MATA_STATEMENT) \<and>
            (case (stored_pin K i, did_parse P B owner) of
               (Inr (Some pin), Inr d) \<Rightarrow> genesis_pubkey pin = did_pubkey d
             | _ \<Rightarrow> False) \<and>
            (case kv_get K i KV_PIN_PROVISIONAL ADOPT_MAX of Inr (Some v) \<Rightarrow> length v = 1 | _ \<Rightarrow> False) \<and>
            kv_get K s SETTINGS_ADOPT ADOPT_MAX = Inr None))"

definition the_same_owner_rehomes_another_is_refused_and_both_are_cleared ::
  "('sk, 'vk, 'sig) prims \<Rightarrow> bs58 \<Rightarrow> b64 \<Rightarrow> json_codec \<Rightarrow> 's kv \<Rightarrow> 's \<Rightarrow> bool" where
  "the_same_owner_rehomes_another_is_refused_and_both_are_cleared P B E J K new =
     (case settings_tests_setup P B of
        Inl _ \<Rightarrow> False
      | Inr (device, owner, other) \<Rightarrow>
          let offers = (\<lambda>who roster s i. boot_then P B E J K device s i
                (tests_container P E J device who who roster STATEMENT_CONTEXT)) in
          offers owner 2 new new (\<lambda>out s i. (case out of Inl _ \<Rightarrow> False | Inr _ \<Rightarrow> True) \<and>
          offers owner 3 s i (\<lambda>out s i. (case out of Inr (Rehomed _ v _) \<Rightarrow> v = 3 | _ \<Rightarrow> False) \<and>
          offers owner 2 s i (\<lambda>out s i.
            out = Inr (Refused ''the adoption's roster is older than the pinned one'') \<and>
          offers other 9 s i (\<lambda>out s i.
            out = Inr (Refused ''the device is pinned to another owner'') \<and>
            kv_get K s SETTINGS_ADOPT 8 = Inr None \<and>
            (case stored_pin K i of Inr (Some pin) \<Rightarrow> roster_version pin = 3 | _ \<Rightarrow> False))))))"

definition an_oversize_adoption_is_refused_and_cleared ::
  "('sk, 'vk, 'sig) prims \<Rightarrow> bs58 \<Rightarrow> b64 \<Rightarrow> json_codec \<Rightarrow> 's kv \<Rightarrow> 's \<Rightarrow> bool" where
  "an_oversize_adoption_is_refused_and_cleared P B E J K new =
     (case settings_tests_setup P B of
        Inl _ \<Rightarrow> False
      | Inr (device, _, _) \<Rightarrow>
          boot_then P B E J K device new new (replicate (ADOPT_MAX + 1) 0x78) (\<lambda>out s _.
            out = Inr (Refused ''the adoption is longer than 8 KiB'') \<and>
            kv_get K s SETTINGS_ADOPT 8 = Inr None))"

definition apply_takes_unsized_stores ::
  "('sk, 'vk, 'sig) prims \<Rightarrow> bs58 \<Rightarrow> b64 \<Rightarrow> json_codec \<Rightarrow> 's kv \<Rightarrow> 's \<Rightarrow> bool" where
  "apply_takes_unsized_stores P B E J K new \<longleftrightarrow>
     fst (apply_settings P B E J K K new new (ascii ''did:mata:x'')) = Inr Nothing"

definition the_stored_adoption_is_read_back_for_the_status ::
  "('sk, 'vk, 'sig) prims \<Rightarrow> bs58 \<Rightarrow> b64 \<Rightarrow> json_codec \<Rightarrow> 's kv \<Rightarrow> 's \<Rightarrow> bool" where
  "the_stored_adoption_is_read_back_for_the_status P B E J K new =
     (case settings_tests_setup P B of
        Inl _ \<Rightarrow> False
      | Inr (device, owner, other) \<Rightarrow>
          let c = tests_container P E J device owner owner 1 STATEMENT_CONTEXT in
          stored P B E J K new device = Inr None \<and>
          boot_then P B E J K device new new c (\<lambda>out _ i.
            (case out of Inl _ \<Rightarrow> False | Inr _ \<Rightarrow> True) \<and>
            (case stored P B E J K i device of
               Inr (Some got) \<Rightarrow>
                 got = \<lparr>so_owner_did = owner, so_kind = KIND_MATA_STATEMENT, so_bytes = c, so_provisional = True\<rparr> \<and>
                 sad_owner_did (stored_as_status got) = owner
             | _ \<Rightarrow> False) \<and>
            stored P B E J K i other = Inr None) \<and>
          (case from_seed_for_tests P (ascii ''settings-adopt-owner'') (ascii ''o'') of
             Inl _ \<Rightarrow> False
           | Inr owner_key \<Rightarrow>
               let fields = \<lparr>af_device_did = device, af_owner_did = owner,
                     af_owner_genesis_pubkey = did_pubkey (key_did P owner_key),
                     af_hub_endpoint_id = replicate 32 0, af_hub_relay = [], af_hub_host = [],
                     af_caps = CapSlice [], af_roster_version = 1, af_issued_at = 1700000000, af_expires_at = 0\<rparr> in
               case sign_into P (key_signer P owner_key) fields (replicate (canonical_len fields + 64) 0) of
                 (Inl _, _) \<Rightarrow> False
               | (Inr n, out) \<Rightarrow>
                   let env = take n out in
                   put_then K new KV_ADOPTION env (\<lambda>i.
                     case stored P B E J K i device of
                       Inr (Some got) \<Rightarrow>
                         so_kind got = KIND_ADOPTION_V1 \<and> so_owner_did got = owner \<and> \<not> so_provisional got \<and>
                         so_bytes got = env
                     | _ \<Rightarrow> False)))"

text \<open>\<open>str::replace\<close>, for a pattern that is not empty.\<close>

fun str_replace :: "rstr \<Rightarrow> rstr \<Rightarrow> rstr \<Rightarrow> rstr" where
  "str_replace pat to [] = []"
| "str_replace pat to (x # xs) =
     (if pat \<noteq> [] \<and> starts_with (x # xs) pat
      then to @ str_replace pat to (drop (length pat - 1) xs) else x # str_replace pat to xs)"

definition the_structural_checks_each_refuse ::
  "('sk, 'vk, 'sig) prims \<Rightarrow> bs58 \<Rightarrow> b64 \<Rightarrow> json_codec \<Rightarrow> bool" where
  "the_structural_checks_each_refuse P B E J =
     (case settings_tests_setup P B of
        Inl _ \<Rightarrow> False
      | Inr (device, owner, other) \<Rightarrow>
          let refuse = (\<lambda>c why. check_statement P B E J c device = Inl why);
              container = tests_container P E J;
              nope = ascii ''did:mata:nope'' in
          refuse (container other owner owner 1 STATEMENT_CONTEXT) ''the adoption is for another device'' \<and>
          refuse (container device owner other 1 STATEMENT_CONTEXT)
            ''the content's owner is not the statement's issuer'' \<and>
          refuse (container device owner owner 1 (ascii ''some-other-context''))
            ''the statement's context is not janus-adoption-v1'' \<and>
          refuse (ascii ''not json'') ''the container is not JSON'' \<and>
          refuse (container device nope nope 1 STATEMENT_CONTEXT) ''the owner is not a key did:mata'' \<and>
          (case js_parse J (container device owner owner 1 STATEMENT_CONTEXT) of
             Some (JObj [(content_key, JStr content), jws]) \<Rightarrow>
               let edited = str_replace (jtext ''|porch|'') (jtext ''|attic|'') content in
               refuse (js_write J (JObj [(content_key, JStr edited), jws]))
                 ''the content_hash does not match the content''
           | _ \<Rightarrow> False))"

section \<open>What the codecs do with the tests' texts\<close>

text \<open>Text that JSON writes as it is: printable ASCII, neither the quotation mark nor the backslash.\<close>

definition plain_text :: "rstr \<Rightarrow> bool" where
  "plain_text s \<longleftrightarrow> (\<forall>x \<in> set s. 0x20 \<le> x \<and> x < 0x7F \<and> x \<noteq> 0x22 \<and> x \<noteq> 0x5C)"

definition content_value :: "rstr \<Rightarrow> rstr \<Rightarrow> u32 \<Rightarrow> json" where
  "content_value device owner roster = JObj
     [(ascii ''caps'', JArr []), (ascii ''device_did'', JStr device), (ascii ''exp'', JPos 0),
      (ascii ''iat'', JPos 1760000000), (ascii ''name'', JStr (ascii ''porch'')), (ascii ''owner_did'', JStr owner),
      (ascii ''roster_version'', JPos (ucast roster)), (ascii ''v'', JPos 1)]"

definition payload_value :: "rstr \<Rightarrow> rstr \<Rightarrow> rstr \<Rightarrow> json" where
  "payload_value iss ctx hash = JObj
     [(ascii ''iss'', JStr iss), (ascii ''iat'', JPos 1760000000), (ascii ''exp'', JNull), (ascii ''nonce'', JNull),
      (ascii ''context'', JStr ctx), (ascii ''content_type'', JStr (ascii ''application/json'')),
      (ascii ''content_hash'', JStr hash), (ascii ''content_preview'', JNull)]"

definition header_value :: json where
  "header_value = JObj [(ascii ''alg'', JStr (ascii ''ES256'')), (ascii ''typ'', JStr (ascii ''JWT''))]"

definition codecs_read :: "('sk, 'vk, 'sig) prims \<Rightarrow> bs58 \<Rightarrow> b64 \<Rightarrow> json_codec \<Rightarrow> bool" where
  "codecs_read P B E J \<longleftrightarrow> b64_ok E \<and> codec_ok J \<and>
     (\<forall>b. plain_text (b64_encode E b)) \<and> (\<forall>b n t. b58_encode B b n = Some t \<longrightarrow> plain_text t) \<and>
     (\<forall>device owner roster. plain_text device \<longrightarrow> plain_text owner \<longrightarrow>
        js_parse J (content_text device owner roster) = Some (content_value device owner roster)) \<and>
     (\<forall>iss ctx hash. plain_text iss \<longrightarrow> plain_text ctx \<longrightarrow> plain_text hash \<longrightarrow>
        js_parse J (payload_text iss ctx hash) = Some (payload_value iss ctx hash)) \<and>
     js_parse J header_text = Some header_value \<and>
     (\<forall>device owner roster. length device \<le> 64 \<longrightarrow> length owner \<le> 64 \<longrightarrow>
        length (tests_container P E J device owner owner roster STATEMENT_CONTEXT) \<le> ADOPT_MAX)"

lemma codecs_readD:
  assumes "codecs_read P B E J"
  shows "b64_ok E" "codec_ok J" "plain_text (b64_encode E b)" "b58_encode B b n = Some t \<Longrightarrow> plain_text t"
    and "plain_text device \<Longrightarrow> plain_text owner \<Longrightarrow>
      js_parse J (content_text device owner roster) = Some (content_value device owner roster)"
    and "plain_text iss \<Longrightarrow> plain_text ctx \<Longrightarrow> plain_text hash \<Longrightarrow>
      js_parse J (payload_text iss ctx hash) = Some (payload_value iss ctx hash)"
    and "js_parse J header_text = Some header_value"
    and "length device \<le> 64 \<Longrightarrow> length owner \<le> 64 \<Longrightarrow>
      length (tests_container P E J device owner owner roster STATEMENT_CONTEXT) \<le> ADOPT_MAX"
  using assms unfolding codecs_read_def by blast+

lemma plain_text_append [simp]: "plain_text (s @ t) \<longleftrightarrow> plain_text s \<and> plain_text t"
  by (auto simp: plain_text_def)

lemma plain_text_ascii: "plain_text s \<Longrightarrow> \<forall>x \<in> set s. x < 0x80"
  unfolding plain_text_def by (auto intro: order.strict_trans)

lemma plain_prefix: "plain_text DID_PREFIX" "plain_text STATEMENT_CONTEXT"
  by (simp_all add: plain_text_def DID_PREFIX_def STATEMENT_CONTEXT_def ascii_def)

lemma decimal_ascii: "\<forall>x \<in> set (decimal n). x < 0x80"
  by (auto dest!: decimal_digits intro: order.strict_trans1)

lemma jtext_ascii: "list_all (\<lambda>c. (of_char c :: u8) < 0x80) t \<Longrightarrow> x \<in> set (jtext t) \<Longrightarrow> x < 0x80"
  by (auto simp: jtext_def ascii_def list_all_iff)

lemma content_text_ascii:
  assumes "plain_text device" "plain_text owner"
  shows "\<forall>x \<in> set (content_text device owner roster). x < 0x80"
  unfolding content_text_def
  using plain_text_ascii [OF assms(1)] plain_text_ascii [OF assms(2)] decimal_ascii [of "unat roster"]
  by (simp add: ball_Un) (auto intro!: jtext_ascii)

lemma outer_read:
  assumes C: "codecs_read P B E J" and plain: "plain_text device" "plain_text owner"
  shows "js_parse J (js_write J (tests_outer P E (content_text device owner roster) iss ctx)) =
    Some (tests_outer P E (content_text device owner roster) iss ctx)"
proof (rule codec_okD [OF codecs_readD(2) [OF C]])
  have e: "\<forall>x \<in> set (b64_encode E b). x < 0x80" for b
    using codecs_readD(3) [OF C] by (rule plain_text_ascii)
  have "utf8_valid (content_text device owner roster)"
    using content_text_ascii [OF plain] by (rule utf8_valid_ascii_bytes)
  moreover have "utf8_valid (b64_encode E a @ ascii ''.'' @ b64_encode E b @ ascii ''.'' @ b64_encode E c)" for a b c
    using e by (intro utf8_valid_ascii_bytes) (auto simp: ascii_def)
  ultimately show "json_plain JSON_DEPTH (tests_outer P E (content_text device owner roster) iss ctx)"
    by (simp add: tests_outer_def utf8_valid_ascii_text)
qed

lemma container_checked:
  assumes C: "codecs_read P B E J"
    and plain: "plain_text device" "plain_text owner" "plain_text iss" "plain_text ctx"
  shows "check_statement P B E J (tests_container P E J device owner iss roster ctx) my_did =
    (if ctx \<noteq> STATEMENT_CONTEXT then Inl ''the statement's context is not janus-adoption-v1''
     else if device \<noteq> my_did then Inl ''the adoption is for another device''
     else if owner \<noteq> iss then Inl ''the content's owner is not the statement's issuer''
     else case did_parse P B owner of
       Inl _ \<Rightarrow> Inl ''the owner is not a key did:mata''
     | Inr d \<Rightarrow> Inr \<lparr>ck_owner_did = owner, ck_pin = \<lparr>genesis_pubkey = did_pubkey d, roster_version = roster\<rparr>\<rparr>)"
proof -
  let ?c = "content_text device owner roster"
  have b: "b64_decode E (b64_encode E x) = Some x" "0x2E \<notin> set (b64_encode E x)" for x
    using b64_okD(1,4) [OF codecs_readD(1) [OF C]] by blast+
  have u: "unat (ucast roster :: u64) < 2 ^ 32" "ucast (ucast roster :: u64) = roster"
    using unsigned_less [of roster, where 'a = nat]
    by (simp_all add: unsigned_ucast_eq take_bit_nat_eq_self take_bit_word_eq_self)
  have sp: "split_on 0x2E (b64_encode E x @ ascii ''.'' @ b64_encode E y @ ascii ''.'' @ b64_encode E z) =
      [b64_encode E x, b64_encode E y, b64_encode E z]" for x y z
    using b(2) by (simp add: ascii_def split_on_append split_on_no_sep)
  have o: "js_parse J (tests_container P E J device owner iss roster ctx) =
      Some (tests_outer P E ?c iss ctx)"
    unfolding tests_container_def by (rule outer_read [OF C plain(1,2)])
  have "json_text (tests_outer P E ?c iss ctx) ''content'' = Some ?c"
    "(json_text (tests_outer P E ?c iss ctx) ''jws'' \<bind> (\<lambda>t. Some (split_on 0x2E t))) =
      Some [b64_encode E header_text, b64_encode E (payload_text iss ctx (b64_encode E (sha256 P ?c))), b64_encode E (replicate 64 7)]"
    by (simp_all add: tests_outer_def json_text_def sp)
  then obtain jws where outer: "json_text (tests_outer P E ?c iss ctx) ''content'' = Some ?c"
    "json_text (tests_outer P E ?c iss ctx) ''jws'' = Some jws"
    "split_on 0x2E jws = [b64_encode E header_text,
      b64_encode E (payload_text iss ctx (b64_encode E (sha256 P ?c))), b64_encode E (replicate 64 7)]"
    by (auto simp: bind_eq_Some_conv)
  have header: "json_text header_value ''alg'' = Some (ascii ''ES256'')" "json_text header_value ''typ'' = Some (ascii ''JWT'')"
    by (simp_all add: json_text_def header_value_def ascii_def)
  have payload: "json_text (payload_value iss ctx h) ''context'' = Some ctx" "json_text (payload_value iss ctx h) ''iss'' = Some iss"
    "json_text (payload_value iss ctx h) ''content_hash'' = Some h" for iss ctx h
    by (simp_all add: json_text_def payload_value_def ascii_def)
  have body: "(json_get (content_value device owner roster) (ascii ''v'') \<bind> as_u64) = Some 1"
    "json_text (content_value device owner roster) ''device_did'' = Some device"
    "json_text (content_value device owner roster) ''owner_did'' = Some owner"
    "(json_get (content_value device owner roster) (ascii ''roster_version'') \<bind> as_u64) = Some (ucast roster)"
    for device owner
    by (simp_all add: json_text_def content_value_def ascii_def)
  show ?thesis
    unfolding check_statement_def
    using u(1) by (auto simp: o outer b header codecs_readD(7) [OF C] codecs_readD(3,6) [OF C]
        payload codecs_readD(5) [OF C] plain plain_prefix(2) body u(2) split: sum.splits)
qed

text \<open>The three DIDs of \<open>setup\<close>.\<close>

lemma tests_did_text:
  assumes C: "codecs_read P B E J" and P: "prims_ok P" "bs58_ok B"
    and k: "from_seed_for_tests P seed device_id = Inr k"
  obtains s where "bind_res (from_seed_for_tests P seed device_id) (settings_did_of P B) = Inr s"
    "did_parse P B s = Inr (key_did P k)" "plain_text s" "length s \<le> 64"
proof -
  have v: "valid_did P (key_did P k)" using valid_from_verifying_key [OF P(1)] by (simp add: key_did_def)
  then have len: "length (did_pubkey (key_did P k)) = PUBKEY_LEN" by (simp add: valid_did_def)
  from P(2) len show thesis
  proof (rule bs58_text)
    fix t assume t: "t \<noteq> []" "length t \<le> MAX_BASE58_LEN" "\<forall>x \<in> set t. x < 0x80"
      "\<And>n. b58_encode B (did_pubkey (key_did P k)) n = (if length t \<le> n then Some t else None)"
      "b58_decode B t (PUBKEY_LEN + 1) = Some (did_pubkey (key_did P k))"
    have p: "did_parse P B (DID_PREFIX @ t) = Inr (key_did P k)"
      by (rule parse_strings) (rule from_base58_text [OF v t(1,2,5)])
    have l: "length DID_PREFIX = 9" by (simp add: DID_PREFIX_def ascii_def)
    with t(2) have w: "did_write B (key_did P k) 64 = Inr (DID_PREFIX @ t)"
      by (simp add: did_write_def write_with_prefix_text [OF ascii_prefixes(1) t(3,1,4)])
    have "b58_encode B (did_pubkey (key_did P k)) (length t) = Some t" by (simp add: t(4))
    with C have "plain_text t" by (rule codecs_readD(4))
    with p w l t(2) plain_prefix(1) show thesis
      by (intro that [of "DID_PREFIX @ t"]) (simp_all add: k settings_did_of_def)
  qed
qed

section \<open>The steps of a test\<close>

context memory_store
begin

lemma boot_takes:
  assumes s: "inv s" and i: "inv i" and c: "contents s SETTINGS_ADOPT = Some c" "length c \<le> ADOPT_MAX"
    and check: "check_statement P B E J c device = Inr ck" and pin: "stored_pin K i = Inr pinned"
    and ok: "pin_allows pinned (genesis_pubkey (ck_pin ck)) (roster_version (ck_pin ck))"
  obtains s' i' where "apply_settings P B E J K K s i device = (Inr (owner_taken pinned ck), s', i')"
    "inv s'" "inv i'" "contents s' = (contents s)(SETTINGS_ADOPT := None)"
    "contents i' = contents i ++ map_of (rev (owner_entries ck c))"
proof -
  have st: "\<forall>(k, v) \<in> set (owner_entries ck c). storable v" by (simp add: all_storable)
  obtain i' where i': "put_each K i (owner_entries ck c) = (Inr (), i')"
    using put_each_runs [OF i st] by blast
  obtain s' where s': "kv_remove K s SETTINGS_ADOPT = (Inr (contents s SETTINGS_ADOPT \<noteq> None), s')" "inv s'"
    "contents s' = (contents s)(SETTINGS_ADOPT := None)"
    using s by (rule remove_runs)
  have "kv_get K s SETTINGS_ADOPT ADOPT_MAX = Inr (Some c)" using c by (simp add: get_works [OF s])
  from apply_admitted [OF this check pin ok] i' s'(1)
  have "apply_settings P B E J K K s i device = (Inr (owner_taken pinned ck), s', i')"
    by (simp add: clear_then_def)
  with s' put_each_done [OF i st i'] show thesis by (intro that [of s' i']) auto
qed

lemma boot_refuses:
  assumes s: "inv s" and d: "boot_decision P B E J K K s i device = Refuse why"
  obtains s' where "apply_settings P B E J K K s i device = (Inr (Refused why), s', i)" "inv s'"
    "contents s' = (contents s)(SETTINGS_ADOPT := None)"
proof -
  obtain s' where s': "kv_remove K s SETTINGS_ADOPT = (Inr (contents s SETTINGS_ADOPT \<noteq> None), s')" "inv s'"
    "contents s' = (contents s)(SETTINGS_ADOPT := None)"
    using s by (rule remove_runs)
  with d show thesis by (intro that [of s']) (simp_all add: apply_decided clear_then_def)
qed

lemma pin_none: "inv s \<Longrightarrow> contents s KV_OWNER_PIN = None \<Longrightarrow> stored_pin K s = Inr None"
  by (simp add: stored_pin_def get_works)

lemma pin_taken:
  assumes "inv s" "contents s = m ++ map_of (rev (owner_entries ck c))" "length (genesis_pubkey (ck_pin ck)) = 33"
  shows "stored_pin K s = Inr (Some (ck_pin ck))"
proof -
  have e: "contents s KV_OWNER_PIN = Some (genesis_pubkey (ck_pin ck) @ u32_to_be (roster_version (ck_pin ck)))"
    by (simp add: assms(2) owner_entries_def)
  then have "stored_pin K s = Inr (pin_in (contents s))"
    using assms(3) by (intro stored_pin_runs [OF assms(1)]) blast
  moreover have "pin_in (contents s) = Some (ck_pin ck)"
    using e assms(3) by (intro pin_in_entry) simp_all
  ultimately show ?thesis by simp
qed

lemma nothing_delivered:
  "apply_settings P B E J K K new i device = (Inr Nothing, new, i)"
  by (simp add: apply_settings_def get_works [OF new_inv] new_empty)

lemma unsized_test_passes: "apply_takes_unsized_stores P B E J K new"
  by (simp add: apply_takes_unsized_stores_def nothing_delivered)

end

section \<open>They pass\<close>

text \<open>A delivery for \<open>device\<close> from an owner whose DID is \<open>who\<close>, with key \<open>d\<close>.\<close>

definition offer_ok ::
  "('sk, 'vk, 'sig) prims \<Rightarrow> bs58 \<Rightarrow> b64 \<Rightarrow> json_codec \<Rightarrow> rstr \<Rightarrow> rstr \<Rightarrow> did \<Rightarrow> bool" where
  "offer_ok P B E J device who d \<longleftrightarrow>
     did_parse P B who = Inr d \<and> length (did_pubkey d) = 33 \<and>
     (\<forall>roster. let c = tests_container P E J device who who roster STATEMENT_CONTEXT in
        length c \<le> ADOPT_MAX \<and> check_statement P B E J c device =
          Inr \<lparr>ck_owner_did = who, ck_pin = \<lparr>genesis_pubkey = did_pubkey d, roster_version = roster\<rparr>\<rparr>)"

lemma offer_okI:
  assumes "codecs_read P B E J" "prims_ok P" "did_parse P B who = Inr d" "plain_text device" "plain_text who"
    and "length device \<le> 64" "length who \<le> 64"
  shows "offer_ok P B E J device who d"
  using container_checked [OF assms(1,4,5,5) plain_prefix(2)]
    codecs_readD(8) [OF assms(1,6,7)] did_parse_valid [OF assms(3)] assms(3)
  by (simp add: offer_ok_def valid_did_def Let_def)

lemma setup_runs:
  assumes C: "codecs_read P B E J" and P: "prims_ok P" "bs58_ok B"
    and keys: "from_seed_for_tests P (ascii ''settings-adopt-device'') (ascii ''d'') = Inr kd"
      "from_seed_for_tests P (ascii ''settings-adopt-owner'') (ascii ''o'') = Inr ko"
      "from_seed_for_tests P (ascii ''settings-adopt-other'') (ascii ''x'') = Inr kx"
  obtains device owner other where "settings_tests_setup P B = Inr (device, owner, other)"
    "offer_ok P B E J device owner (key_did P ko)" "offer_ok P B E J device other (key_did P kx)"
    "did_parse P B device = Inr (key_did P kd)" "plain_text device" "plain_text owner" "plain_text other"
    "length device \<le> 64" "length owner \<le> 64"
proof -
  obtain device where d: "bind_res (from_seed_for_tests P (ascii ''settings-adopt-device'') (ascii ''d'')) (settings_did_of P B) = Inr device"
    "did_parse P B device = Inr (key_did P kd)" "plain_text device" "length device \<le> 64"
    using C P keys(1) by (rule tests_did_text)
  obtain owner where o: "bind_res (from_seed_for_tests P (ascii ''settings-adopt-owner'') (ascii ''o'')) (settings_did_of P B) = Inr owner"
    "did_parse P B owner = Inr (key_did P ko)" "plain_text owner" "length owner \<le> 64"
    using C P keys(2) by (rule tests_did_text)
  obtain other where x: "bind_res (from_seed_for_tests P (ascii ''settings-adopt-other'') (ascii ''x'')) (settings_did_of P B) = Inr other"
    "did_parse P B other = Inr (key_did P kx)" "plain_text other" "length other \<le> 64"
    using C P keys(3) by (rule tests_did_text)
  show thesis
    by (rule that [of device owner other])
      (simp_all only: settings_tests_setup_def d o x bind_res_simps
        offer_okI [OF C P(1) o(2) d(3) o(3) d(4) o(4)] offer_okI [OF C P(1) x(2) d(3) x(3) d(4) x(4)])
qed

context memory_store
begin

lemma offer_takes:
  assumes o: "offer_ok P B E J device who d" and s: "inv s" and i: "inv i" and pin: "stored_pin K i = Inr pinned"
    and ok: "pin_allows pinned (did_pubkey d) roster"
    and rest: "\<And>s' i' ck c. inv s' \<Longrightarrow> inv i' \<Longrightarrow> contents s' SETTINGS_ADOPT = None \<Longrightarrow>
      c = tests_container P E J device who who roster STATEMENT_CONTEXT \<Longrightarrow>
      ck = \<lparr>ck_owner_did = who, ck_pin = \<lparr>genesis_pubkey = did_pubkey d, roster_version = roster\<rparr>\<rparr> \<Longrightarrow>
      contents i' = contents i ++ map_of (rev (owner_entries ck c)) \<Longrightarrow> f (Inr (owner_taken pinned ck)) s' i'"
  shows "boot_then P B E J K device s i (tests_container P E J device who who roster STATEMENT_CONTEXT) f"
  unfolding boot_then_def using s
proof (rule put_thenI)
  let ?c = "tests_container P E J device who who roster STATEMENT_CONTEXT"
  let ?ck = "\<lparr>ck_owner_did = who, ck_pin = \<lparr>genesis_pubkey = did_pubkey d, roster_version = roster\<rparr>\<rparr>"
  fix s1
  assume s1: "inv s1" "contents s1 = (contents s)(SETTINGS_ADOPT \<mapsto> ?c)"
  then have c: "contents s1 SETTINGS_ADOPT = Some ?c" by simp
  from o have l: "length ?c \<le> ADOPT_MAX" and k: "check_statement P B E J ?c device = Inr ?ck"
    by (simp_all add: offer_ok_def Let_def)
  have ok': "pin_allows pinned (genesis_pubkey (ck_pin ?ck)) (roster_version (ck_pin ?ck))" using ok by simp
  from boot_takes [OF s1(1) i c l k pin ok'] obtain s' i' where
    "apply_settings P B E J K K s1 i device = (Inr (owner_taken pinned ?ck), s', i')" "inv s'" "inv i'"
    "contents s' = (contents s1)(SETTINGS_ADOPT := None)" "contents i' = contents i ++ map_of (rev (owner_entries ?ck ?c))"
    by blast
  with rest [of s' i' ?c ?ck] show "case apply_settings P B E J K K s1 i device of (out, s, i) \<Rightarrow> f out s i" by simp
qed

lemma offer_refused:
  assumes o: "offer_ok P B E J device who d" and s: "inv s" and pin: "stored_pin K i = Inr (Some p)"
    and why: "genesis_pubkey p \<noteq> did_pubkey d \<and> why = ''the device is pinned to another owner'' \<or>
      genesis_pubkey p = did_pubkey d \<and> roster < roster_version p \<and>
      why = ''the adoption's roster is older than the pinned one''"
    and rest: "\<And>s'. inv s' \<Longrightarrow> contents s' SETTINGS_ADOPT = None \<Longrightarrow> f (Inr (Refused why)) s' i"
  shows "boot_then P B E J K device s i (tests_container P E J device who who roster STATEMENT_CONTEXT) f"
  unfolding boot_then_def using s
proof (rule put_thenI)
  let ?c = "tests_container P E J device who who roster STATEMENT_CONTEXT"
  fix s1
  assume s1: "inv s1" "contents s1 = (contents s)(SETTINGS_ADOPT \<mapsto> ?c)"
  from o have "kv_get K s1 SETTINGS_ADOPT ADOPT_MAX = Inr (Some ?c)"
    by (simp add: get_works [OF s1(1)] s1(2) offer_ok_def Let_def)
  with o pin why have "boot_decision P B E J K K s1 i device = Refuse why"
    by (auto simp: boot_decision_def offer_ok_def Let_def)
  from boot_refuses [OF s1(1) this] obtain s' where
    "apply_settings P B E J K K s1 i device = (Inr (Refused why), s', i)" "inv s'"
    "contents s' = (contents s1)(SETTINGS_ADOPT := None)" by blast
  with rest [of s'] show "case apply_settings P B E J K K s1 i device of (out, s, i) \<Rightarrow> f out s i" by simp
qed

text \<open>The tests from here on assume what their \<open>setup\<close> gives: three DIDs, and two owners to offer.\<close>

lemma nothing_test_passes:
  "settings_tests_setup P B = Inr (device, owner, other) \<Longrightarrow> nothing_in_the_settings_is_nothing P B E J K new"
  by (simp add: nothing_in_the_settings_is_nothing_def nothing_delivered)

lemma oversize_test_passes:
  assumes "settings_tests_setup P B = Inr (device, owner, other)"
  shows "an_oversize_adoption_is_refused_and_cleared P B E J K new"
proof -
  let ?big = "replicate (ADOPT_MAX + 1) (0x78 :: u8)"
  have "put_then K new SETTINGS_ADOPT ?big (\<lambda>s. case apply_settings P B E J K K s new device of (out, s, i) \<Rightarrow>
      out = Inr (Refused ''the adoption is longer than 8 KiB'') \<and> kv_get K s SETTINGS_ADOPT 8 = Inr None)"
    using new_inv
  proof (rule put_thenI)
    fix s1
    assume s1: "inv s1" "contents s1 = (contents new)(SETTINGS_ADOPT \<mapsto> ?big)"
    then have "boot_decision P B E J K K s1 new device = Refuse ''the adoption is longer than 8 KiB''"
      by (simp add: boot_decision_def get_works)
    from boot_refuses [OF s1(1) this] obtain s' where
      "apply_settings P B E J K K s1 new device = (Inr (Refused ''the adoption is longer than 8 KiB''), s', new)" "inv s'"
      "contents s' = (contents s1)(SETTINGS_ADOPT := None)" by blast
    then show "case apply_settings P B E J K K s1 new device of (out, s, i) \<Rightarrow>
        out = Inr (Refused ''the adoption is longer than 8 KiB'') \<and> kv_get K s SETTINGS_ADOPT 8 = Inr None"
      by (simp add: get_works)
  qed
  then show ?thesis
    by (simp only: an_oversize_adoption_is_refused_and_cleared_def assms sum.case prod.case boot_then_def)
qed

lemma first_adoption_test_passes:
  assumes dids: "settings_tests_setup P B = Inr (device, owner, other)"
    and o: "offer_ok P B E J device owner d"
  shows "a_first_adoption_is_pinned_provisionally_stored_verbatim_and_cleared P B E J K new"
  unfolding a_first_adoption_is_pinned_provisionally_stored_verbatim_and_cleared_def dids sum.case prod.case Let_def
  using o new_inv new_inv
proof (rule offer_takes)
  show "stored_pin K new = Inr None" by (rule pin_none) (simp_all add: new_inv new_empty)
  let ?c = "tests_container P E J device owner owner 1 STATEMENT_CONTEXT"
  fix s i ck c
  assume s: "inv s" "contents s SETTINGS_ADOPT = None" and i: "inv i"
    and c: "c = ?c" and ck: "ck = \<lparr>ck_owner_did = owner, ck_pin = \<lparr>genesis_pubkey = did_pubkey d, roster_version = 1\<rparr>\<rparr>"
    and ci: "contents i = contents new ++ map_of (rev (owner_entries ck c))"
  have l: "length (genesis_pubkey (ck_pin ck)) = 33" using o by (simp add: ck offer_ok_def)
  have "length KIND_MATA_STATEMENT \<le> ADOPT_MAX" by (simp add: KIND_MATA_STATEMENT_def ascii_def)
  moreover have "length ?c \<le> ADOPT_MAX" "did_parse P B owner = Inr d" using o by (simp_all add: offer_ok_def Let_def)
  ultimately show "(Inr (owner_taken None ck) :: outcome result) = Inr (Adopted owner 1 True) \<and>
      kv_get K i KV_ADOPTION ADOPT_MAX = Inr (Some ?c) \<and>
      kv_get K i KV_ADOPTION_KIND ADOPT_MAX = Inr (Some KIND_MATA_STATEMENT) \<and>
      (case stored_pin K i of
         Inr (Some pin) \<Rightarrow> (case did_parse P B owner of Inl _ \<Rightarrow> False | Inr d \<Rightarrow> genesis_pubkey pin = did_pubkey d)
       | _ \<Rightarrow> False) \<and>
      (case kv_get K i KV_PIN_PROVISIONAL ADOPT_MAX of Inr (Some v) \<Rightarrow> length v = 1 | _ \<Rightarrow> False) \<and>
      kv_get K s SETTINGS_ADOPT ADOPT_MAX = Inr None"
    using s pin_taken [OF i ci l]
    by (simp add: get_works [OF i] get_works [OF s(1)] ci owner_entries_def c ck owner_taken_def)
qed (simp add: pin_allows_def)

lemma rehome_test_passes:
  assumes dids: "settings_tests_setup P B = Inr (device, owner, other)"
    and o: "offer_ok P B E J device owner d" and x: "offer_ok P B E J device other d'"
    and differ: "did_pubkey d \<noteq> did_pubkey d'"
  shows "the_same_owner_rehomes_another_is_refused_and_both_are_cleared P B E J K new"
proof -
  let ?c = "\<lambda>who roster. tests_container P E J device who who roster STATEMENT_CONTEXT"
  let ?pin = "\<lambda>v. \<lparr>genesis_pubkey = did_pubkey d, roster_version = v\<rparr>"
  have l: "length (did_pubkey d) = 33" using o by (simp add: offer_ok_def)
  have fourth: "boot_then P B E J K device s i (?c other 9) (\<lambda>out s i.
      out = Inr (Refused ''the device is pinned to another owner'') \<and> kv_get K s SETTINGS_ADOPT 8 = Inr None \<and>
      (case stored_pin K i of Inr (Some pin) \<Rightarrow> roster_version pin = 3 | _ \<Rightarrow> False))"
    if "inv s" "stored_pin K i = Inr (Some (?pin 3))" for s i
    using x that by (rule offer_refused) (use differ that(2) in \<open>simp_all add: get_works\<close>)
  have third: "boot_then P B E J K device s i (?c owner 2) (\<lambda>out s i.
      out = Inr (Refused ''the adoption's roster is older than the pinned one'') \<and>
      boot_then P B E J K device s i (?c other 9) (\<lambda>out s i.
        out = Inr (Refused ''the device is pinned to another owner'') \<and> kv_get K s SETTINGS_ADOPT 8 = Inr None \<and>
        (case stored_pin K i of Inr (Some pin) \<Rightarrow> roster_version pin = 3 | _ \<Rightarrow> False)))"
    if "inv s" "stored_pin K i = Inr (Some (?pin 3))" for s i
    using o that by (rule offer_refused) (simp_all add: fourth that(2))
  have second: "boot_then P B E J K device s i (?c owner 3) (\<lambda>out s i.
      (case out of Inr (Rehomed _ v _) \<Rightarrow> v = 3 | _ \<Rightarrow> False) \<and>
      boot_then P B E J K device s i (?c owner 2) (\<lambda>out s i.
        out = Inr (Refused ''the adoption's roster is older than the pinned one'') \<and>
        boot_then P B E J K device s i (?c other 9) (\<lambda>out s i.
          out = Inr (Refused ''the device is pinned to another owner'') \<and> kv_get K s SETTINGS_ADOPT 8 = Inr None \<and>
          (case stored_pin K i of Inr (Some pin) \<Rightarrow> roster_version pin = 3 | _ \<Rightarrow> False))))"
    if "inv s" "inv i" "stored_pin K i = Inr (Some (?pin 2))" for s i
    using o that
  proof (rule offer_takes)
    fix s' i' ck c
    assume s': "inv s'" "inv i'" and ck: "ck = \<lparr>ck_owner_did = owner, ck_pin = ?pin 3\<rparr>"
      and i': "contents i' = contents i ++ map_of (rev (owner_entries ck c))"
    have "stored_pin K i' = Inr (Some (?pin 3))" using pin_taken [OF s'(2) i'] l by (simp add: ck)
    from third [OF s'(1) this] show "(case (Inr (owner_taken (Some (?pin 2)) ck) :: outcome result) of Inr (Rehomed _ v _) \<Rightarrow> v = 3 | _ \<Rightarrow> False) \<and>
      boot_then P B E J K device s' i' (?c owner 2) (\<lambda>out s i.
        out = Inr (Refused ''the adoption's roster is older than the pinned one'') \<and>
        boot_then P B E J K device s i (?c other 9) (\<lambda>out s i.
          out = Inr (Refused ''the device is pinned to another owner'') \<and> kv_get K s SETTINGS_ADOPT 8 = Inr None \<and>
          (case stored_pin K i of Inr (Some pin) \<Rightarrow> roster_version pin = 3 | _ \<Rightarrow> False)))"
      by (simp add: ck owner_taken_def)
  qed (simp add: pin_allows_def)
  show ?thesis
    unfolding the_same_owner_rehomes_another_is_refused_and_both_are_cleared_def dids sum.case prod.case Let_def
    using o new_inv new_inv
  proof (rule offer_takes)
    show "stored_pin K new = Inr None" by (rule pin_none) (simp_all add: new_inv new_empty)
    fix s i ck c
    assume s: "inv s" "inv i" and ck: "ck = \<lparr>ck_owner_did = owner, ck_pin = ?pin 2\<rparr>"
      and i: "contents i = contents new ++ map_of (rev (owner_entries ck c))"
    have "stored_pin K i = Inr (Some (?pin 2))" using pin_taken [OF s(2) i] l by (simp add: ck)
    from second [OF s this] show "(case (Inr (owner_taken None ck) :: outcome result) of Inl _ \<Rightarrow> False | Inr _ \<Rightarrow> True) \<and>
      boot_then P B E J K device s i (?c owner 3) (\<lambda>out s i.
        (case out of Inr (Rehomed _ v _) \<Rightarrow> v = 3 | _ \<Rightarrow> False) \<and>
        boot_then P B E J K device s i (?c owner 2) (\<lambda>out s i.
          out = Inr (Refused ''the adoption's roster is older than the pinned one'') \<and>
          boot_then P B E J K device s i (?c other 9) (\<lambda>out s i.
            out = Inr (Refused ''the device is pinned to another owner'') \<and> kv_get K s SETTINGS_ADOPT 8 = Inr None \<and>
            (case stored_pin K i of Inr (Some pin) \<Rightarrow> roster_version pin = 3 | _ \<Rightarrow> False))))"
      by simp
  qed (simp add: pin_allows_def)
qed

lemma forget_nothing:
  assumes "inv i" "contents i KV_OWNER_PIN = None" "dom (contents i) \<inter> owner_keys = {}"
  obtains i' where "forget K i = (Inr False, i')" "inv i'" "contents i' = contents i"
proof -
  from assms(2) have "contents i KV_OWNER_PIN = None \<or> (\<exists>p :: owner_pin. length (genesis_pubkey p) = 33 \<and>
      contents i KV_OWNER_PIN = Some (genesis_pubkey p @ u32_to_be (roster_version p)))" ..
  with assms(1) obtain i' where i': "forget K i = (Inr (pin_in (contents i) \<noteq> None), i')" "inv i'"
    "contents i' = contents i |` (- owner_keys)" by (rule forget_runs)
  have "contents i' = contents i" unfolding i'(3)
  proof
    fix k show "(contents i |` (- owner_keys)) k = contents i k"
      using assms(3) by (cases "contents i k"; cases "k \<in> owner_keys") (auto simp: restrict_map_def dom_def)
  qed
  with i' assms(2) show thesis by (intro that [of i']) (simp_all add: pin_in_def)
qed

lemma forget_owner:
  assumes i: "inv i" "contents i = m ++ map_of (rev (owner_entries ck c))" "dom m \<inter> owner_keys = {}"
    and l: "length (genesis_pubkey (ck_pin ck)) = 33"
  obtains i' where "forget K i = (Inr True, i')" "inv i'" "contents i' = m"
proof -
  have e: "contents i KV_OWNER_PIN = Some (genesis_pubkey (ck_pin ck) @ u32_to_be (roster_version (ck_pin ck)))"
    by (simp add: i(2) owner_entries_def)
  with l have p: "pin_in (contents i) = Some (ck_pin ck)" by (intro pin_in_entry) simp_all
  from e l have "contents i KV_OWNER_PIN = None \<or> (\<exists>p :: owner_pin. length (genesis_pubkey p) = 33 \<and>
      contents i KV_OWNER_PIN = Some (genesis_pubkey p @ u32_to_be (roster_version p)))" by blast
  with i(1) obtain i' where i': "forget K i = (Inr (pin_in (contents i) \<noteq> None), i')" "inv i'"
    "contents i' = contents i |` (- owner_keys)" by (rule forget_runs)
  have "contents i' = m"
    using i(3) by (auto simp: i'(3) i(2) restrict_map_def owner_entries_def owner_keys_def fun_eq_iff)
  with i' p show thesis by (intro that [of i']) simp_all
qed

lemma forgetting_test_passes:
  assumes dids: "settings_tests_setup P B = Inr (device, owner, other)"
    and o: "offer_ok P B E J device owner d" and x: "offer_ok P B E J device other d'"
  shows "forgetting_the_owner_keeps_the_key_and_the_next_owner_adopts_afresh P B E J K new"
proof -
  let ?key = "ascii ''mid.devkey''" and ?m = "[ascii ''mid.devkey'' \<mapsto> replicate 32 (7 :: u8)]"
  let ?c = "\<lambda>who. tests_container P E J device who who 1 STATEMENT_CONTEXT"
  let ?last = "\<lambda>s i. boot_then P B E J K device s i (?c other)
    (\<lambda>out _ _. case out of Inr (Adopted owner_did _ _) \<Rightarrow> owner_did = other | _ \<Rightarrow> False)"
  have key: "?key \<notin> owner_keys"
    by (simp add: owner_keys_def KV_ADOPTION_def KV_ADOPTION_KIND_def KV_OWNER_PIN_def KV_PIN_PROVISIONAL_def ascii_def)
  have pin: "KV_OWNER_PIN \<noteq> ?key" "KV_ADOPTION \<noteq> ?key" "KV_ADOPTION_KIND \<noteq> ?key" "KV_PIN_PROVISIONAL \<noteq> ?key"
    using key by (auto simp: owner_keys_def)
  have last: "?last s i" if "inv s" "inv i" "contents i = ?m" for s i
    using x that(1,2)
  proof (rule offer_takes)
    show "stored_pin K i = Inr None" by (rule pin_none) (use that pin in simp_all)
  qed (simp_all add: pin_allows_def owner_taken_def)
  have forgotten: "list_all (\<lambda>k. kv_get K i k ADOPT_MAX = Inr None) [KV_ADOPTION, KV_ADOPTION_KIND, KV_OWNER_PIN, KV_PIN_PROVISIONAL] \<and>
      (case kv_get K i ?key ADOPT_MAX of Inr (Some v) \<Rightarrow> length v = 32 | _ \<Rightarrow> False) \<and>
      stored P B E J K i device = Inr None" if "inv i" "contents i = ?m" for i
    using pin by (simp add: get_works [OF that(1)] that(2) stored_def)
  have second: "case forget K i of
      (Inr True, i) \<Rightarrow>
        list_all (\<lambda>k. kv_get K i k ADOPT_MAX = Inr None) [KV_ADOPTION, KV_ADOPTION_KIND, KV_OWNER_PIN, KV_PIN_PROVISIONAL] \<and>
        (case kv_get K i ?key ADOPT_MAX of Inr (Some v) \<Rightarrow> length v = 32 | _ \<Rightarrow> False) \<and>
        stored P B E J K i device = Inr None \<and> ?last s i
    | _ \<Rightarrow> False"
    if s: "inv s" and i: "inv i" and ci: "contents i = ?m ++ map_of (rev (owner_entries ck c))"
      and ck: "ck = \<lparr>ck_owner_did = owner, ck_pin = \<lparr>genesis_pubkey = did_pubkey d, roster_version = 1\<rparr>\<rparr>" for s i ck c
  proof -
    have l: "length (genesis_pubkey (ck_pin ck)) = 33" using o by (simp add: ck offer_ok_def)
    obtain i' where i': "forget K i = (Inr True, i')" "inv i'" "contents i' = ?m"
      by (rule forget_owner [OF i ci _ l]) (use key in simp_all)
    with forgotten [OF i'(2)] last [OF s i'(2)] show ?thesis by simp
  qed
  have first: "boot_then P B E J K device new i (?c owner) (\<lambda>out s i.
      (case out of Inl _ \<Rightarrow> False | Inr _ \<Rightarrow> True) \<and>
      (case stored P B E J K i device of Inr (Some _) \<Rightarrow> True | _ \<Rightarrow> False) \<and>
      (case forget K i of
         (Inr True, i) \<Rightarrow>
           list_all (\<lambda>k. kv_get K i k ADOPT_MAX = Inr None) [KV_ADOPTION, KV_ADOPTION_KIND, KV_OWNER_PIN, KV_PIN_PROVISIONAL] \<and>
           (case kv_get K i ?key ADOPT_MAX of Inr (Some v) \<Rightarrow> length v = 32 | _ \<Rightarrow> False) \<and>
           stored P B E J K i device = Inr None \<and> ?last s i
       | _ \<Rightarrow> False))" if "inv i" "contents i = ?m" for i
    using o new_inv that(1)
  proof (rule offer_takes)
    show "stored_pin K i = Inr None" by (rule pin_none) (use that pin in simp_all)
    fix s' i' ck c
    assume r: "inv s'" "inv i'" "c = ?c owner"
      "ck = \<lparr>ck_owner_did = owner, ck_pin = \<lparr>genesis_pubkey = did_pubkey d, roster_version = 1\<rparr>\<rparr>"
      "contents i' = contents i ++ map_of (rev (owner_entries ck c))"
    have "check_statement P B E J c device = Inr ck" "length c \<le> ADOPT_MAX"
      using o by (simp_all add: r(3,4) offer_ok_def Let_def)
    from stored_after_taken [OF r(2) this r(5)]
      second [OF r(1,2) r(5) [unfolded that(2)] r(4)]
    show "(case (Inr (owner_taken None ck) :: outcome result) of Inl _ \<Rightarrow> False | Inr _ \<Rightarrow> True) \<and>
      (case stored P B E J K i' device of Inr (Some _) \<Rightarrow> True | _ \<Rightarrow> False) \<and>
      (case forget K i' of
         (Inr True, i) \<Rightarrow>
           list_all (\<lambda>k. kv_get K i k ADOPT_MAX = Inr None) [KV_ADOPTION, KV_ADOPTION_KIND, KV_OWNER_PIN, KV_PIN_PROVISIONAL] \<and>
           (case kv_get K i ?key ADOPT_MAX of Inr (Some v) \<Rightarrow> length v = 32 | _ \<Rightarrow> False) \<and>
           stored P B E J K i device = Inr None \<and> ?last s' i
       | _ \<Rightarrow> False)" by simp
  qed (simp add: pin_allows_def)
  show ?thesis
    unfolding forgetting_the_owner_keeps_the_key_and_the_next_owner_adopts_afresh_def dids sum.case prod.case
  proof (rule put_thenI [OF new_inv])
    fix i
    assume i: "inv i" "contents i = (contents new)(?key \<mapsto> replicate 32 7)"
    obtain i' where i': "forget K i = (Inr False, i')" "inv i'" "contents i' = contents i"
      by (rule forget_nothing [OF i(1)]) (use pin key i(2) in \<open>simp_all add: new_empty\<close>)
    with i(2) have "contents i' = ?m" by (simp add: new_empty)
    with first [OF i'(2)] i'(1)
    show "case forget K i of
        (Inr False, i) \<Rightarrow> boot_then P B E J K device new i (?c owner) (\<lambda>out s i.
          (case out of Inl _ \<Rightarrow> False | Inr _ \<Rightarrow> True) \<and>
          (case stored P B E J K i device of Inr (Some _) \<Rightarrow> True | _ \<Rightarrow> False) \<and>
          (case forget K i of
             (Inr True, i) \<Rightarrow>
               list_all (\<lambda>k. kv_get K i k ADOPT_MAX = Inr None) [KV_ADOPTION, KV_ADOPTION_KIND, KV_OWNER_PIN, KV_PIN_PROVISIONAL] \<and>
               (case kv_get K i ?key ADOPT_MAX of Inr (Some v) \<Rightarrow> length v = 32 | _ \<Rightarrow> False) \<and>
               stored P B E J K i device = Inr None \<and> ?last s i
           | _ \<Rightarrow> False))
      | _ \<Rightarrow> False"
      by simp
  qed
qed

lemma stored_for_another:
  assumes "inv s" "contents s KV_ADOPTION = Some c" "length c \<le> ADOPT_MAX"
    and "contents s KV_ADOPTION_KIND = Some KIND_MATA_STATEMENT" "check_statement P B E J c my_did = Inl why"
  shows "stored P B E J K s my_did = Inr None"
proof -
  have "length KIND_MATA_STATEMENT \<le> 32" by (simp add: KIND_MATA_STATEMENT_def)
  with assms show ?thesis by (simp add: stored_def get_works)
qed

lemma stored_envelope:
  assumes "inv s" "contents s = [KV_ADOPTION \<mapsto> env]" "length env \<le> ADOPT_MAX" "decode env = Inr a"
    and "af_device_did (ad_fields a) = my_did"
  shows "stored P B E J K s my_did = Inr (Some \<lparr>so_owner_did = af_owner_did (ad_fields a),
    so_kind = KIND_ADOPTION_V1, so_bytes = env, so_provisional = False\<rparr>)"
  using assms(2-) by (simp add: stored_def get_works [OF assms(1)])

lemma stored_test_passes:
  assumes C: "codecs_read P B E J" and P: "prims_ok P"
    and key: "from_seed_for_tests P (ascii ''settings-adopt-owner'') (ascii ''o'') = Inr k"
    and dids: "settings_tests_setup P B = Inr (device, owner, other)"
    and o: "offer_ok P B E J device owner (key_did P k)"
    and plain: "plain_text device" "plain_text owner" "plain_text other" "length device \<le> 64" "length owner \<le> 64"
      "device \<noteq> []" "owner \<noteq> []"
    and differ: "device \<noteq> other"
  shows "the_stored_adoption_is_read_back_for_the_status P B E J K new"
proof -
  let ?c = "tests_container P E J device owner owner 1 STATEMENT_CONTEXT"
  have c: "length ?c \<le> ADOPT_MAX" using o by (simp add: offer_ok_def Let_def)
  have none: "stored P B E J K new device = Inr None"
    by (simp add: stored_def get_works [OF new_inv] new_empty)
  have delivered: "boot_then P B E J K device new new ?c (\<lambda>out _ i.
      (case out of Inl _ \<Rightarrow> False | Inr _ \<Rightarrow> True) \<and>
      (case stored P B E J K i device of
         Inr (Some got) \<Rightarrow>
           got = \<lparr>so_owner_did = owner, so_kind = KIND_MATA_STATEMENT, so_bytes = ?c, so_provisional = True\<rparr> \<and>
           sad_owner_did (stored_as_status got) = owner
       | _ \<Rightarrow> False) \<and>
      stored P B E J K i other = Inr None)"
    using o new_inv new_inv
  proof (rule offer_takes)
    show "stored_pin K new = Inr None" by (rule pin_none) (simp_all add: new_inv new_empty)
    fix s' i' ck d
    assume r: "inv i'" "d = ?c"
      "ck = \<lparr>ck_owner_did = owner, ck_pin = \<lparr>genesis_pubkey = did_pubkey (key_did P k), roster_version = 1\<rparr>\<rparr>"
      "contents i' = contents new ++ map_of (rev (owner_entries ck d))"
    have "check_statement P B E J d device = Inr ck" "length d \<le> ADOPT_MAX"
      using o by (simp_all add: r(2,3) offer_ok_def Let_def)
    note s = stored_after_taken [OF r(1) this r(4)]
    have "check_statement P B E J ?c other = Inl ''the adoption is for another device''"
      using differ by (simp add: container_checked [OF C plain(1,2,2) plain_prefix(2)])
    then have "stored P B E J K i' other = Inr None"
      by (intro stored_for_another [OF r(1) _ c]) (simp_all add: r(2,4) owner_entries_def)
    with s show "(case (Inr (owner_taken None ck) :: outcome result) of Inl _ \<Rightarrow> False | Inr _ \<Rightarrow> True) \<and>
        (case stored P B E J K i' device of
           Inr (Some got) \<Rightarrow>
             got = \<lparr>so_owner_did = owner, so_kind = KIND_MATA_STATEMENT, so_bytes = ?c, so_provisional = True\<rparr> \<and>
             sad_owner_did (stored_as_status got) = owner
         | _ \<Rightarrow> False) \<and>
        stored P B E J K i' other = Inr None"
      by (simp add: r(2,3) stored_as_status_def)
  qed (simp add: pin_allows_def)
  let ?f = "\<lparr>af_device_did = device, af_owner_did = owner, af_owner_genesis_pubkey = did_pubkey (key_did P k),
    af_hub_endpoint_id = replicate 32 (0 :: u8), af_hub_relay = [], af_hub_host = [], af_caps = CapSlice [],
    af_roster_version = 1, af_issued_at = 1700000000, af_expires_at = 0\<rparr>"
  have fc: "caps_of (af_caps ?f) = []" by (simp add: caps_of_def cap_iter_of_def)
  have S: "device_signer P (key_signer P k) (af_owner_genesis_pubkey ?f)"
    using key_signer_provides [OF P seed_key(1) [OF key]] by simp
  have utf: "utf8_valid device" "utf8_valid owner"
    using plain_text_ascii [OF plain(1)] plain_text_ascii [OF plain(2)] by (simp_all add: utf8_valid_ascii_bytes)
  have wf: "fields_wf ?f"
    unfolding fields_wf_def fc using o utf plain by (simp add: arrays_ok_def cap_len_def offer_ok_def)
  have v: "validate ?f = Inr ()"
    unfolding validate_Inr fc using plain by (simp add: cap_len_def)
  have len: "canonical_len ?f + SIG_LEN \<le> ADOPT_MAX" using plain by (simp add: canonical_len_def)
  have room: "canonical_len ?f + SIG_LEN \<le> length (replicate (canonical_len ?f + 64) (0 :: u8))" by simp
  obtain out a where a: "sign_into P (key_signer P k) ?f (replicate (canonical_len ?f + 64) 0) = (Inr (canonical_len ?f + SIG_LEN), out)"
    "decode (take (canonical_len ?f + SIG_LEN) out) = Inr a" "ad_fields a = wire_view ?f"
    using S wf v room by (rule signed_accepted)
  have "put_then K new KV_ADOPTION (take (canonical_len ?f + SIG_LEN) out) (\<lambda>i.
      case stored P B E J K i device of
        Inr (Some got) \<Rightarrow>
          so_kind got = KIND_ADOPTION_V1 \<and> so_owner_did got = owner \<and> \<not> so_provisional got \<and>
          so_bytes got = take (canonical_len ?f + SIG_LEN) out
      | _ \<Rightarrow> False)"
    using new_inv
  proof (rule put_thenI)
    fix i assume i: "inv i" "contents i = (contents new)(KV_ADOPTION \<mapsto> take (canonical_len ?f + SIG_LEN) out)"
    then show "case stored P B E J K i device of
        Inr (Some got) \<Rightarrow>
          so_kind got = KIND_ADOPTION_V1 \<and> so_owner_did got = owner \<and> \<not> so_provisional got \<and>
          so_bytes got = take (canonical_len ?f + SIG_LEN) out
      | _ \<Rightarrow> False"
      using len a(2,3) by (subst stored_envelope [OF i(1) _ _ a(2)]) (simp_all add: new_empty wire_view_def)
  qed
  with none delivered a(1) show ?thesis
    by (simp only: the_stored_adoption_is_read_back_for_the_status_def dids key sum.case prod.case Let_def simp_thms)
qed

end

lemma set_str_replace: "set (str_replace pat to s) \<subseteq> set s \<union> set to"
  by (induction pat to s rule: str_replace.induct) (auto dest: in_set_dropD)

lemma edited_refused:
  assumes C: "codecs_read P B E J" and t: "\<forall>x \<in> set t. x < 0x80" and iss: "plain_text iss"
    and hash: "sha256 P t \<noteq> sha256 P content"
  shows "check_statement P B E J (js_write J (JObj [(ascii ''content'', JStr t),
      (ascii ''jws'', JStr (b64_encode E header_text @ ascii ''.'' @
        b64_encode E (payload_text iss STATEMENT_CONTEXT (b64_encode E (sha256 P content))) @ ascii ''.'' @
        b64_encode E (replicate 64 7)))])) my_did = Inl ''the content_hash does not match the content''"
    (is "check_statement P B E J (js_write J ?outer) my_did = _")
proof -
  have b: "b64_decode E (b64_encode E x) = Some x" "0x2E \<notin> set (b64_encode E x)" for x
    using b64_okD(1,4) [OF codecs_readD(1) [OF C]] by blast+
  have e: "\<forall>x \<in> set (b64_encode E b). x < 0x80" for b
    using codecs_readD(3) [OF C] by (rule plain_text_ascii)
  have "utf8_valid (b64_encode E a @ ascii ''.'' @ b64_encode E b @ ascii ''.'' @ b64_encode E c)" for a b c
    using e by (intro utf8_valid_ascii_bytes) (auto simp: ascii_def)
  with t have "json_plain JSON_DEPTH ?outer"
    by (simp add: utf8_valid_ascii_text utf8_valid_ascii_bytes)
  then have outer: "js_parse J (js_write J ?outer) = Some ?outer" by (rule codec_okD [OF codecs_readD(2) [OF C]])
  have "b64_encode E (sha256 P content) \<noteq> b64_encode E (sha256 P t)"
    using b64_encode_inj [OF codecs_readD(1) [OF C]] hash by metis
  moreover have sp: "split_on 0x2E (b64_encode E x @ 46 # b64_encode E y @ 46 # b64_encode E z) =
      [b64_encode E x, b64_encode E y, b64_encode E z]" for x y z
    using b(2) split_on_append [of "0x2E" "b64_encode E x" "b64_encode E y @ 46 # b64_encode E z"]
      split_on_append [of "0x2E" "b64_encode E y" "b64_encode E z"]
    by (simp add: split_on_no_sep)
  moreover have "ascii ''.'' = [46]" by (simp add: ascii_def)
  moreover have "json_text header_value ''alg'' = Some (ascii ''ES256'')" "json_text header_value ''typ'' = Some (ascii ''JWT'')"
    by (simp_all add: json_text_def header_value_def ascii_def)
  moreover have "json_text (payload_value iss ctx h) ''context'' = Some ctx"
    "json_text (payload_value iss ctx h) ''iss'' = Some iss"
    "json_text (payload_value iss ctx h) ''content_hash'' = Some h" for ctx h
    by (simp_all add: json_text_def payload_value_def ascii_def)
  moreover have "json_text (JObj [(ascii ''content'', JStr x), (ascii ''jws'', JStr y)]) ''content'' = Some x"
    "json_text (JObj [(ascii ''content'', JStr x), (ascii ''jws'', JStr y)]) ''jws'' = Some y" for x y
    by (simp_all add: json_text_def ascii_def)
  ultimately show ?thesis
    unfolding check_statement_def outer
    by (simp add: b codecs_readD(3,7) [OF C] codecs_readD(6) [OF C] iss plain_prefix(2))
qed

lemma structural_test_passes:
  assumes C: "codecs_read P B E J"
    and dids: "settings_tests_setup P B = Inr (device, owner, other)"
    and plain: "plain_text device" "plain_text owner" "plain_text other"
    and differ: "device \<noteq> other" "owner \<noteq> other"
    and bad: "js_parse J (ascii ''not json'') = None" "did_parse P B (ascii ''did:mata:nope'') = Inl e"
    and hash: "sha256 P (str_replace (jtext ''|porch|'') (jtext ''|attic|'') (content_text device owner 1)) \<noteq>
      sha256 P (content_text device owner 1)"
  shows "the_structural_checks_each_refuse P B E J"
proof -
  let ?t = "str_replace (jtext ''|porch|'') (jtext ''|attic|'') (content_text device owner 1)"
  have nope: "plain_text (ascii ''did:mata:nope'')" "plain_text (ascii ''some-other-context'')"
    "ascii ''some-other-context'' \<noteq> STATEMENT_CONTEXT"
    by (simp_all add: plain_text_def STATEMENT_CONTEXT_def ascii_def)
  have "\<forall>x \<in> set (jtext ''|attic|''). x < 0x80" by (intro ballI jtext_ascii) simp_all
  then have "\<forall>x \<in> set ?t. x < 0x80"
    using set_str_replace [of "jtext ''|porch|''" "jtext ''|attic|''" "content_text device owner 1"]
      content_text_ascii [OF plain(1,2), of 1] by blast
  note edited = edited_refused [OF C this plain(2) hash]
  have read: "js_parse J (tests_container P E J device owner owner 1 STATEMENT_CONTEXT) =
      Some (tests_outer P E (content_text device owner 1) owner STATEMENT_CONTEXT)"
    unfolding tests_container_def by (rule outer_read [OF C plain(1,2)])
  have "check_statement P B E J (ascii ''not json'') device = Inl ''the container is not JSON''"
    by (simp add: check_statement_def bad(1))
  with edited show ?thesis
    using differ
    by (simp add: the_structural_checks_each_refuse_def dids Let_def read tests_outer_def
        container_checked [OF C] plain nope plain_prefix(2) bad(2))
qed

end
