(* ===== verification/Tests_Signatures.thy ===== *)
theory Tests_Signatures
  imports Tests_Adoption Tests_Stores Manifest Status
begin

text \<open>
  The unit tests whose point is that a signature holds for what was signed and nothing else:
  \<open>signer.rs\<close>, \<open>manifest.rs\<close>, and one each of \<open>key.rs\<close>, \<open>status.rs\<close> and \<open>adoption.rs\<close>. That ECDSA does
  not accept a signature for another hash, or under another key, is a hypothesis on the pair the
  test tries; that the code then answers \<open>Crypto\<close>, that the unchanged one passes and that a high-s
  twin or a shortened grant is refused is what is shown.
\<close>

section \<open>A signature tried elsewhere\<close>

text \<open>The key's signature over \<open>h\<close> does not pass under \<open>vk\<close> for \<open>h'\<close>.\<close>

definition fails_for :: "('sk, 'vk, 'sig) prims \<Rightarrow> ('sk, 'vk) device_key \<Rightarrow> bytes \<Rightarrow> 'vk \<Rightarrow> bytes \<Rightarrow> bool" where
  "fails_for P k h vk h' \<longleftrightarrow> \<not> ecdsa_verify P vk h' (low_s P (ecdsa_sign P (dk_secret k) h))"

lemma tried_elsewhere:
  assumes "prims_ok P" "fails_for P k h (dk_public k') h'"
  shows "verify_prehash P (did_pubkey (key_did P k')) h' (sign_prehash P k h) = Inl Crypto"
  using assms(2) prims_okD(5,12) [OF assms(1)] low_s_normal [OF assms(1)]
  by (simp add: verify_prehash_def key_did_def from_verifying_key_def sign_prehash_low_s fails_for_def)

lemma tried_on_itself:
  assumes "prims_ok P" "wf_key P k" "length h = 32"
  shows "verify_prehash P (did_pubkey (key_did P k)) h (sign_prehash P k h) = Inr ()"
  using device_signer.sign_verifies [OF key_signer_provides [OF assms(1,2)] assms(3)]
  by (simp add: key_signer_def)

text \<open>\<open>twin\<close> is the signature with \<open>n - s\<close> for \<open>s\<close>, built with \<open>p256\<close>'s scalars.\<close>

definition twin_ok :: "('sk, 'vk, 'sig) prims \<Rightarrow> ('sig \<Rightarrow> 'sig) \<Rightarrow> bool" where
  "twin_ok P twin \<longleftrightarrow> (\<forall>s. normalize_s P s = None \<longrightarrow> normalize_s P (twin s) \<noteq> None)"

lemma twin_refused:
  assumes P: "prims_ok P" and t: "twin_ok P twin"
  obtains s where "sig_from_slice P (sign_prehash P k h) = Some s"
    "\<And>pk h'. verify_prehash P pk h' (sig_to_bytes P (twin s)) = Inl Crypto"
proof -
  let ?s = "low_s P (ecdsa_sign P (dk_secret k) h)"
  have "normalize_s P (twin ?s) \<noteq> None" using t low_s_normal [OF P] by (simp add: twin_ok_def)
  then have "verify_prehash P pk h' (sig_to_bytes P (twin ?s)) = Inl Crypto" for pk h'
    by (rule verify_refuses_high_s [OF prims_okD(12) [OF P]])
  with that [of ?s] prims_okD(12) [OF P] show thesis by (simp add: sign_prehash_low_s)
qed

section \<open>The verifier and the key\<close>

definition high_s_is_rejected :: "('sk, 'vk, 'sig) prims \<Rightarrow> ('sig \<Rightarrow> 'sig) \<Rightarrow> bool" where
  "high_s_is_rejected P twin =
     (case from_seed_for_tests P (ascii ''s'') (ascii ''dev'') of
        Inl _ \<Rightarrow> False
      | Inr k \<Rightarrow>
          let prehash = sha256 P (ascii ''x''); low = sign_prehash P k prehash in
          (case sig_from_slice P low of
             None \<Rightarrow> False
           | Some sig \<Rightarrow>
               verify_prehash P (did_pubkey (key_did P k)) prehash (sig_to_bytes P (twin sig)) = Inl Crypto) \<and>
          verify_prehash P (did_pubkey (key_did P k)) prehash low = Inr ())"

definition signatures_are_low_s_and_verify :: "('sk, 'vk, 'sig) prims \<Rightarrow> bool" where
  "signatures_are_low_s_and_verify P =
     (case from_seed_for_tests P (ascii ''k'') (ascii ''dev'') of
        Inl _ \<Rightarrow> False
      | Inr k \<Rightarrow>
          let prehash = sha256 P (ascii ''hello''); sig = sign_prehash P k prehash; other = flip 0 prehash in
          verify_prehash P (did_pubkey (key_did P k)) prehash sig = Inr () \<and>
          verify_prehash P (did_pubkey (key_did P k)) other sig = Inl Crypto)"

lemma high_s_test_passes:
  assumes P: "prims_ok P" and t: "twin_ok P twin"
    and k: "from_seed_for_tests P (ascii ''s'') (ascii ''dev'') = Inr k"
  shows "high_s_is_rejected P twin"
  using P t
  by (rule twin_refused [where k = k and h = "sha256 P (ascii ''x'')"])
    (simp add: high_s_is_rejected_def k Let_def tried_on_itself [OF P seed_key(1) [OF k]] prims_okD(1) [OF P])

lemma low_s_test_passes:
  assumes P: "prims_ok P" and k: "from_seed_for_tests P (ascii ''k'') (ascii ''dev'') = Inr k"
    and other: "fails_for P k (sha256 P (ascii ''hello'')) (dk_public k) (flip 0 (sha256 P (ascii ''hello'')))"
  shows "signatures_are_low_s_and_verify P"
  by (simp add: signatures_are_low_s_and_verify_def k Let_def tried_on_itself [OF P seed_key(1) [OF k]]
      prims_okD(1) [OF P] tried_elsewhere [OF P other])

section \<open>The manifest and the maker\<close>

text \<open>\<open>m\<close> is the test's \<open>Manifest\<close>, a type of \<open>rusty_esp_core\<close>.\<close>

definition manifest_signature_round_trip_and_tamper ::
  "('sk, 'vk, 'sig) prims \<Rightarrow> 'm encoder \<Rightarrow> 'm \<Rightarrow> bool" where
  "manifest_signature_round_trip_and_tamper P enc m =
     (case from_seed_for_tests P (ascii ''m'') (ascii ''cam-1'') of
        Inl _ \<Rightarrow> False
      | Inr k \<Rightarrow>
          (case sign_manifest P enc m (key_signer P k) (replicate 512 0) of
             (Inl _, _) \<Rightarrow> False
           | (Inr (n, sig), buf) \<Rightarrow>
               verify_manifest P (take n buf) sig (did_pubkey (key_did P k)) = Inr () \<and>
               verify_manifest P (take n (flip (n - 2) buf)) sig (did_pubkey (key_did P k)) = Inl Crypto))"

definition maker_attestation :: "('sk, 'vk, 'sig) prims \<Rightarrow> bool" where
  "maker_attestation P =
     (case from_seed_for_tests P (ascii ''maker'') (ascii ''factory'') of
        Inl _ \<Rightarrow> False
      | Inr maker \<Rightarrow>
          let sig = sign_prehash P maker (maker_prehash P (ascii ''acme/doorbell-2'') (ascii ''1.4.0'')) in
          verify_maker P (ascii ''acme/doorbell-2'') (ascii ''1.4.0'') sig (did_pubkey (key_did P maker)) = Inr () \<and>
          verify_maker P (ascii ''acme/doorbell-2'') (ascii ''1.4.1'') sig (did_pubkey (key_did P maker)) = Inl Crypto)"

lemma manifest_test_passes:
  assumes P: "prims_ok P" and k: "from_seed_for_tests P (ascii ''m'') (ascii ''cam-1'') = Inr k"
    and e: "enc m (replicate 512 0) = (Inr n, buf)" "n \<le> length buf"
    and other: "fails_for P k (domain_prehash P MANIFEST_DOMAIN (take n buf)) (dk_public k)
      (domain_prehash P MANIFEST_DOMAIN (take n (flip (n - 2) buf)))"
  shows "manifest_signature_round_trip_and_tamper P enc m"
proof -
  have "sign_manifest P enc m (key_signer P k) (replicate 512 0) =
      (Inr (n, sign_prehash P k (domain_prehash P MANIFEST_DOMAIN (take n buf))), buf)"
    using e by (simp add: sign_manifest_def sign_manifest_bytes_def key_signer_def)
  then show ?thesis
    using tried_on_itself [OF P seed_key(1) [OF k]] tried_elsewhere [OF P other]
    by (simp add: manifest_signature_round_trip_and_tamper_def k verify_manifest_def domain_prehash_def
        prims_okD(1) [OF P])
qed

lemma maker_test_passes:
  assumes P: "prims_ok P" and k: "from_seed_for_tests P (ascii ''maker'') (ascii ''factory'') = Inr k"
    and other: "fails_for P k (maker_prehash P (ascii ''acme/doorbell-2'') (ascii ''1.4.0'')) (dk_public k)
      (maker_prehash P (ascii ''acme/doorbell-2'') (ascii ''1.4.1''))"
  shows "maker_attestation P"
proof -
  have "length (maker_prehash P model firmware) = 32" for model firmware
    by (simp add: maker_prehash_def prims_okD(1) [OF P])
  then show ?thesis
    by (simp add: maker_attestation_def k verify_maker_def tried_elsewhere [OF P other]
        tried_on_itself [OF P seed_key(1) [OF k]])
qed

section \<open>The status\<close>

definition signed_by_the_device_verifies_and_nothing_else_does ::
  "('sk, 'vk, 'sig) prims \<Rightarrow> bs58 \<Rightarrow> ('sig \<Rightarrow> 'sig) \<Rightarrow> bytes \<Rightarrow> bool" where
  "signed_by_the_device_verifies_and_nothing_else_does P B twin nonce =
     (case from_seed_for_tests P (ascii ''status-vector-device'') (ascii ''dev-1'') of
        Inl _ \<Rightarrow> False
      | Inr key \<Rightarrow>
        (case did_write B (key_did P key) 64 of
           Inl _ \<Rightarrow> False
         | Inr device \<Rightarrow>
           let p = adopted P nonce device (ascii ''did:mata:o'') KIND_MATA_STATEMENT (ascii ''h.p.s'');
               refused = (\<lambda>p sig. \<exists>e. status_verify P B p sig = Inl e) in
           (case status_sign P (key_signer P key) p of
              Inl _ \<Rightarrow> False
            | Inr sig \<Rightarrow>
                status_verify P B p sig = Inr () \<and>
                refused (p\<lparr>sp_nonce := replicate 32 9\<rparr>) sig \<and>
                refused (p\<lparr>sp_owner_did := ascii ''did:mata:p''\<rparr>) sig \<and>
                refused (p\<lparr>sp_adoption_kind := KIND_ADOPTION_V1\<rparr>) sig \<and>
                refused (p\<lparr>sp_adoption_hash := NO_ADOPTION\<rparr>) sig \<and>
                (case from_seed_for_tests P (ascii ''someone-else'') (ascii ''dev-2'') of
                   Inl _ \<Rightarrow> False
                 | Inr other \<Rightarrow>
                     (case status_sign P (key_signer P other) p of Inl _ \<Rightarrow> False | Inr sig \<Rightarrow> refused p sig)) \<and>
                (case sig_from_slice P sig of
                   None \<Rightarrow> False
                 | Some s \<Rightarrow> refused p (sig_to_bytes P (twin s))))))"

lemma status_signed_test_passes:
  fixes P :: "('sk, 'vk, 'sig) prims"
  assumes P: "prims_ok P" "bs58_ok B" and t: "twin_ok P twin"
    and keys: "from_seed_for_tests P (ascii ''status-vector-device'') (ascii ''dev-1'') = Inr k"
      "from_seed_for_tests P (ascii ''someone-else'') (ascii ''dev-2'') = Inr other"
    and w: "did_write B (key_did P k) 64 = Inr device" "did_parse P B device = Inr (key_did P k)" "length device \<le> 64"
    and p: "p = adopted P nonce device (ascii ''did:mata:o'') KIND_MATA_STATEMENT (ascii ''h.p.s'')"
    and changed: "\<And>q. q \<in> {p\<lparr>sp_nonce := replicate 32 9\<rparr>, p\<lparr>sp_owner_did := ascii ''did:mata:p''\<rparr>,
        p\<lparr>sp_adoption_kind := KIND_ADOPTION_V1\<rparr>, p\<lparr>sp_adoption_hash := NO_ADOPTION\<rparr>} \<Longrightarrow>
      fails_for P k (sha256 P (status_message p)) (dk_public k) (sha256 P (status_message q))"
    and others: "fails_for P other (sha256 P (status_message p)) (dk_public k) (sha256 P (status_message p))"
  shows "signed_by_the_device_verifies_and_nothing_else_does P B twin nonce"
proof -
  let ?all = "{p, p\<lparr>sp_nonce := replicate 32 9\<rparr>, p\<lparr>sp_owner_did := ascii ''did:mata:p''\<rparr>,
    p\<lparr>sp_adoption_kind := KIND_ADOPTION_V1\<rparr>, p\<lparr>sp_adoption_hash := NO_ADOPTION\<rparr>}"
  have fit: "status_lens_fit q \<and> sp_device_did q = device" if "q \<in> ?all" for q
    using that w(3) by (auto simp: p adopted_def status_lens_fit_def KIND_MATA_STATEMENT_def KIND_ADOPTION_V1_def ascii_def)
  have verify: "status_verify P B q sig = verify_prehash P (did_pubkey (key_did P k)) (sha256 P (status_message q)) sig"
    if "q \<in> ?all" for q sig
    using fit [OF that] by (simp add: status_verify_def w(2) status_prehash_eq)
  have sign: "status_sign P (key_signer P key) p = Inr (sign_prehash P key (sha256 P (status_message p)))" for key
    using fit [of p] by (simp add: status_sign_def status_prehash_eq key_signer_def)
  obtain s where s: "sig_from_slice P (sign_prehash P k (sha256 P (status_message p))) = Some s"
    "\<And>pk h. verify_prehash P pk h (sig_to_bytes P (twin s)) = Inl Crypto"
    using twin_refused [OF P(1) t] by blast
  show ?thesis
    unfolding signed_by_the_device_verifies_and_nothing_else_does_def keys sum.case w(1) Let_def p [symmetric] sign
    using tried_on_itself [OF P(1) seed_key(1) [OF keys(1)]] prims_okD(1) [OF P(1)]
    by (simp add: verify s tried_elsewhere [OF P(1)] changed others)
qed

section \<open>The grant\<close>

definition wrong_device_expiry_and_tamper :: "('sk, 'vk, 'sig) prims \<Rightarrow> bs58 \<Rightarrow> bool" where
  "wrong_device_expiry_and_tamper P B =
     (case (tests_owner P, tests_device P) of
        (Inr own, Inr dev) \<Rightarrow>
          (case to_did_string B (key_did P dev) of
             Inl _ \<Rightarrow> False
           | Inr ddid \<Rightarrow>
             (case tests_signed P B own ddid [ascii ''gpio:set''] 1 1700000500 of
                Inl _ \<Rightarrow> False
              | Inr bs \<Rightarrow>
                (case decode bs of
                   Inl _ \<Rightarrow> False
                 | Inr a \<Rightarrow>
                     accept P a (ascii ''did:mata:someoneelse'') None None = Inl Denied \<and>
                     (\<exists>pin. accept P a ddid None (Some 1700000499) = Inr pin) \<and>
                     accept P a ddid None (Some 1700000500) = Inl Denied) \<and>
                (let tampered = flip (length ADOPTION_DOMAIN + 1 + 2 + 1) bs in
                 case decode tampered of
                   Inr t \<Rightarrow> verify_signature P t = Inl Crypto
                 | Inl e \<Rightarrow> e = InvalidFormat \<or> e = Crypto) \<and>
                (\<exists>e. decode (butlast bs) = Inl e)))
      | _ \<Rightarrow> False)"

lemma tampered_not_unsupported:
  assumes "decode bs = Inr a"
  shows "decode (flip 22 bs) \<noteq> Inl Unsupported"
proof
  assume "decode (flip 22 bs) = Inl Unsupported"
  then obtain v where v: "flip 22 bs ! 18 = v" "v \<noteq> ADOPTION_VERSION" by (rule decode_unsupported)
  have "bs ! 18 = ADOPTION_VERSION"
    unfolding decode_Inr(5) [OF assms] by (simp add: canonical_def nth_append)
  with v show False by (simp add: flip_def)
qed

lemma wrong_device_test_passes:
  assumes P: "prims_ok P" "bs58_ok B" and keys: "tests_owner P = Inr own" "tests_device P = Inr dev"
    and named: "to_did_string B (key_did P dev) \<noteq> Inr (ascii ''did:mata:someoneelse'')"
    and forged: "\<And>ddid bs t. to_did_string B (key_did P dev) = Inr ddid \<Longrightarrow>
      tests_signed P B own ddid [ascii ''gpio:set''] 1 1700000500 = Inr bs \<Longrightarrow> decode (flip 22 bs) = Inr t \<Longrightarrow>
      verify_signature P t \<noteq> Inr ()"
  shows "wrong_device_expiry_and_tamper P B"
  using P
proof (rule did_string_ok [where key = dev])
  fix t
  assume t: "to_did_string B (key_did P dev) = Inr t" "t \<noteq> []" "length t \<le> 55" "utf8_valid t"
  have own: "wf_key P own" using keys(1) by (simp add: tests_owner_def seed_key(1))
  let ?caps = "[ascii ''gpio:set'']"
  have "parse (ascii ''gpio:set'') \<noteq> None" by code_simp
  then have caps: "\<forall>c \<in> set ?caps. length c \<le> MAX_FIELD_LEN \<and> parse c \<noteq> None \<and> utf8_valid c" "length ?caps \<le> MAX_CAPS"
    by (simp_all add: utf8_valid_ascii_text ascii_def)
  show ?thesis
    using P own t(2-4) caps
  proof (rule tests_adoption_signed [where rv = 1 and exp = 1700000500])
    fix a
    assume a: "tests_adoption P B own t ?caps 1 1700000500 = Inr a" "verify_signature P a = Inr ()"
      "af_device_did (ad_fields a) = t" "af_expires_at (ad_fields a) = 1700000500"
    then obtain bs where bs: "tests_signed P B own t ?caps 1 1700000500 = Inr bs" "decode bs = Inr a"
      by (auto simp: tests_adoption_def bind_res_eq_Inr)
    have other: "t \<noteq> ascii ''did:mata:someoneelse''" using named t(1) by auto
    have now: "accept P a (ascii ''did:mata:someoneelse'') None None = Inl Denied"
      "\<exists>pin. accept P a t None (Some 1700000499) = Inr pin" "accept P a t None (Some 1700000500) = Inl Denied"
      using a other by (simp_all add: accept_def)
    have tampered: "case decode (flip 22 bs) of
        Inr t \<Rightarrow> verify_signature P t = Inl Crypto | Inl e \<Rightarrow> e = InvalidFormat \<or> e = Crypto"
    proof (cases "decode (flip 22 bs)")
      case (Inl e)
      with decode_error [OF Inl] tampered_not_unsupported [OF bs(2)] show ?thesis by auto
    next
      case (Inr u)
      with forged [OF t(1) bs(1) Inr] show ?thesis
        by (cases "verify_signature P u") (auto simp: verify_signature_def dest: verify_prehash_error)
    qed
    have "0 < length bs" using decode_Inr(5) [OF bs(2)] by (simp add: canonical_def)
    then have "\<exists>e. decode (butlast bs) = Inl e"
      unfolding butlast_conv_take by (intro decode_cut_short [OF bs(2)]) simp
    with now tampered show ?thesis
      by (simp add: wrong_device_expiry_and_tamper_def keys t(1) bs Let_def)
  qed simp
qed

section \<open>Vectors in hexadecimal\<close>

definition hex :: "bytes \<Rightarrow> rstr" where
  "hex b = concat (map hex_byte b)"

end
