(* ===== verification/Sha256.thy ===== *)
theory Sha256
  imports Prelude
begin

text \<open>
  SHA-256 (FIPS 180-4), a concrete hash for the parameter \<open>sha256\<close>. The development is about any
  hash; this one lets the published test vectors of the sources be computed by the kernel. A
  32-bit word is the standard's string of 32 bits, the most significant first: rotations and
  additions on such strings evaluate quickly.
\<close>

section \<open>Words as strings of bits\<close>

type_synonym bits = "bool list"

text \<open>\<open>bits_of n i\<close> is \<open>i\<close> as \<open>n\<close> bits; \<open>of_bits\<close> reads bits back.\<close>

primrec bits_of :: "nat \<Rightarrow> int \<Rightarrow> bits" where
  "bits_of 0 i = []"
| "bits_of (Suc n) i = bits_of n (i div 2) @ [i mod 2 = 1]"

fun of_bits :: "int \<Rightarrow> bits \<Rightarrow> int" where
  "of_bits i [] = i"
| "of_bits i (b # bs) = of_bits (2 * i + (if b then 1 else 0)) bs"

fun zip3_with :: "(bool \<Rightarrow> bool \<Rightarrow> bool \<Rightarrow> bool) \<Rightarrow> bits \<Rightarrow> bits \<Rightarrow> bits \<Rightarrow> bits" where
  "zip3_with f (x # xs) (y # ys) (z # zs) = f x y z # zip3_with f xs ys zs"
| "zip3_with f _ _ _ = []"

text \<open>The standard's \<open>Parity\<close>, \<open>Ch\<close> and \<open>Maj\<close> on one bit.\<close>

fun parity :: "bool \<Rightarrow> bool \<Rightarrow> bool \<Rightarrow> bool" where
  "parity True True z = z"
| "parity True False True = False"
| "parity True False False = True"
| "parity False True True = False"
| "parity False True False = True"
| "parity False False z = z"

fun choice :: "bool \<Rightarrow> bool \<Rightarrow> bool \<Rightarrow> bool" where
  "choice True y z = y"
| "choice False y z = z"

fun majority :: "bool \<Rightarrow> bool \<Rightarrow> bool \<Rightarrow> bool" where
  "majority True True z = True"
| "majority True False z = z"
| "majority False True z = z"
| "majority False False z = False"

text \<open>Addition modulo \<open>2 ^ 32\<close>: the carry runs from the last bit to the first.\<close>

fun full_adder :: "bool \<Rightarrow> bool \<Rightarrow> bool \<times> bits \<Rightarrow> bool \<times> bits" where
  "full_adder x y (c, s) = (majority x y c, parity x y c # s)"

fun add_carry :: "bits \<Rightarrow> bits \<Rightarrow> bool \<times> bits" where
  "add_carry (x # xs) (y # ys) = full_adder x y (add_carry xs ys)"
| "add_carry _ _ = (False, [])"

definition add_bits :: "bits \<Rightarrow> bits \<Rightarrow> bits" where
  "add_bits x y = snd (add_carry x y)"

definition rotr :: "nat \<Rightarrow> bits \<Rightarrow> bits" where
  "rotr n x = drop (32 - n) x @ take (32 - n) x"

definition shr :: "nat \<Rightarrow> bits \<Rightarrow> bits" where
  "shr n x = replicate n False @ take (32 - n) x"

definition Sigma0 :: "bits \<Rightarrow> bits" where
  "Sigma0 x = zip3_with parity (rotr 2 x) (rotr 13 x) (rotr 22 x)"

definition Sigma1 :: "bits \<Rightarrow> bits" where
  "Sigma1 x = zip3_with parity (rotr 6 x) (rotr 11 x) (rotr 25 x)"

definition sigma0 :: "bits \<Rightarrow> bits" where
  "sigma0 x = zip3_with parity (rotr 7 x) (rotr 18 x) (shr 3 x)"

definition sigma1 :: "bits \<Rightarrow> bits" where
  "sigma1 x = zip3_with parity (rotr 17 x) (rotr 19 x) (shr 10 x)"

text \<open>The same functions bit by bit, for evaluation.\<close>

lemma Sigma0_bits [code]:
  "Sigma0
     [x0, x1, x2, x3, x4, x5, x6, x7, x8, x9, x10, x11, x12, x13, x14, x15, x16, x17, x18,
      x19, x20, x21, x22, x23, x24, x25, x26, x27, x28, x29, x30, x31] =
     [parity x30 x19 x10, parity x31 x20 x11, parity x0 x21 x12, parity x1 x22 x13,
      parity x2 x23 x14, parity x3 x24 x15, parity x4 x25 x16, parity x5 x26 x17,
      parity x6 x27 x18, parity x7 x28 x19, parity x8 x29 x20, parity x9 x30 x21,
      parity x10 x31 x22, parity x11 x0 x23, parity x12 x1 x24, parity x13 x2 x25,
      parity x14 x3 x26, parity x15 x4 x27, parity x16 x5 x28, parity x17 x6 x29,
      parity x18 x7 x30, parity x19 x8 x31, parity x20 x9 x0, parity x21 x10 x1,
      parity x22 x11 x2, parity x23 x12 x3, parity x24 x13 x4, parity x25 x14 x5,
      parity x26 x15 x6, parity x27 x16 x7, parity x28 x17 x8, parity x29 x18 x9]"
  by (simp add: Sigma0_def rotr_def shr_def)

lemma Sigma1_bits [code]:
  "Sigma1
     [x0, x1, x2, x3, x4, x5, x6, x7, x8, x9, x10, x11, x12, x13, x14, x15, x16, x17, x18,
      x19, x20, x21, x22, x23, x24, x25, x26, x27, x28, x29, x30, x31] =
     [parity x26 x21 x7, parity x27 x22 x8, parity x28 x23 x9, parity x29 x24 x10,
      parity x30 x25 x11, parity x31 x26 x12, parity x0 x27 x13, parity x1 x28 x14,
      parity x2 x29 x15, parity x3 x30 x16, parity x4 x31 x17, parity x5 x0 x18,
      parity x6 x1 x19, parity x7 x2 x20, parity x8 x3 x21, parity x9 x4 x22,
      parity x10 x5 x23, parity x11 x6 x24, parity x12 x7 x25, parity x13 x8 x26,
      parity x14 x9 x27, parity x15 x10 x28, parity x16 x11 x29, parity x17 x12 x30,
      parity x18 x13 x31, parity x19 x14 x0, parity x20 x15 x1, parity x21 x16 x2,
      parity x22 x17 x3, parity x23 x18 x4, parity x24 x19 x5, parity x25 x20 x6]"
  by (simp add: Sigma1_def rotr_def shr_def)

lemma small_sigma0_bits [code]:
  "sigma0
     [x0, x1, x2, x3, x4, x5, x6, x7, x8, x9, x10, x11, x12, x13, x14, x15, x16, x17, x18,
      x19, x20, x21, x22, x23, x24, x25, x26, x27, x28, x29, x30, x31] =
     [parity x25 x14 False, parity x26 x15 False, parity x27 x16 False, parity x28 x17 x0,
      parity x29 x18 x1, parity x30 x19 x2, parity x31 x20 x3, parity x0 x21 x4,
      parity x1 x22 x5, parity x2 x23 x6, parity x3 x24 x7, parity x4 x25 x8,
      parity x5 x26 x9, parity x6 x27 x10, parity x7 x28 x11, parity x8 x29 x12,
      parity x9 x30 x13, parity x10 x31 x14, parity x11 x0 x15, parity x12 x1 x16,
      parity x13 x2 x17, parity x14 x3 x18, parity x15 x4 x19, parity x16 x5 x20,
      parity x17 x6 x21, parity x18 x7 x22, parity x19 x8 x23, parity x20 x9 x24,
      parity x21 x10 x25, parity x22 x11 x26, parity x23 x12 x27, parity x24 x13 x28]"
  by (simp add: sigma0_def rotr_def shr_def numeral_eq_Suc)

lemma small_sigma1_bits [code]:
  "sigma1
     [x0, x1, x2, x3, x4, x5, x6, x7, x8, x9, x10, x11, x12, x13, x14, x15, x16, x17, x18,
      x19, x20, x21, x22, x23, x24, x25, x26, x27, x28, x29, x30, x31] =
     [parity x15 x13 False, parity x16 x14 False, parity x17 x15 False, parity x18 x16 False,
      parity x19 x17 False, parity x20 x18 False, parity x21 x19 False, parity x22 x20 False,
      parity x23 x21 False, parity x24 x22 False, parity x25 x23 x0, parity x26 x24 x1,
      parity x27 x25 x2, parity x28 x26 x3, parity x29 x27 x4, parity x30 x28 x5,
      parity x31 x29 x6, parity x0 x30 x7, parity x1 x31 x8, parity x2 x0 x9,
      parity x3 x1 x10, parity x4 x2 x11, parity x5 x3 x12, parity x6 x4 x13,
      parity x7 x5 x14, parity x8 x6 x15, parity x9 x7 x16, parity x10 x8 x17,
      parity x11 x9 x18, parity x12 x10 x19, parity x13 x11 x20, parity x14 x12 x21]"
  by (simp add: sigma1_def rotr_def shr_def numeral_eq_Suc)

definition K256 :: "bits list" where
  "K256 = map (bits_of 32)
    [0x428A2F98, 0x71374491, 0xB5C0FBCF, 0xE9B5DBA5, 0x3956C25B, 0x59F111F1,
     0x923F82A4, 0xAB1C5ED5, 0xD807AA98, 0x12835B01, 0x243185BE, 0x550C7DC3,
     0x72BE5D74, 0x80DEB1FE, 0x9BDC06A7, 0xC19BF174, 0xE49B69C1, 0xEFBE4786,
     0x0FC19DC6, 0x240CA1CC, 0x2DE92C6F, 0x4A7484AA, 0x5CB0A9DC, 0x76F988DA,
     0x983E5152, 0xA831C66D, 0xB00327C8, 0xBF597FC7, 0xC6E00BF3, 0xD5A79147,
     0x06CA6351, 0x14292967, 0x27B70A85, 0x2E1B2138, 0x4D2C6DFC, 0x53380D13,
     0x650A7354, 0x766A0ABB, 0x81C2C92E, 0x92722C85, 0xA2BFE8A1, 0xA81A664B,
     0xC24B8B70, 0xC76C51A3, 0xD192E819, 0xD6990624, 0xF40E3585, 0x106AA070,
     0x19A4C116, 0x1E376C08, 0x2748774C, 0x34B0BCB5, 0x391C0CB3, 0x4ED8AA4A,
     0x5B9CCA4F, 0x682E6FF3, 0x748F82EE, 0x78A5636F, 0x84C87814, 0x8CC70208,
     0x90BEFFFA, 0xA4506CEB, 0xBEF9A3F7, 0xC67178F2]"

definition H256 :: "bits list" where
  "H256 = map (bits_of 32)
    [0x6A09E667, 0xBB67AE85, 0x3C6EF372, 0xA54FF53A, 0x510E527F, 0x9B05688C,
     0x1F83D9AB, 0x5BE0CD19]"

section \<open>A block\<close>

text \<open>The schedule: the last sixteen words of it, and \<open>n\<close> still to come.\<close>

primrec extend_schedule :: "nat \<Rightarrow> bits list \<Rightarrow> bits list" where
  "extend_schedule 0 w = w"
| "extend_schedule (Suc n) w =
     hd w # extend_schedule n (tl w @
       [add_bits (add_bits (sigma1 (w ! 14)) (w ! 9)) (add_bits (sigma0 (w ! 1)) (w ! 0))])"

fun sha_step :: "bits \<Rightarrow> bits list \<Rightarrow> bits list" where
  "sha_step t [a, b, c, d, e, f, g, h] =
     [add_bits t (add_bits (Sigma0 a) (zip3_with majority a b c)), a, b, c, add_bits d t, e, f, g]"
| "sha_step t s = s"

fun sha_round :: "bits \<Rightarrow> bits list \<Rightarrow> bits list" where
  "sha_round kw [a, b, c, d, e, f, g, h] =
     sha_step (add_bits (add_bits h (Sigma1 e)) (add_bits (zip3_with choice e f g) kw))
       [a, b, c, d, e, f, g, h]"
| "sha_round kw s = s"

fun sha_rounds :: "bits list \<Rightarrow> bits list \<Rightarrow> bits list \<Rightarrow> bits list" where
  "sha_rounds (k # ks) (w # ws) s = sha_rounds ks ws (sha_round (add_bits k w) s)"
| "sha_rounds _ _ s = s"

definition compress :: "bits list \<Rightarrow> bits list \<Rightarrow> bits list" where
  "compress s block = map2 add_bits s (sha_rounds K256 (extend_schedule 48 block) s)"

section \<open>A message\<close>

definition byte_bits :: "u8 \<Rightarrow> bits" where
  "byte_bits b = bits_of 8 (uint b)"

fun words_of :: "bytes \<Rightarrow> bits list" where
  "words_of (a # b # c # d # m) =
     (byte_bits a @ byte_bits b @ byte_bits c @ byte_bits d) # words_of m"
| "words_of _ = []"

text \<open>The padding: a one bit, zeros, and the length in bits in the last two words.\<close>

definition padded :: "bytes \<Rightarrow> bits list" where
  "padded m =
     (let z = (119 - length m mod 64) mod 64; n = bits_of 64 (8 * int (length m)) in
      words_of (m @ 0x80 # replicate z 0) @ [take 32 n, drop 32 n])"

fun sha_blocks :: "bits list \<Rightarrow> bits list \<Rightarrow> bits list" where
  "sha_blocks s ws =
     (if length ws < 16 then s else sha_blocks (compress s (take 16 ws)) (drop 16 ws))"

declare sha_blocks.simps [simp del]

definition word_bytes :: "bits \<Rightarrow> bytes" where
  "word_bytes x = map (\<lambda>i. of_int (of_bits 0 (take 8 (drop i x)))) [0, 8, 16, 24]"

definition fips_sha256 :: "bytes \<Rightarrow> bytes" where
  "fips_sha256 m = concat (map word_bytes (sha_blocks H256 (padded m)))"

section \<open>The digest's length\<close>

lemma length_sha_round: "length (sha_round kw s) = length s"
  by (induction kw s rule: sha_round.induct) simp_all

lemma length_sha_rounds: "length (sha_rounds ks ws s) = length s"
  by (induction ks ws s rule: sha_rounds.induct) (simp_all add: length_sha_round)

lemma length_sha_blocks: "length (sha_blocks s ws) = length s"
proof (induction s ws rule: sha_blocks.induct)
  case (1 s ws)
  then show ?case by (subst sha_blocks.simps) (simp add: compress_def length_sha_rounds)
qed

lemma length_fips_sha256: "length (fips_sha256 m) = 32"
proof -
  have "length (concat (map word_bytes ws)) = 4 * length ws" for ws
    by (induction ws) (simp_all add: word_bytes_def)
  then show ?thesis by (simp add: fips_sha256_def length_sha_blocks H256_def)
qed

section \<open>Published values\<close>

lemma sha256_abc:
  "fips_sha256 (ascii ''abc'') =
     [0xba, 0x78, 0x16, 0xbf, 0x8f, 0x01, 0xcf, 0xea, 0x41, 0x41, 0x40, 0xde, 0x5d, 0xae, 0x22, 0x23,
      0xb0, 0x03, 0x61, 0xa3, 0x96, 0x17, 0x7a, 0x9c, 0xb4, 0x10, 0xff, 0x61, 0xf2, 0x00, 0x15, 0xad]"
  by code_simp

lemma sha256_two_blocks:
  "fips_sha256 (ascii ''abcdbcdecdefdefgefghfghighijhijkijkljklmklmnlmnomnopnopq'') =
     [0x24, 0x8d, 0x6a, 0x61, 0xd2, 0x06, 0x38, 0xb8, 0xe5, 0xc0, 0x26, 0x93, 0x0c, 0x3e, 0x60, 0x39,
      0xa3, 0x3c, 0xe4, 0x59, 0x64, 0xff, 0x21, 0x67, 0xf6, 0xec, 0xed, 0xd4, 0x19, 0xdb, 0x06, 0xc1]"
  by code_simp

end
