(* ===== verification/Tests_Vectors.thy ===== *)
theory Tests_Vectors
  imports Tests_Signatures Sha256
begin

unbundle bit_operations_syntax

text \<open>
  The tests against published vectors of \<open>key.rs\<close> (an HMAC) and \<open>status.rs\<close> (\<open>mod vector\<close>). Their hash
  values are computed here, with SHA-256 as FIPS 180-4 defines it, and agree byte for byte with the
  values the repository took from an independent implementation; so the secret of the seed, the
  signed message and its hash are the vector's with nothing assumed. What P-256 and base58 give at
  the vector's inputs is a hypothesis, \<open>p256_vector\<close>.
\<close>

section \<open>The HMAC\<close>

definition the_hmac_is_rfc_2104 :: "('sk, 'vk, 'sig) prims \<Rightarrow> bool" where
  "the_hmac_is_rfc_2104 P =
     (let key = map of_nat [0..<32]; point = map of_nat [0..<65];
          want = ascii ''995344122d0856813204d39680b03b01c1e2c654e80a4d06986d7f20f0760221'';
          got = hmac_sha256 P key [PUB_DOMAIN, point] in
      hex got = want)"

lemma hmac_value:
  "hex (fips_sha256 (hmac_pad 0x5C (map of_nat [0..<32]) @
     fips_sha256 (hmac_pad 0x36 (map of_nat [0..<32]) @ concat [PUB_DOMAIN, map of_nat [0..<65]]))) =
   ascii ''995344122d0856813204d39680b03b01c1e2c654e80a4d06986d7f20f0760221''"
  by code_simp

text \<open>With SHA-256 for its hash the model's HMAC has Python's value: nothing else is assumed.\<close>

theorem hmac_test_passes:
  assumes "sha256 P = fips_sha256"
  shows "the_hmac_is_rfc_2104 P"
  using hmac_value by (simp add: the_hmac_is_rfc_2104_def hmac_sha256_def assms Let_def)

section \<open>The status vector\<close>

definition SECRET :: rstr where
  "SECRET = ascii ''b2f00d8c0abf7e2cffa4dcad2d2b27cf47656e2b97eb19e787c5f69ec0572e67''"

definition DEVICE_DID :: rstr where
  "DEVICE_DID = ascii ''did:mata:huF8W8oTSzSJybQztujeQc5BLiiMXYG7xUtXgkEkXjYj''"

definition NONCE :: bytes where
  "NONCE = [0, 1, 2, 3, 4, 5, 6, 7, 8, 9, 10, 11, 12, 13, 14, 15, 16, 17, 18, 19, 20, 21, 22, 23,
     24, 25, 26, 27, 28, 29, 30, 31]"

definition OWNER_DID :: rstr where
  "OWNER_DID = ascii ''did:mata:zOwnerForTheVector''"

definition ADOPTION :: bytes where
  "ADOPTION = ascii ''janus-adoption-v1 vector bytes''"

definition MESSAGE :: rstr where
  "MESSAGE = concat (map ascii
     [''6a616e75732d7374617475732d76310a01000102030405060708090a0b0c0d0e0f101112131415161718191a'',
      ''1b1c1d1e1f00356469643a6d6174613a6875463857386f54537a534a7962517a74756a65516335424c69694d'',
      ''5859473778557458676b456b586a596a001b6469643a6d6174613a7a4f776e6572466f72546865566563746f'',
      ''7200116a616e75732d61646f7074696f6e2d7631cc0fe955facc03fe83d5c98365c445eea2f021139e78ec8c'',
      ''fbd120c991f9bb1e''])"

definition PREHASH :: rstr where
  "PREHASH = ascii ''ff77b0f7d0d4433bac8c76ddafbb4c1f9257a803a59fdc4efb3622c5567079ba''"

definition SIGNATURE :: rstr where
  "SIGNATURE = concat (map ascii
     [''af346d509a8ec6e32161250a41c9ee4f88197c136c3f977132964f4d542a9ffb068d86182fafa42a2a44787f'',
      ''0c107f71ec553f1a0414292948848ae8bf4d25df''])"

definition vector_key :: "('sk, 'vk, 'sig) prims \<Rightarrow> ('sk, 'vk) device_key result" where
  "vector_key P = from_seed_for_tests P (ascii ''janus-status-v1-vector'') (ascii ''vector'')"

definition the_chip_produces_exactly_the_vector :: "('sk, 'vk, 'sig) prims \<Rightarrow> bs58 \<Rightarrow> bool" where
  "the_chip_produces_exactly_the_vector P B =
     (case vector_key P of
        Inl _ \<Rightarrow> False
      | Inr key \<Rightarrow>
        hex (secret_bytes P key) = SECRET \<and>
        did_write B (key_did P key) 64 = Inr DEVICE_DID \<and>
        (let p = adopted P NONCE DEVICE_DID OWNER_DID KIND_ADOPTION_V1 ADOPTION in
         (case status_write p (replicate 256 0) of
            (Inl _, _) \<Rightarrow> False
          | (Inr n, out) \<Rightarrow> hex (take n out) = MESSAGE) \<and>
         (case status_prehash P p of Inl _ \<Rightarrow> False | Inr h \<Rightarrow> hex h = PREHASH) \<and>
         (case status_sign P (key_signer P key) p of
            Inl _ \<Rightarrow> False
          | Inr sig \<Rightarrow> hex sig = SIGNATURE \<and> status_verify P B p sig = Inr ())))"

text \<open>What the kernel computes of it: the secret of the seed, the message and its hash.\<close>

definition vector_proof :: status_proof where
  "vector_proof = \<lparr>sp_nonce = NONCE, sp_device_did = DEVICE_DID, sp_owner_did = OWNER_DID,
     sp_adoption_kind = KIND_ADOPTION_V1, sp_adoption_hash = fips_sha256 ADOPTION\<rparr>"

lemma vector_secret:
  "hex (fips_sha256 (ascii ''janus-status-v1-vector'' @ ascii ''-rusty-esp-mid-test-seed'')) = SECRET"
  by code_simp

lemma vector_message: "hex (status_message vector_proof) = MESSAGE"
  by code_simp

lemma vector_prehash: "hex (fips_sha256 (status_message vector_proof)) = PREHASH"
  by code_simp

lemma vector_fits: "status_lens_fit vector_proof" "status_len vector_proof = 184"
    "sp_device_did vector_proof = DEVICE_DID"
  by (simp_all add: status_lens_fit_def status_len_def vector_proof_def DEVICE_DID_def OWNER_DID_def
      KIND_ADOPTION_V1_def STATUS_DOMAIN_def ascii_def)

lemma vector_written:
  "status_write vector_proof (replicate 256 0) = (Inr 184, status_message vector_proof @ replicate 72 0)"
  and length_vector_message: "length (status_message vector_proof) = 184"
proof -
  have "length (sp_nonce vector_proof) = 32" "length (sp_adoption_hash vector_proof) = 32"
    by (simp_all add: vector_proof_def NONCE_def length_fips_sha256)
  with vector_fits status_len_message [of vector_proof] status_write_message [of vector_proof "replicate 256 0"]
  show "status_write vector_proof (replicate 256 0) = (Inr 184, status_message vector_proof @ replicate 72 0)"
    "length (status_message vector_proof) = 184"
    by simp_all
qed

lemma adopted_vector:
  "sha256 P = fips_sha256 \<Longrightarrow>
     adopted P NONCE DEVICE_DID OWNER_DID KIND_ADOPTION_V1 ADOPTION = vector_proof"
  by (simp add: adopted_def vector_proof_def)

text \<open>A DID's text, in whatever buffer it was written, reads back.\<close>

lemma written_parses:
  assumes "bs58_ok B" "valid_did P d" "did_write B d n = Inr s"
  shows "did_parse P B s = Inr d"
proof -
  from assms(2) have len: "length (did_pubkey d) = PUBKEY_LEN" by (simp add: valid_did_def)
  from assms(1) len show ?thesis
  proof (rule bs58_text)
    fix t
    assume t: "t \<noteq> []" "length t \<le> MAX_BASE58_LEN" "\<forall>x \<in> set t. x < 0x80"
      "\<And>n. b58_encode B (did_pubkey d) n = (if length t \<le> n then Some t else None)"
      "b58_decode B t (PUBKEY_LEN + 1) = Some (did_pubkey d)"
    have "s = DID_PREFIX @ t"
      using assms(3) by (simp add: did_write_def write_with_prefix_text [OF ascii_prefixes(1) t(3,1,4)] split: if_splits)
    with from_base58_text [OF assms(2) t(1,2,5)] show ?thesis by (simp add: parse_strings)
  qed
qed

text \<open>
  The vector's own values for P-256 and base58: the scalar \<open>d\<close> of the secret, its key's DID, and the
  signature RFC 6979 gives over the vector's hash.
\<close>

definition p256_vector :: "('sk, 'vk, 'sig) prims \<Rightarrow> bs58 \<Rightarrow> 'sk \<Rightarrow> bool" where
  "p256_vector P B d \<longleftrightarrow>
     (\<forall>b. hex b = SECRET \<longrightarrow> scalar_from_repr P b = Some d) \<and>
     did_write B (from_verifying_key P (public_of P d)) 64 = Inr DEVICE_DID \<and>
     (\<forall>h. hex h = PREHASH \<longrightarrow> hex (sig_to_bytes P (low_s P (ecdsa_sign P d h))) = SIGNATURE)"

lemma vector_key_made:
  assumes "sha256 P = fips_sha256" "p256_vector P B d"
  obtains k where "vector_key P = Inr k" "dk_secret k = d" "wf_key P k"
    "scalar_from_repr P (fips_sha256 (ascii ''janus-status-v1-vector'' @ ascii ''-rusty-esp-mid-test-seed'')) = Some d"
proof -
  let ?secret = "fips_sha256 (ascii ''janus-status-v1-vector'' @ ascii ''-rusty-esp-mid-test-seed'')"
  have "\<exists>i. device_id_new (ascii ''vector'') = Inr i"
    by (simp add: device_id_new_def ascii_def is_ascii_alphanumeric_def Let_def)
  then obtain i where i: "device_id_new (ascii ''vector'') = Inr i" by blast
  have s: "scalar_from_repr P ?secret = Some d"
    using assms(2) vector_secret by (simp add: p256_vector_def)
  let ?k = "\<lparr>dk_secret = d, dk_public = public_of P d, dk_device_id = i\<rparr>"
  have "from_secret P ?secret (ascii ''vector'') = Inr ?k"
    using i s by (simp add: from_secret_Inr)
  then have k: "vector_key P = Inr ?k"
    by (simp add: vector_key_def from_seed_for_tests_def assms(1))
  with s seed_key(1) show thesis by (intro that [of ?k]) (auto simp: vector_key_def)
qed

lemma vector_signed:
  assumes P: "prims_ok P" "bs58_ok B" and h: "sha256 P = fips_sha256" and v: "p256_vector P B d"
    and k: "vector_key P = Inr k" "dk_secret k = d" "wf_key P k"
  shows "did_write B (key_did P k) 64 = Inr DEVICE_DID" and "did_parse P B DEVICE_DID = Inr (key_did P k)"
    and "hex (sign_prehash P k (fips_sha256 (status_message vector_proof))) = SIGNATURE"
proof -
  show w: "did_write B (key_did P k) 64 = Inr DEVICE_DID"
    using v k(2,3) by (simp add: p256_vector_def key_did_def wf_key_def)
  have "valid_did P (key_did P k)" using valid_from_verifying_key [OF P(1)] by (simp add: key_did_def)
  from P(2) this w show "did_parse P B DEVICE_DID = Inr (key_did P k)" by (rule written_parses)
  show "hex (sign_prehash P k (fips_sha256 (status_message vector_proof))) = SIGNATURE"
    using v k(2) vector_prehash by (simp add: p256_vector_def sign_prehash_low_s)
qed

text \<open>The chip's bytes are the vector's.\<close>

theorem status_vector_test_passes:
  assumes P: "prims_ok P" "bs58_ok B" and h: "sha256 P = fips_sha256" and v: "p256_vector P B d"
  shows "the_chip_produces_exactly_the_vector P B"
  using h v
proof (rule vector_key_made)
  fix k
  assume k: "vector_key P = Inr k" "dk_secret k = d" "wf_key P k"
    "scalar_from_repr P (fips_sha256 (ascii ''janus-status-v1-vector'' @ ascii ''-rusty-esp-mid-test-seed'')) = Some d"
  note s = vector_signed [OF P h v k(1-3)]
  have "hex (secret_bytes P k) = SECRET"
    using prims_okD(2) [OF P(1) k(4)] vector_secret by (simp add: secret_bytes_def k(2))
  moreover have "status_sign P (key_signer P k) vector_proof =
      Inr (sign_prehash P k (fips_sha256 (status_message vector_proof)))"
    by (simp add: status_sign_def status_prehash_eq vector_fits h key_signer_def)
  moreover have "status_verify P B vector_proof sig =
      verify_prehash P (did_pubkey (key_did P k)) (fips_sha256 (status_message vector_proof)) sig" for sig
      using s(2) by (simp add: status_verify_def status_prehash_eq vector_fits(1,3) h)
  ultimately show ?thesis
    using s tried_on_itself [OF P(1) k(3), of "fips_sha256 (status_message vector_proof)"]
    by (simp add: the_chip_produces_exactly_the_vector_def k(1) adopted_vector [OF h] vector_written
        length_vector_message vector_message status_prehash_eq vector_fits h vector_prehash length_fips_sha256)
qed

section \<open>The document that carries it\<close>

text \<open>\<open>value[key]\<close> is \<open>Null\<close> where there is no such entry.\<close>

definition json_index :: "json \<Rightarrow> string \<Rightarrow> json" where
  "json_index v k = (case json_get v (ascii k) of None \<Rightarrow> JNull | Some x \<Rightarrow> x)"

definition vector_document :: status_document where
  "vector_document = \<lparr>sd_device_did = DEVICE_DID, sd_maker_did = Some (ascii ''did:mata:maker''),
     sd_model = ascii ''XIAO ESP32-S3 Sense camera'', sd_node_id = None,
     sd_adoption = Some \<lparr>sad_owner_did = OWNER_DID, sad_kind = KIND_ADOPTION_V1, sad_bytes = ADOPTION\<rparr>,
     sd_extra = [(ascii ''boots'', JPos 7), (ascii ''device_did'', JStr (ascii ''did:mata:someoneElse''))]\<rparr>"

definition the_document_carries_the_vector :: "('sk, 'vk, 'sig) prims \<Rightarrow> bs58 \<Rightarrow> b64 \<Rightarrow> bool" where
  "the_document_carries_the_vector P B E =
     (case vector_key P of
        Inl _ \<Rightarrow> False
      | Inr key \<Rightarrow>
        let doc = vector_document in
        doc_plain doc = JObj
          [(ascii ''pair'', JObj [(ascii ''paired'', JObj [(ascii ''owner_did'', JStr OWNER_DID)])]),
           (ascii ''maker_did'', JStr (ascii ''did:mata:maker'')),
           (ascii ''model'', JStr (ascii ''XIAO ESP32-S3 Sense camera'')),
           (ascii ''device_did'', JStr DEVICE_DID), (ascii ''node_id'', JNull)] \<and>
        (case doc_signed P E doc NONCE (sign_prehash P key) of
           Inl _ \<Rightarrow> False
         | Inr served \<Rightarrow>
             let s = (\<lambda>k. as_str (json_index served k)) in
             map_option hex (Option.bind (s ''device_sig'') (b64_decode E)) = Some SIGNATURE \<and>
             Option.bind (s ''adoption'') (b64_decode E) = Some ADOPTION \<and>
             s ''owner_did'' = Some OWNER_DID \<and>
             s ''adoption_kind'' = Some KIND_ADOPTION_V1 \<and>
             s ''device_did'' = Some DEVICE_DID \<and>
             json_index served ''boots'' = JPos 7 \<and>
             json_index served ''node_id'' = JNull) \<and>
        (let doc = doc\<lparr>sd_adoption := None, sd_extra := []\<rparr> in
         json_index (doc_plain doc) ''pair'' = JStr (ascii ''ready'') \<and>
         (case doc_signed P E doc NONCE (sign_prehash P key) of
            Inl _ \<Rightarrow> False
          | Inr served \<Rightarrow>
              list_all (\<lambda>k. json_get served (ascii k) = None) [''owner_did'', ''adoption_kind'', ''adoption''] \<and>
              (case Option.bind (as_str (json_index served ''device_sig'')) (b64_decode E) of
                 None \<Rightarrow> False
               | Some sig \<Rightarrow>
                   length sig = 64 \<and>
                   status_verify P B (unadopted NONCE DEVICE_DID) sig = Inr ()))))"

lemma doc_signed_runs:
  "status_lens_fit (doc_proof P d nonce) \<Longrightarrow> \<exists>doc. doc_signed P E d nonce sign = Inr doc"
  by (simp add: doc_signed_def status_prehash_eq Let_def)

lemma vector_document_fields:
  "sd_device_did vector_document = DEVICE_DID" "sd_maker_did vector_document = Some (ascii ''did:mata:maker'')"
  "sd_model vector_document = ascii ''XIAO ESP32-S3 Sense camera''" "sd_node_id vector_document = None"
  "sd_adoption vector_document =
     Some \<lparr>sad_owner_did = OWNER_DID, sad_kind = KIND_ADOPTION_V1, sad_bytes = ADOPTION\<rparr>"
  "sd_extra vector_document =
     [(ascii ''boots'', JPos 7), (ascii ''device_did'', JStr (ascii ''did:mata:someoneElse''))]"
  by (simp_all add: vector_document_def)

lemma unadopted_fits:
  "status_lens_fit (unadopted NONCE DEVICE_DID)" "sp_device_did (unadopted NONCE DEVICE_DID) = DEVICE_DID"
  by (simp_all add: status_lens_fit_def unadopted_def DEVICE_DID_def ascii_def)

theorem status_document_test_passes:
  assumes P: "prims_ok P" "bs58_ok B" and E: "b64_ok E" and h: "sha256 P = fips_sha256"
    and v: "p256_vector P B d"
  shows "the_document_carries_the_vector P B E"
  using h v
proof (rule vector_key_made)
  fix k
  assume k: "vector_key P = Inr k" "dk_secret k = d" "wf_key P k"
  note s = vector_signed [OF P h v k]
  let ?sig = "sign_prehash P k"
  let ?bare = "vector_document\<lparr>sd_adoption := None, sd_extra := []\<rparr>"
  have p: "doc_proof P vector_document NONCE = vector_proof"
    using adopted_vector [OF h] by (simp add: doc_proof_def vector_document_fields)
  have b: "doc_proof P ?bare NONCE = unadopted NONCE DEVICE_DID"
    by (simp add: doc_proof_def vector_document_fields)
  obtain served where served: "doc_signed P E vector_document NONCE ?sig = Inr served"
    using doc_signed_runs [of P vector_document NONCE E ?sig] vector_fits(1) p by auto
  obtain bare where bare: "doc_signed P E ?bare NONCE ?sig = Inr bare"
    using doc_signed_runs [of P ?bare NONCE E ?sig] unadopted_fits b by auto
  note get = doc_signed_get [OF served] doc_signed_get [OF bare]
  have fields: "json_index served ''device_sig'' = JStr (b64_encode E (?sig (fips_sha256 (status_message vector_proof))))"
    "json_index served ''adoption'' = JStr (b64_encode E ADOPTION)"
    "json_index served ''owner_did'' = JStr OWNER_DID" "json_index served ''adoption_kind'' = JStr KIND_ADOPTION_V1"
    "json_index served ''device_did'' = JStr DEVICE_DID" "json_index served ''boots'' = JPos 7"
    "json_index served ''node_id'' = JNull"
    by (simp_all add: json_index_def get p h adoption_field_def contract_fields vector_document_fields
        doc_plain_def plain_entries_def opt_str_def)
  have none: "json_get bare (ascii ''owner_did'') = None" "json_get bare (ascii ''adoption_kind'') = None"
    "json_get bare (ascii ''adoption'') = None"
    "json_index bare ''device_sig'' = JStr (b64_encode E (?sig (fips_sha256 (status_message (unadopted NONCE DEVICE_DID)))))"
    by (simp_all add: json_index_def get b h adoption_field_def vector_document_fields)
  have "status_verify P B (unadopted NONCE DEVICE_DID) (?sig (fips_sha256 (status_message (unadopted NONCE DEVICE_DID)))) = Inr ()"
    using s(2) tried_on_itself [OF P(1) k(3)] unadopted_fits
    by (simp add: status_verify_def status_prehash_eq h length_fips_sha256)
  moreover have "length (?sig m) = 64" for m by (simp add: sign_prehash_low_s prims_okD(11) [OF P(1)])
  moreover have "doc_plain vector_document = JObj
      [(ascii ''pair'', JObj [(ascii ''paired'', JObj [(ascii ''owner_did'', JStr OWNER_DID)])]),
       (ascii ''maker_did'', JStr (ascii ''did:mata:maker'')),
       (ascii ''model'', JStr (ascii ''XIAO ESP32-S3 Sense camera'')),
       (ascii ''device_did'', JStr DEVICE_DID), (ascii ''node_id'', JNull)]"
    "json_index (doc_plain ?bare) ''pair'' = JStr (ascii ''ready'')"
    by (simp_all add: doc_plain_def plain_entries_def doc_pair_def opt_str_def vector_document_fields json_index_def)
  ultimately show ?thesis
    unfolding the_document_carries_the_vector_def k(1) sum.case Let_def served bare
    by (simp add: fields none b64_okD(1) [OF E] s(3) as_str_def)
qed

end
