(* ===== verification/Tests_Reply.thy ===== *)
theory Tests_Reply
  imports Tests_Signatures Setup Sha256
begin

unbundle bit_operations_syntax

text \<open>
  The golden Reply of \<open>setup.rs\<close>: the fixture's text, how the test reads it, the high-s twin it
  builds, and the test itself. The fixture's values and the hash of its Reply are computed here,
  with SHA-256 as FIPS 180-4 defines it; what P-256 gives for them is the hypothesis \<open>p256_golden\<close>.
\<close>

section \<open>The fixture\<close>

text \<open>The fixture \<open>setup-reply-v1.txt\<close>, line by line.\<close>

definition fixture_lines :: "string list" where
  "fixture_lines =
   [''# The Reply of the setup protocol v1 golden session: these lines are copied from'',
    ''# rusty_esp_signal/crates/rusty_esp_signal-core/tests/fixtures/setup/session-v1.txt'',
    ''# (written by rusty_esp_signal/tools/setup_golden.py). Do not edit.'',
    ''device_secret = aec2de9c05d7cee0d96add6746f444d115388cd66dc9e5ef07809de578c01b34'',
    ''devpub = 03e128d03b1a6a2871504d1b66d8996ecf461e7def88c169b6ec8645d9ce106ffe'',
    ''context = 6a616e75732d73657475702d763103626c6503e128d03b1a6a2871504d1b66d8996ecf461e7def88'' @
      ''c169b6ec8645d9ce106ffe'',
    ''shareP = 0404406abc03a72dc015a20b38340267d7a4c33b175fcde4f811ffe70e4b341e87c764836e7d15036'' @
      ''afcdab12f2a2c380227cb7699fa67e3f1c9b2c0068aa31013'',
    ''shareV = 041b30ef5bea166b73c42b97783ff3c2b97423afcd6d21c42a2c2a6d015e70ad2bdea67876d59263f'' @
      ''44e87f6eb8ee0cb3c81af00b495099a9da22245caad8e3e27'',
    ''confirmV = 5a43c83067eaf49704dd44e4430c506d147298dfe42e567b594a25e0daa22143'',
    ''reply_prehash = cede598fe28677725573e66ff97af1e32b9b68e234f4225b2921a5e54b9cee8c'',
    ''reply_sig = 70cb985b1a441c0c447649014881cc9c4a178762d7abb0f64a4ee07a6cd8b5ac05b3b9e1037829'' @
      ''2a036066f86d0f281636c4af0143a4c911aecc34dbddecdb8d'']"

definition setup_reply_v1 :: rstr where
  "setup_reply_v1 = ascii (concat (map (\<lambda>l. l @ [CHR 0x0A]) fixture_lines))"

text \<open>\<open>str::split\<close> with a text as separator, and \<open>str::lines\<close> of a text without carriage returns.\<close>

fun split_seq :: "'a list \<Rightarrow> 'a list \<Rightarrow> 'a list list" where
  "split_seq sep [] = [[]]"
| "split_seq sep (x # xs) =
     (if sep \<noteq> [] \<and> take (length sep) (x # xs) = sep then [] # split_seq sep (drop (length sep - 1) xs)
      else case split_seq sep xs of [] \<Rightarrow> [[x]] | p # ps \<Rightarrow> (x # p) # ps)"

definition lines_at :: "'a \<Rightarrow> 'a list \<Rightarrow> 'a list list" where
  "lines_at nl t = (let ls = split_seq [nl] t in if last ls = [] then butlast ls else ls)"

definition lookup_line :: "'a \<Rightarrow> 'a list \<Rightarrow> 'a list \<Rightarrow> 'a list \<Rightarrow> 'a list option" where
  "lookup_line nl eq f k =
     Option.bind (List.find (\<lambda>l. take (length (k @ eq)) l = k @ eq) (lines_at nl f)) (\<lambda>line.
       (case split_seq eq line of _ # v # _ \<Rightarrow> Some v | _ \<Rightarrow> None))"

definition fixture_get :: "rstr \<Rightarrow> string \<Rightarrow> rstr option" where
  "fixture_get f k = lookup_line 0x0A (ascii '' = '') f (ascii k)"

text \<open>\<open>u8::from_str_radix(s, 16)\<close>: either case, and a plus sign; nothing else.\<close>

definition hex_value :: "u8 \<Rightarrow> nat option" where
  "hex_value c =
     (if 0x30 \<le> c \<and> c \<le> 0x39 then Some (unat (c - 0x30))
      else if 0x61 \<le> c \<and> c \<le> 0x66 then Some (unat (c - 0x61) + 10)
      else if 0x41 \<le> c \<and> c \<le> 0x46 then Some (unat (c - 0x41) + 10)
      else None)"

definition u8_from_radix_16 :: "rstr \<Rightarrow> u8 option" where
  "u8_from_radix_16 s =
     (let ds = (case s of [] \<Rightarrow> [] | c # r \<Rightarrow> if c = 0x2B then r else s) in
      if ds = [] then None
      else Option.bind (those (map hex_value ds)) (\<lambda>vs.
        let v = foldl (\<lambda>a d. a * 16 + d) 0 vs in
        if v < 256 then Some (of_nat v) else None))"

text \<open>The byte at \<open>s[i..i + 2]\<close>; a slice past the end, or no such byte, is a panic.\<close>

definition hex_at :: "rstr \<Rightarrow> nat \<Rightarrow> u8 option" where
  "hex_at s i = (if i + 2 \<le> length s then u8_from_radix_16 (take 2 (drop i s)) else None)"

definition h_bytes :: "nat \<Rightarrow> rstr \<Rightarrow> bytes option" where
  "h_bytes n s = those (map (\<lambda>i. hex_at s (2 * i)) [0..<n])"

definition h_all :: "rstr \<Rightarrow> bytes option" where
  "h_all s = those (map (\<lambda>i. hex_at s (2 * i)) [0..<(length s + 1) div 2])"

text \<open>\<open>n - s\<close> for the second half of a signature, a byte at a time from the last with a borrow.\<close>

fun minus_borrow :: "bytes \<Rightarrow> bytes \<Rightarrow> int \<times> bytes" where
  "minus_borrow (x # xs) (y # ys) =
     (case minus_borrow xs ys of (borrow, out) \<Rightarrow>
        let d = uint x - uint y - borrow in
        (if d < 0 then 1 else 0, of_int (d + (if d < 0 then 256 else 0)) # out))"
| "minus_borrow _ _ = (0, [])"

definition GROUP_ORDER :: rstr where
  "GROUP_ORDER = ascii ''ffffffff00000000ffffffffffffffffbce6faada7179e84f3b9cac2fc632551''"

definition high_s :: "bytes \<Rightarrow> bytes option" where
  "high_s sig = map_option (\<lambda>n. take 32 sig @ snd (minus_borrow n (drop 32 sig))) (h_bytes 32 GROUP_ORDER)"

section \<open>The text, character by character\<close>

lemma split_seq_map: "inj g \<Longrightarrow> split_seq (map g sep) (map g t) = map (map g) (split_seq sep t)"
proof (induction sep t rule: split_seq.induct)
  case (2 sep x xs)
  have eq: "take (length sep) (g x # map g xs) = map g sep \<longleftrightarrow> take (length sep) (x # xs) = sep"
    using 2(3) by (metis inj_map_eq_map list.simps(9) take_map)
  show ?case
  proof (cases "sep \<noteq> [] \<and> take (length sep) (x # xs) = sep")
    case True
    with 2(1,3) eq show ?thesis by (simp add: drop_map)
  next
    case False
    with 2(2,3) have "split_seq (map g sep) (map g xs) = map (map g) (split_seq sep xs)" by blast
    with False eq show ?thesis by (auto split: list.split)
  qed
qed simp

lemma lines_at_map: "inj g \<Longrightarrow> lines_at (g nl) (map g t) = map (map g) (lines_at nl t)"
proof -
  assume g: "inj g"
  have "split_seq [nl] t \<noteq> []" by (cases t) (auto split: list.split)
  with split_seq_map [OF g, of "[nl]" t] show ?thesis
    by (simp add: lines_at_def Let_def last_map map_butlast)
qed

lemma lookup_line_map:
  assumes g: "inj g"
  shows "lookup_line (g nl) (map g eq) (map g f) (map g k) = map_option (map g) (lookup_line nl eq f k)"
proof -
  have "take (length (k @ eq)) (map g l) = map g k @ map g eq \<longleftrightarrow> take (length (k @ eq)) l = k @ eq" for l
    using g by (metis inj_map_eq_map map_append take_map)
  then have "List.find (\<lambda>l. take (length (k @ eq)) l = map g k @ map g eq) (map (map g) ls) =
      map_option (map g) (List.find (\<lambda>l. take (length (k @ eq)) l = k @ eq) ls)" for ls
    by (induction ls) simp_all
  then show ?thesis
    using split_seq_map [OF g, of eq]
    by (auto simp: lookup_line_def lines_at_map [OF g] split: option.splits list.splits bind_splits)
qed

lemma split_seq_single: "nl \<notin> set l \<Longrightarrow> split_seq [nl] (l @ nl # t) = l # split_seq [nl] t"
  by (induction l) auto

lemma lines_at_concat:
  assumes "\<forall>l \<in> set ls. nl \<notin> set l"
  shows "lines_at nl (concat (map (\<lambda>l. l @ [nl]) ls)) = ls"
proof -
  have "split_seq [nl] (concat (map (\<lambda>l. l @ [nl]) ls)) = ls @ [[]]"
    using assms by (induction ls) (simp_all add: split_seq_single)
  then show ?thesis by (simp add: lines_at_def)
qed

lemma fixture_lines_single: "list_all (list_all (\<lambda>c. c \<noteq> CHR 0x0A)) fixture_lines"
  by code_simp

lemma fixture_get_text:
  "fixture_get setup_reply_v1 k =
     Option.bind (List.find (\<lambda>l. take (length (k @ '' = '')) l = k @ '' = '') fixture_lines) (\<lambda>line.
       (case split_seq '' = '' line of _ # v # _ \<Rightarrow> Some (ascii v) | _ \<Rightarrow> None))"
proof -
  have "\<forall>l \<in> set fixture_lines. CHR 0x0A \<notin> set l"
    using fixture_lines_single by (auto simp: list_all_iff)
  note l = lines_at_concat [OF this]
  have inj: "inj (of_char :: char \<Rightarrow> u8)" by (auto intro: injI dest: of_char_u8_inj)
  have "fixture_get setup_reply_v1 k =
      map_option ascii (lookup_line (CHR 0x0A) '' = '' (concat (map (\<lambda>l. l @ [CHR 0x0A]) fixture_lines)) k)"
    using lookup_line_map [OF inj, of "CHR 0x0A" "'' = ''" _ k]
    by (simp add: fixture_get_def setup_reply_v1_def ascii_def [abs_def])
  moreover have "map_option ascii \<circ> (\<lambda>line. case split_seq '' = '' line of _ # v # _ \<Rightarrow> Some v | _ \<Rightarrow> None) =
      (\<lambda>line. case split_seq '' = '' line of _ # v # _ \<Rightarrow> Some (ascii v) | _ \<Rightarrow> None)"
    by (auto simp: fun_eq_iff split: list.splits)
  ultimately show ?thesis by (simp add: lookup_line_def l map_option_bind)
qed

section \<open>Hexadecimal reads back\<close>

lemma hex_value_digit: "n < 16 \<Longrightarrow> hex_value (hex_digit n) = Some (unat n)"
  using unat_hex_digit [of n]
  by (cases "n < 10") (simp_all add: hex_value_def word_le_nat_alt word_less_nat_alt unat_sub_if_size word_size)

lemma u8_from_hex_byte: "u8_from_radix_16 (hex_byte b) = Some b"
proof -
  have u: "unat (b div 16) = unat b div 16" "unat (b mod 16) = unat b mod 16"
    by (simp_all add: unat_div unat_mod)
  have "unat (hex_digit (b div 16)) \<noteq> 0x2B"
    using unat_hex_digit [OF nibble_small(1), of b] by simp
  then have "hex_digit (b div 16) \<noteq> 0x2B" by auto
  then show ?thesis
    using unsigned_less [of b, where 'a = nat]
    by (simp add: u8_from_radix_16_def hex_byte_def hex_value_digit nibble_small u)
qed

lemma hex_Cons: "hex (b # bs) = hex_byte b @ hex bs"
  by (simp add: hex_def)

lemma length_hex_text: "length (hex bs) = 2 * length bs"
  by (simp add: hex_def)

lemma hex_at_hex: "i < length bs \<Longrightarrow> hex_at (hex bs) (2 * i) = Some (bs ! i)"
proof (induction bs arbitrary: i)
  case (Cons b bs)
  have two: "length (hex_byte b) = 2" by (simp add: hex_byte_def)
  show ?case
  proof (cases i)
    case 0
    with two show ?thesis by (simp add: hex_at_def hex_Cons u8_from_hex_byte length_hex_text)
  next
    case (Suc j)
    with Cons.IH [of j] Cons.prems two show ?thesis
      by (simp add: hex_at_def hex_Cons length_hex_text split: if_splits)
  qed
qed simp

lemma those_nth: "(\<And>i. i < length bs \<Longrightarrow> f i = Some (bs ! i)) \<Longrightarrow> those (map f [0..<length bs]) = Some bs"
proof (induction bs rule: rev_induct)
  case (snoc b bs)
  have snoc_those: "those (xs @ [Some y]) = map_option (\<lambda>ys. ys @ [y]) (those xs)" for xs and y :: 'a
    by (induction xs) (auto split: option.split simp: option.map_comp o_def)
  have "those (map f [0..<length bs]) = Some bs"
    using snoc.prems by (intro snoc.IH) (metis length_append_singleton less_SucI nth_append)
  moreover have "f (length bs) = Some b" using snoc.prems [of "length bs"] by simp
  ultimately show ?case by (simp add: snoc_those)
qed simp

lemma h_hex: "length bs = n \<Longrightarrow> h_bytes n (hex bs) = Some bs" "h_all (hex bs) = Some bs"
  using those_nth [of bs "\<lambda>i. hex_at (hex bs) (2 * i)"]
  by (simp_all add: h_bytes_def h_all_def length_hex_text hex_at_hex)

section \<open>The fixture's values\<close>

definition golden_secret :: bytes where
  "golden_secret =
    [0xae, 0xc2, 0xde, 0x9c, 0x05, 0xd7, 0xce, 0xe0, 0xd9, 0x6a, 0xdd, 0x67, 0x46, 0xf4, 0x44, 0xd1,
     0x15, 0x38, 0x8c, 0xd6, 0x6d, 0xc9, 0xe5, 0xef, 0x07, 0x80, 0x9d, 0xe5, 0x78, 0xc0, 0x1b, 0x34]"

definition golden_devpub :: bytes where
  "golden_devpub =
    [0x03, 0xe1, 0x28, 0xd0, 0x3b, 0x1a, 0x6a, 0x28, 0x71, 0x50, 0x4d, 0x1b, 0x66, 0xd8, 0x99, 0x6e,
     0xcf, 0x46, 0x1e, 0x7d, 0xef, 0x88, 0xc1, 0x69, 0xb6, 0xec, 0x86, 0x45, 0xd9, 0xce, 0x10, 0x6f,
     0xfe]"

definition golden_context :: bytes where
  "golden_context =
    [0x6a, 0x61, 0x6e, 0x75, 0x73, 0x2d, 0x73, 0x65, 0x74, 0x75, 0x70, 0x2d, 0x76, 0x31, 0x03, 0x62,
     0x6c, 0x65, 0x03, 0xe1, 0x28, 0xd0, 0x3b, 0x1a, 0x6a, 0x28, 0x71, 0x50, 0x4d, 0x1b, 0x66, 0xd8,
     0x99, 0x6e, 0xcf, 0x46, 0x1e, 0x7d, 0xef, 0x88, 0xc1, 0x69, 0xb6, 0xec, 0x86, 0x45, 0xd9, 0xce,
     0x10, 0x6f, 0xfe]"

definition golden_share_p :: bytes where
  "golden_share_p =
    [0x04, 0x04, 0x40, 0x6a, 0xbc, 0x03, 0xa7, 0x2d, 0xc0, 0x15, 0xa2, 0x0b, 0x38, 0x34, 0x02, 0x67,
     0xd7, 0xa4, 0xc3, 0x3b, 0x17, 0x5f, 0xcd, 0xe4, 0xf8, 0x11, 0xff, 0xe7, 0x0e, 0x4b, 0x34, 0x1e,
     0x87, 0xc7, 0x64, 0x83, 0x6e, 0x7d, 0x15, 0x03, 0x6a, 0xfc, 0xda, 0xb1, 0x2f, 0x2a, 0x2c, 0x38,
     0x02, 0x27, 0xcb, 0x76, 0x99, 0xfa, 0x67, 0xe3, 0xf1, 0xc9, 0xb2, 0xc0, 0x06, 0x8a, 0xa3, 0x10,
     0x13]"

definition golden_share_v :: bytes where
  "golden_share_v =
    [0x04, 0x1b, 0x30, 0xef, 0x5b, 0xea, 0x16, 0x6b, 0x73, 0xc4, 0x2b, 0x97, 0x78, 0x3f, 0xf3, 0xc2,
     0xb9, 0x74, 0x23, 0xaf, 0xcd, 0x6d, 0x21, 0xc4, 0x2a, 0x2c, 0x2a, 0x6d, 0x01, 0x5e, 0x70, 0xad,
     0x2b, 0xde, 0xa6, 0x78, 0x76, 0xd5, 0x92, 0x63, 0xf4, 0x4e, 0x87, 0xf6, 0xeb, 0x8e, 0xe0, 0xcb,
     0x3c, 0x81, 0xaf, 0x00, 0xb4, 0x95, 0x09, 0x9a, 0x9d, 0xa2, 0x22, 0x45, 0xca, 0xad, 0x8e, 0x3e,
     0x27]"

definition golden_confirm_v :: bytes where
  "golden_confirm_v =
    [0x5a, 0x43, 0xc8, 0x30, 0x67, 0xea, 0xf4, 0x97, 0x04, 0xdd, 0x44, 0xe4, 0x43, 0x0c, 0x50, 0x6d,
     0x14, 0x72, 0x98, 0xdf, 0xe4, 0x2e, 0x56, 0x7b, 0x59, 0x4a, 0x25, 0xe0, 0xda, 0xa2, 0x21, 0x43]"

definition golden_prehash :: bytes where
  "golden_prehash =
    [0xce, 0xde, 0x59, 0x8f, 0xe2, 0x86, 0x77, 0x72, 0x55, 0x73, 0xe6, 0x6f, 0xf9, 0x7a, 0xf1, 0xe3,
     0x2b, 0x9b, 0x68, 0xe2, 0x34, 0xf4, 0x22, 0x5b, 0x29, 0x21, 0xa5, 0xe5, 0x4b, 0x9c, 0xee, 0x8c]"

definition golden_sig :: bytes where
  "golden_sig =
    [0x70, 0xcb, 0x98, 0x5b, 0x1a, 0x44, 0x1c, 0x0c, 0x44, 0x76, 0x49, 0x01, 0x48, 0x81, 0xcc, 0x9c,
     0x4a, 0x17, 0x87, 0x62, 0xd7, 0xab, 0xb0, 0xf6, 0x4a, 0x4e, 0xe0, 0x7a, 0x6c, 0xd8, 0xb5, 0xac,
     0x05, 0xb3, 0xb9, 0xe1, 0x03, 0x78, 0x29, 0x2a, 0x03, 0x60, 0x66, 0xf8, 0x6d, 0x0f, 0x28, 0x16,
     0x36, 0xc4, 0xaf, 0x01, 0x43, 0xa4, 0xc9, 0x11, 0xae, 0xcc, 0x34, 0xdb, 0xdd, 0xec, 0xdb, 0x8d]"

text \<open>The signature with \<open>n - s\<close> for \<open>s\<close>.\<close>

definition golden_twin :: bytes where
  "golden_twin = take 32 golden_sig @
    [0xfa, 0x4c, 0x46, 0x1d, 0xfc, 0x87, 0xd6, 0xd6, 0xfc, 0x9f, 0x99, 0x07, 0x92, 0xf0, 0xd7, 0xe9,
     0x86, 0x22, 0x4b, 0xac, 0x63, 0x72, 0xd5, 0x73, 0x44, 0xed, 0x95, 0xe7, 0x1e, 0x76, 0x49, 0xc4]"

lemma fixture_values:
  "fixture_get setup_reply_v1 ''device_secret'' = Some (hex golden_secret)"
  "fixture_get setup_reply_v1 ''devpub'' = Some (hex golden_devpub)"
  "fixture_get setup_reply_v1 ''context'' = Some (hex golden_context)"
  "fixture_get setup_reply_v1 ''shareP'' = Some (hex golden_share_p)"
  "fixture_get setup_reply_v1 ''shareV'' = Some (hex golden_share_v)"
  "fixture_get setup_reply_v1 ''confirmV'' = Some (hex golden_confirm_v)"
  "fixture_get setup_reply_v1 ''reply_prehash'' = Some (hex golden_prehash)"
  "fixture_get setup_reply_v1 ''reply_sig'' = Some (hex golden_sig)"
  unfolding fixture_get_text by code_simp+

lemma golden_lengths:
  "length golden_secret = 32" "length golden_devpub = 33" "length golden_context = 51"
  "length golden_share_p = 65" "length golden_share_v = 65" "length golden_confirm_v = 32"
  "length golden_prehash = 32" "length golden_sig = 64"
  by (simp_all add: golden_secret_def golden_devpub_def golden_context_def golden_share_p_def golden_share_v_def golden_confirm_v_def golden_prehash_def golden_sig_def)

lemma golden_hash:
  "fips_sha256 (reply_message (golden_context, golden_share_p, golden_share_v, golden_confirm_v)) =
     golden_prehash"
  by code_simp

text \<open>\<open>minus_borrow\<close> subtracts: what it answers is the difference, with a borrow when there is none.\<close>

lemma from_be_Cons: "from_be (x # xs) = unat x * 256 ^ length xs + from_be xs"
proof (induction xs rule: rev_induct)
  case (snoc y ys)
  then show ?case
    using from_be_snoc [of "x # ys" y] by (simp add: algebra_simps)
qed (simp add: from_be_def)

lemma minus_borrow_value:
  assumes "length xs = length ys" "minus_borrow xs ys = (b, out)"
  shows "length out = length xs \<and> b \<in> {0, 1} \<and>
    int (from_be out) = int (from_be xs) - int (from_be ys) + b * 256 ^ length xs"
  using assms
proof (induction xs ys arbitrary: b out rule: minus_borrow.induct)
  case (1 x xs y ys)
  obtain c r where r: "minus_borrow xs ys = (c, r)" by force
  with 1 have IH: "length r = length xs" "c \<in> {0, 1}"
    "int (from_be r) = int (from_be xs) - int (from_be ys) + c * 256 ^ length xs"
    by simp_all
  define d where "d = uint x - uint y - c"
  have bounds: "uint x < 256" "0 \<le> uint x" "uint y < 256" "0 \<le> uint y"
    using uint_lt2p [of x] uint_lt2p [of y] by simp_all
  moreover have "0 \<le> c" "c \<le> 1" using IH(2) by auto
  ultimately have range: "- 256 \<le> d" "d < 256" unfolding d_def by linarith+
  define e where "e = d + (if d < 0 then 256 else 0)"
  have e: "0 \<le> e" "e < 256" using range by (auto simp: e_def)
  have out: "b = (if d < 0 then 1 else 0)" "out = of_int e # r"
    using 1(3) r by (simp_all add: Let_def d_def e_def)
  have u: "uint (of_int e :: u8) = e"
    using e by (simp add: unsigned_of_int take_bit_eq_mod)
  have "int (from_be out) = e * 256 ^ length xs + int (from_be r)"
    by (simp add: out(2) from_be_Cons IH(1) u)
  also have "\<dots> = (uint x - uint y + b * 256) * 256 ^ length xs + int (from_be xs) - int (from_be ys)"
    by (simp add: IH(3) e_def d_def out(1) algebra_simps)
  also have "\<dots> = int (from_be (x # xs)) - int (from_be (y # ys)) + b * 256 ^ length (x # xs)"
    using 1(2) by (simp add: from_be_Cons algebra_simps flip: uint_nat)
  finally show ?case using IH(1) by (simp add: out)
qed auto

text \<open>So the twin's second half is \<open>n - s\<close>, for every \<open>s\<close> up to the group's order.\<close>

lemma high_s_value:
  assumes "length sig = 64" "h_bytes 32 GROUP_ORDER = Some n" "length n = 32"
    "from_be (drop 32 sig) \<le> from_be n" "high_s sig = Some twin"
  shows "take 32 twin = take 32 sig \<and> from_be (drop 32 twin) = from_be n - from_be (drop 32 sig)"
proof -
  obtain b out where m: "minus_borrow n (drop 32 sig) = (b, out)" by force
  have v: "length out = 32" "b \<in> {0, 1}"
    "int (from_be out) = int (from_be n) - int (from_be (drop 32 sig)) + b * 256 ^ 32"
    using minus_borrow_value [OF _ m] assms(1,3) by simp_all
  have "from_be out < 256 ^ 32" using from_be_less [of out] v(1) by simp
  then have "b = 0" using v(2,3) assms(4) by auto
  with v(3) have "int (from_be out) = int (from_be n) - int (from_be (drop 32 sig))" by simp
  with assms(4) have "from_be out = from_be n - from_be (drop 32 sig)" by linarith
  moreover have "twin = take 32 sig @ out" using assms(2,5) m by (simp add: high_s_def)
  ultimately show ?thesis using assms(1) by simp
qed

lemma golden_high_s: "high_s golden_sig = Some golden_twin"
proof -
  define n :: bytes where "n =
    [0xff, 0xff, 0xff, 0xff, 0x00, 0x00, 0x00, 0x00, 0xff, 0xff, 0xff, 0xff, 0xff, 0xff, 0xff, 0xff,
     0xbc, 0xe6, 0xfa, 0xad, 0xa7, 0x17, 0x9e, 0x84, 0xf3, 0xb9, 0xca, 0xc2, 0xfc, 0x63, 0x25, 0x51]"
  have "length n = 32" by (simp add: n_def)
  then have "h_bytes 32 (hex n) = Some n" by (rule h_hex(1))
  moreover have "GROUP_ORDER = hex n" unfolding n_def by code_simp
  ultimately have "h_bytes 32 GROUP_ORDER = Some n" by (simp only:)
  then show ?thesis by (simp add: high_s_def golden_sig_def golden_twin_def n_def)
qed

section \<open>The test\<close>

definition fixture_bytes :: "nat \<Rightarrow> rstr \<Rightarrow> string \<Rightarrow> bytes option" where
  "fixture_bytes n f k = Option.bind (fixture_get f k) (h_bytes n)"

definition golden_reply :: "('sk, 'vk, 'sig) prims \<Rightarrow> rstr \<Rightarrow> bool" where
  "golden_reply P f =
     (case (Option.bind (fixture_get f ''context'') h_all, fixture_bytes 65 f ''shareP'', fixture_bytes 65 f ''shareV'',
          fixture_bytes 32 f ''confirmV'', fixture_bytes 32 f ''reply_prehash'') of
        (Some ctx, Some share_p, Some share_v, Some confirm_v, Some want) \<Rightarrow>
          (case reply_prehash P ctx share_p share_v confirm_v of
             Inl _ \<Rightarrow> False
           | Inr prehash \<Rightarrow>
               prehash = want \<and>
               (case (fixture_bytes 32 f ''device_secret'', fixture_bytes 64 f ''reply_sig'', fixture_bytes 33 f ''devpub'') of
                  (Some secret, Some want_sig, Some devpub) \<Rightarrow>
                    (case from_secret P secret (ascii ''setup-golden'') of
                       Inl _ \<Rightarrow> False
                     | Inr key \<Rightarrow>
                         let sig = sign_reply (key_signer P key) prehash; other = flip 31 prehash in
                         sig = want_sig \<and>
                         verify_reply P devpub prehash sig = Inr () \<and>
                         verify_reply P devpub other sig = Inl Crypto \<and>
                         (case from_secret P (replicate 32 7) (ascii ''impostor'') of
                            Inl _ \<Rightarrow> False
                          | Inr impostor \<Rightarrow>
                              verify_reply P (did_pubkey (key_did P impostor)) prehash sig = Inl Crypto) \<and>
                         (case high_s sig of
                            None \<Rightarrow> False
                          | Some twin \<Rightarrow> verify_reply P devpub prehash twin = Inl Crypto))
                | _ \<Rightarrow> False))
      | _ \<Rightarrow> False)"

text \<open>
  What P-256 gives at the fixture's inputs: the secret's key is \<open>devpub\<close>, RFC 6979 signs the hash as
  the fixture says, \<open>[7; 32]\<close> is a scalar, and a signature with \<open>n - s\<close> has a high \<open>s\<close>.
\<close>

definition p256_golden :: "('sk, 'vk, 'sig) prims \<Rightarrow> bool" where
  "p256_golden P \<longleftrightarrow>
     (case scalar_from_repr P golden_secret of
        None \<Rightarrow> False
      | Some d \<Rightarrow>
          sec1_compressed P (public_of P d) = golden_devpub \<and>
          sig_to_bytes P (low_s P (ecdsa_sign P d golden_prehash)) = golden_sig) \<and>
     scalar_from_repr P (replicate 32 7) \<noteq> None \<and>
     (case sig_from_slice P golden_twin of None \<Rightarrow> True | Some s \<Rightarrow> normalize_s P s \<noteq> None)"

lemma fixture_read:
  "Option.bind (fixture_get setup_reply_v1 ''context'') h_all = Some golden_context"
  "fixture_bytes 65 setup_reply_v1 ''shareP'' = Some golden_share_p"
  "fixture_bytes 65 setup_reply_v1 ''shareV'' = Some golden_share_v"
  "fixture_bytes 32 setup_reply_v1 ''confirmV'' = Some golden_confirm_v"
  "fixture_bytes 32 setup_reply_v1 ''reply_prehash'' = Some golden_prehash"
  "fixture_bytes 32 setup_reply_v1 ''device_secret'' = Some golden_secret"
  "fixture_bytes 64 setup_reply_v1 ''reply_sig'' = Some golden_sig"
  "fixture_bytes 33 setup_reply_v1 ''devpub'' = Some golden_devpub"
  by (simp_all add: fixture_bytes_def fixture_values h_hex golden_lengths)

theorem golden_reply_test_passes:
  assumes P: "prims_ok P" and h: "sha256 P = fips_sha256" and v: "p256_golden P"
    and keys: "from_secret P golden_secret (ascii ''setup-golden'') = Inr key"
      "from_secret P (replicate 32 7) (ascii ''impostor'') = Inr impostor"
    and others: "fails_for P key golden_prehash (dk_public key) (flip 31 golden_prehash)"
      "fails_for P key golden_prehash (dk_public impostor) golden_prehash"
  shows "golden_reply P setup_reply_v1"
proof -
  have pre: "reply_prehash P golden_context golden_share_p golden_share_v golden_confirm_v = Inr golden_prehash"
    by (simp add: reply_prehash_Inr golden_lengths h golden_hash)
  have pub: "did_pubkey (key_did P key) = golden_devpub" and sig: "sign_prehash P key golden_prehash = golden_sig"
    using v keys(1)
    by (auto simp: p256_golden_def from_secret_Inr key_did_def from_verifying_key_def sign_prehash_low_s
        split: option.splits)
  have twin: "verify_prehash P golden_devpub golden_prehash golden_twin = Inl Crypto"
    using v by (cases "sig_from_slice P golden_twin")
      (auto simp: p256_golden_def verify_refuses_high_s, auto simp: verify_prehash_def ok_or_def split: option.split)
  have "verify_prehash P golden_devpub golden_prehash golden_sig = Inr ()"
    using tried_on_itself [OF P from_secret_wf [OF keys(1)] golden_lengths(7)] by (simp add: pub sig)
  moreover have "verify_prehash P golden_devpub (flip 31 golden_prehash) golden_sig = Inl Crypto"
    "verify_prehash P (did_pubkey (key_did P impostor)) golden_prehash golden_sig = Inl Crypto"
    using tried_elsewhere [OF P others(1)] tried_elsewhere [OF P others(2)] by (simp_all add: pub sig)
  ultimately show ?thesis
    by (simp add: golden_reply_def fixture_read pre keys sign_reply_def key_signer_def sig verify_reply_def
        Let_def golden_high_s twin)
qed

end
