(* ===== verification/Spec2Isabelle.thy ===== *)
theory Spec2Isabelle
  imports Prop_Adoption Prop_Identity Prop_Signed Prop_Stores Prop_Device Prop_Chip Claims
    Tests_Adoption Tests_Codecs Tests_Caches Tests_Seal Tests_Settings Tests_Signatures
    Tests_Vectors Tests_Reply
begin

text \<open>
  \<^bold>\<open>A verification of rusty_esp_mid.\<close>

  The library gives an ESP32 device an identity (a P-256 key and its \<open>did:mata\<close> DID), a store for it,
  an owner who adopts the device and what that owner may ask of it, and the signed forms the device
  speaks: the KMS nonce assertion, the status answer, the setup reply, media manifests, compact JWS
  and the self-issued token. \<open>crates/rusty_esp_mid-core\<close> is the portable core,
  \<open>crates/rusty_esp_mid-esp\<close> the backends for its two tracks (\<open>hal\<close> on bare metal, \<open>idf\<close> on ESP-IDF), and
  \<open>firmware/xiao-s3-keys\<close> a firmware that boots an identity and measures signing.

  \<^bold>\<open>How the parts meet.\<close> A firmware finds a partition of its flash (\<open>find_partition\<close>,
  \<open>PartitionFlash\<close>) or opens an ESP-IDF namespace (\<open>EspNvsKv\<close>); either is a \<open>Kv\<close>. \<open>SealedKv\<close> wraps a \<open>Kv\<close>
  into a \<open>Kv\<close> that holds its values sealed under a key of the chip's HMAC peripheral. \<open>DeviceKey\<close>
  loads its secret from a \<open>Kv\<close> or mints one, and is the \<open>DeviceSigner\<close> of every signed form.
  \<open>Adoption\<close> is the owner's signed grant; it reaches the device over the air (\<open>Adoption::decode\<close>,
  \<open>accept\<close>) or in the settings partition (\<open>settings_adoption::apply\<close>), and ends as an owner pin and a
  container in the identity store. \<open>NonceWindow\<close> refuses replays.

  \<^bold>\<open>Theories and sources.\<close> In the order they import each other:

  \<^item> \<open>Prelude\<close>, \<open>Kv\<close>: bytes, the \<open>error\<close> type of \<open>rusty_esp_core\<close> and results (\<open>Inl\<close> an error; \<open>Panic\<close> is a
    panic), the byte writer of the encoders, the \<open>Kv\<close> and \<open>Rng\<close> seams.
  \<^item> \<open>Cap\<close>, \<open>Nonce\<close>: \<open>cap.rs\<close>, \<open>nonce.rs\<close>, with the queue the ring of nonces refines.
  \<^item> \<open>Signer\<close>, \<open>Did\<close>, \<open>Key\<close>, \<open>Key_Correct\<close>: \<open>signer.rs\<close>, \<open>did.rs\<close>, \<open>key.rs\<close>: the verifier, the DID and its two
    spellings, the key's life in a store, its two authenticated caches, HMAC, key agreement.
  \<^item> \<open>Adoption\<close>, \<open>Adoption_Wire\<close>, \<open>Adoption_Accept\<close>: \<open>adoption.rs\<close>: the grant, its codec, acceptance and
    the owner pin.
  \<^item> \<open>Envelope\<close>: the shape the domain-separated signed forms share (no code of its own); \<open>Kms\<close>, \<open>Status\<close>,
    \<open>Setup\<close>, \<open>Manifest\<close>, \<open>Jws\<close>, \<open>Token\<close> model \<open>kms.rs\<close>, \<open>status.rs\<close>, \<open>setup.rs\<close>, \<open>manifest.rs\<close>, \<open>jws.rs\<close>,
    and \<open>token.rs\<close> with \<open>roster.rs\<close>; \<open>Json\<close> holds the JSON values they read and write.
  \<^item> \<open>Seal\<close>, \<open>Seal_Correct\<close>: \<open>seal.rs\<close>; \<open>Settings_Adoption\<close>, \<open>Settings_Correct\<close>: \<open>settings_adoption.rs\<close>.
  \<^item> \<open>Flash\<close>, \<open>Flash_Correct\<close>: \<open>hal/partitions.rs\<close>, \<open>hal/flash.rs\<close>, \<open>hal/shared.rs\<close>; \<open>Esp_Nvs\<close>: \<open>idf/nvs.rs\<close>;
    \<open>Chip\<close>: \<open>hal/rng.rs\<close>, \<open>idf/rng.rs\<close>, \<open>hal/seal.rs\<close> and the track of \<open>lib.rs\<close>.
  \<^item> \<open>Firmware\<close>, \<open>Firmware_Correct\<close>, \<open>Boots\<close>: \<open>xiao-s3-keys/src/main.rs\<close> as the list of lines it prints, and
    sequences of its boots.
  \<^item> \<open>Shared_Stores\<close>: \<open>settings_adoption::apply\<close> again over one state behind both stores, as \<open>hal/shared.rs\<close> and a
    board with one namespace lend them; \<open>Device\<close>: any sequence of the calls a firmware makes on the two
    stores; \<open>Delivery\<close>: the boots that follow an adoption left in the settings.
  \<^item> \<open>Claims\<close>: every domain the library signs under, as one datatype.
  \<^item> \<open>Printing\<close>: the handles' \<open>Debug\<close>, with \<open>core::fmt\<close>'s struct builder: no secret is printed.
  \<^item> \<open>Samples\<close>, \<open>Json_Samples\<close>, \<open>Settings_Samples\<close>, \<open>Boots_Sample\<close>: concrete instances of the parameters, for
    the witnesses only.
  \<^item> \<open>Tests_Adoption\<close>, \<open>Tests_Codecs\<close>, \<open>Tests_Stores\<close>, \<open>Tests_Caches\<close>, \<open>Tests_Seal\<close>, \<open>Tests_Settings\<close>,
    \<open>Tests_Signatures\<close>: the unit tests of the core's modules, each the definition of its name, a check
    that computes on the model. They pass for every choice of the parameters with their contracts, given that the tests' seeds make keys; what
    a test takes from the strength of the cryptography (a tampered tag or a signature tried on another
    message does not hold) is a hypothesis on the bytes it looks at.
  \<^item> \<open>Sha256\<close>: SHA-256 as FIPS 180-4 defines it, a concrete value of the parameter \<open>sha256\<close> (not a model of the
    \<open>sha2\<close> crate), used by the two theories that follow; \<open>Tests_Vectors\<close>, \<open>Tests_Reply\<close>: the tests
    against published vectors. The HMAC, the secret of the vector's seed, the status message and its hash,
    and the hash of the golden Reply are computed by the kernel and are, byte for byte, what the
    repository's independent implementations found: the layouts modelled here are the code's. The
    signatures and keys of P-256 at the vectors' inputs are the hypotheses \<open>p256_vector\<close> and \<open>p256_golden\<close>.
  \<^item> \<open>Prop_Adoption\<close>, \<open>Prop_Identity\<close>, \<open>Prop_Signed\<close>, \<open>Prop_Stores\<close>, \<open>Prop_Device\<close>, \<open>Prop_Chip\<close> and this
    theory: the properties C1 to C40.

  A function \<open>f\<close> of the source is the definition \<open>f\<close> (prefixed by its type where two would clash:
  \<open>key_did\<close>, \<open>nvs_kv_get\<close>), a struct a \<open>record\<close> with the struct's fields, an enum a \<open>datatype\<close>.
  \<open>&mut self\<close> is a state returned beside the result, whether the call succeeded or not;
  \<open>&mut [u8]\<close> is a buffer returned with its tail intact; \<open>u8\<close> to \<open>u64\<close> are words of their width,
  \<open>usize\<close> is \<open>nat\<close> where it only counts bytes held in memory.

  \<^bold>\<open>What the lemmas show.\<close> The codecs are exact: \<open>decode\<close> accepts the canonical bytes of the valid
  grants and no others, strings and JSON read back, the encoders write or answer an error on every
  branch. Signed forms verify under the key they name, what is signed determines what was said
  (up to a collision of SHA-256), and no signature serves two forms. The identity is stable: stored
  before it is answered, never replaced, never changed by its caches, over stores whose every
  call may fail, and over any sequence of a firmware's boots. The owner is pinned on first use and
  never displaced; a boot cut short is redone, and an adoption left in the settings takes by the first
  boot whose stores work. All of it holds in any order of calls, over stores apart or one namespace
  lent twice. What the constructors answer is well formed. The sealing wrapper and the two backends keep the
  store contract they are given, so each composes with the rest. Loops end, and every panic of
  the source is shown unreachable where a property covers it.

  \<^bold>\<open>Parameters and contracts.\<close> Code the repository does not hold is an argument, with its documented
  behaviour a named hypothesis: \<open>prims_ok\<close> (SHA-256 gives 32 bytes, ECDSA verifies what it signed,
  encodings decode; nothing of their strength), \<open>bs58_ok\<close>, \<open>b64_ok\<close>, \<open>codec_ok\<close> (base58, base64url,
  serde_json), \<open>aead_ok\<close> (AES-GCM opens exactly what it sealed),
  \<open>rng_ok\<close>; \<open>codecs_read\<close> (the JSON texts of one test read as what they spell). The interfaces are locales: \<open>kv_store\<close> (any call may fail; a failed \<open>put\<close> leaves the old
  value, the new one or none) and \<open>kv_reliable\<close>; \<open>device_signer\<close>; the signed forms; \<open>sealed_store\<close>,
  which is again a \<open>kv_store\<close>; \<open>boot_stores\<close> for the two stores of a boot, and
  \<open>shared_stores\<close> where they share a state; \<open>kv_atomic\<close> for a store whose failed write keeps the old
  value or the new; \<open>nor_flash\<close>;
  \<open>idf_namespace\<close>, again a \<open>kv_store\<close>; \<open>nvs_on_flash\<close> (\<open>NvsKv\<close> reaches the flash through its
  partition only); \<open>hmac_peripheral\<close>; \<open>memory_store\<close> and \<open>sealed_memory\<close>, the stores of the tests. Each is interpreted, on the model's own definitions where they
  provide it and on a sample where the provider is outside the repository.

  \<^bold>\<open>Bounds and fuel.\<close> \<open>generate\<close> draws at most \<open>GENERATE_ATTEMPTS\<close> = 8 times, as the code does; the table
  has \<open>MAX_ENTRIES\<close> = 95 entries; \<open>MAX_CAPS\<close> and the field lengths are the code's; JSON nests to 127
  levels as serde_json reads. The recursions are structural or end by a measure; the one loop with
  no bound of its own, \<open>seal_key\<close>'s, is a \<open>partial_function\<close> whose return is C40. No fuel is used.

  \<^bold>\<open>Not modelled.\<close> The vendored \<open>p256\<close> and \<open>primeorder\<close> (\<open>vendor/\<close>: third-party curve arithmetic, a
  parameter here); \<open>build.rs\<close>, the facade crate, module lists and re-exports;
  \<open>Drop\<close> and zeroization (no value depends on them); constant-time behaviour (only the value of
  \<open>ct_eq32\<close>); the clock, the heap and the final idle loop of the firmware. The \<open>tests/\<close>
  directories, which compare with the upstream crates and feed fuzz inputs; of their fixtures the one a
  unit test includes is in \<open>Tests_Reply\<close>. \<open>RefCell\<close> borrows
  of the shared flash are not counted: each is released before the next call is made, and what one
  store's call may change under the other is \<open>shared_stores\<close>.
\<close>

section \<open>A grant from the owner to the device\<close>

text \<open>C1. An owner's grant survives the whole path: signed into a buffer with room, what is written
  decodes, and the device it names accepts it (with any pin the rule allows, at any time before
  its expiry), pins the owner's key and roster version, and grants exactly the signed
  capabilities.\<close>

theorem adoption_end_to_end:
  assumes "device_signer P S (af_owner_genesis_pubkey f)" "fields_wf f" "validate f = Inr ()"
    and "canonical_len f + SIG_LEN \<le> length out"
    and "pin_allows pin (af_owner_genesis_pubkey f) (af_roster_version f)"
    and "unexpired (af_expires_at f) now"
  shows "\<exists>out' a. sign_into P S f out = (Inr (canonical_len f + SIG_LEN), out')
    \<and> decode (take (canonical_len f + SIG_LEN) out') = Inr a
    \<and> accept P a (af_device_did f) pin now =
        Inr \<lparr>genesis_pubkey = af_owner_genesis_pubkey f, roster_version = af_roster_version f\<rparr>
    \<and> grants a = any_satisfies (caps_of (af_caps f))"
  using assms(1-4)
proof (rule signed_accepted)
  fix out' a
  assume a: "sign_into P S f out = (Inr (canonical_len f + SIG_LEN), out')"
    "decode (take (canonical_len f + SIG_LEN) out') = Inr a"
    "ad_fields a = wire_view f" "verify_signature P a = Inr ()"
  have "accept P a (af_device_did f) pin now =
      Inr \<lparr>genesis_pubkey = af_owner_genesis_pubkey f, roster_version = af_roster_version f\<rparr>"
    using a(3,4) assms(5,6) by (simp add: accept_Inr) (simp add: wire_view_def)
  moreover have "grants a = any_satisfies (caps_of (af_caps f))"
    using caps_of_wire_view(1) [OF assms(2,3)] a(3) by (auto simp: grants_def fun_eq_iff)
  ultimately show ?thesis using a by blast
qed

theorem adoption_end_to_end_witness:
  "\<exists>out' a. sign_into sample_prims (key_signer sample_prims sample_key) sample_fields (replicate 400 0) =
      (Inr (canonical_len sample_fields + SIG_LEN), out')
    \<and> decode (take (canonical_len sample_fields + SIG_LEN) out') = Inr a
    \<and> accept sample_prims a (af_device_did sample_fields)
        (Some \<lparr>genesis_pubkey = sample_pk, roster_version = 2\<rparr>) (Some 19) =
        Inr \<lparr>genesis_pubkey = af_owner_genesis_pubkey sample_fields,
             roster_version = af_roster_version sample_fields\<rparr>
    \<and> grants a = any_satisfies (caps_of (af_caps sample_fields))"
proof (rule adoption_end_to_end)
  show "device_signer sample_prims (key_signer sample_prims sample_key)
      (af_owner_genesis_pubkey sample_fields)"
    using sample_signer by (simp add: sample_fields_def)
  show "canonical_len sample_fields + SIG_LEN \<le> length (replicate 400 (0 :: u8))"
    unfolding canonical_len_def sample_caps by (simp add: sample_fields_def)
  show "pin_allows (Some \<lparr>genesis_pubkey = sample_pk, roster_version = 2\<rparr>)
      (af_owner_genesis_pubkey sample_fields) (af_roster_version sample_fields)"
    by (simp add: pin_allows_def sample_fields_def)
  show "unexpired (af_expires_at sample_fields) (Some 19)"
    by (simp add: unexpired_def sample_fields_def)
qed (rule sample_fields_wf sample_fields_valid)+

section \<open>What the library makes is well formed\<close>

lemma decoded_grant_writes:
  assumes "decode bs = Inr a"
  shows "fst (encode (ad_fields a) out) \<noteq> Inl Panic"
proof -
  have "arrays_ok (ad_fields a)" using decode_Inr(1) [OF assms] by (simp add: fields_wf_def)
  with decode_Inr(2) [OF assms] show ?thesis by (simp add: encode_cases)
qed

text \<open>C26. Every constructor answers a well-formed value or an error, and what takes such a value does
  not panic on it: a device id keeps the text it was made from; a key, generated or from its secret,
  carries its own public key; a DID, from text or from a key, is a point of the curve and prints; a
  decoded grant has every field valid and encodes; a pin holds a whole key; a partition ends inside
  the address space; and a window of nonces takes anything offered and stays a ring.\<close>

theorem values_well_formed:
  assumes "prims_ok P" "bs58_ok B"
  shows "(device_id_new t = Inr i \<longrightarrow> device_id_wf i \<and> device_id_as_str i = t)
    \<and> (from_secret P secret t = Inr key \<longrightarrow> wf_key P key)
    \<and> (generate P fill r t = (Inr key, r') \<longrightarrow> wf_key P key)
    \<and> valid_did P (key_did P key)
    \<and> (did_parse P B s = Inr d \<longrightarrow> valid_did P d)
    \<and> (valid_did P d \<longrightarrow> to_did_string B d \<noteq> Inl Panic \<and> to_multibase_string B d \<noteq> Inl Panic)
    \<and> (decode bs = Inr a \<longrightarrow> fields_wf (ad_fields a) \<and> validate (ad_fields a) = Inr () \<and>
         length (ad_signature a) = SIG_LEN \<and> fst (encode (ad_fields a) out) \<noteq> Inl Panic)
    \<and> (pin_decode bs = Inr pin \<longrightarrow> length (genesis_pubkey pin) = PUBKEY_LEN)
    \<and> (pf_new page base len = Inr f \<longrightarrow> part_wf f)
    \<and> (\<exists>answers w. offer_all N (new_window N) xs = Inr (answers, w) \<and> window_inv N w)"
proof (intro conjI impI)
  assume "device_id_new t = Inr i"
  then show "device_id_wf i" "device_id_as_str i = t" by (rule device_id_new_Inr)+
next
  assume d: "valid_did P d"
  show "to_did_string B d \<noteq> Inl Panic" "to_multibase_string B d \<noteq> Inl Panic"
    by (rule to_did_string_valid [OF assms(2) d]; simp)+
next
  assume d: "decode bs = Inr a"
  show "fields_wf (ad_fields a)" "validate (ad_fields a) = Inr ()" "length (ad_signature a) = SIG_LEN"
    by (rule decode_Inr(1,2,4) [OF d])+
  show "fst (encode (ad_fields a) out) \<noteq> Inl Panic" using d by (rule decoded_grant_writes)
next
  show "valid_did P (key_did P key)" using valid_from_verifying_key [OF assms(1)] by (simp add: key_did_def)
next
  show "\<exists>answers w. offer_all N (new_window N) xs = Inr (answers, w) \<and> window_inv N w"
    using offer_all_refines [OF window_inv_new, of N xs] by blast
qed (use from_secret_wf generate_Inr(1) did_parse_valid pf_new_wf in \<open>auto simp: pin_decode_Inr\<close>)

theorem values_well_formed_witness:
  "device_id_wf (dk_device_id sample_key) \<and> device_id_as_str (dk_device_id sample_key) = ascii ''cam-1''
    \<and> wf_key sample_prims sample_key \<and> valid_did sample_prims (key_did sample_prims sample_key)
    \<and> to_did_string sample_bs58 (key_did sample_prims sample_key) \<noteq> Inl Panic"
  using values_well_formed [OF sample_prims_ok sample_bs58_ok, where t = "ascii ''cam-1''"
      and i = "dk_device_id sample_key" and secret = "1 # replicate 30 0 @ [7]" and key = sample_key
      and fill = sample_rng and r = 7 and r' = 8 and s = sample_did_text and d = "key_did sample_prims sample_key"]
    sample_id sample_from_secret
  by simp

section \<open>One hash, one claim\<close>



section \<open>The identity at rest on the chip\<close>

lemma sealed_on_idf:
  "idf_namespace N check_key entry \<Longrightarrow> aead_ok A \<Longrightarrow> rng_ok fill \<Longrightarrow>
     sealed_store (nvs_kv N check_key) (nvs_contents entry) (\<lambda>_. True) (\<lambda>_. True) A fill"
  by (intro sealed_store.intro sealed_store_axioms.intro idf_namespace.contract) simp_all

text \<open>C17. The device key in the sealed store over the chip's namespace, as a device composes them: a boot
  that answers a key either found it there or leaves it sealed, 64 bytes and never the secret in
  the clear; and every later boot on that entry answers the same key or an error, draws nothing
  from the generator and writes nothing, whatever call of the chip fails.\<close>

theorem identity_sealed_on_chip:
  assumes "idf_namespace N check_key entry" "aead_ok A" "rng_ok fill" "prims_ok P" "sealing st"
    and "load_or_generate P (seal_kv A (nvs_kv N check_key) fill) draw st r device_id = (Inr key, st', r')"
  shows "(st' = st \<or> (\<exists>raw. nvs_contents entry (sk_inner st') KV_KEY = Some raw \<and>
        starts_with raw MAGIC \<and> length raw = 64))
    \<and> (\<forall>t q (draw2 :: 'q rng) res t' q'.
         sk_cipher t = sk_cipher st' \<and>
         nvs_contents entry (sk_inner t) KV_KEY = nvs_contents entry (sk_inner st') KV_KEY \<and>
         load_or_generate P (seal_kv A (nvs_kv N check_key) fill) draw2 t q device_id = (res, t', q') \<longrightarrow>
         t' = t \<and> q' = q \<and> (res = Inr key \<or> (\<exists>e. res = Inl e)))"
proof -
  let ?K = "seal_kv A (nvs_kv N check_key) fill" and ?c = "sealed_contents A (nvs_contents entry)"
  note S = sealed_on_idf [OF assms(1-3)]
  note K = sealed_store.contract [OF S]
  have st: "length v = 32 \<Longrightarrow> length v \<le> MAX_VALUE" for v :: bytes by simp
  note k = kv_store.load_or_generate_stored [OF K assms(4) TrueI st assms(6)]
  have rest: "st' = st \<or> (\<exists>raw. nvs_contents entry (sk_inner st') KV_KEY = Some raw \<and>
      starts_with raw MAGIC \<and> length raw = 64)"
  proof (cases "st' = st")
    case False
    with assms(6) have p: "seal_put A (nvs_kv N check_key) fill st KV_KEY (secret_bytes P key) = (Inr (), st')"
      by (auto simp: load_or_generate_def store_def seal_kv_def split: sum.splits option.splits prod.splits)
    from assms(5) obtain c where c: "sk_cipher st = Some c" by (auto simp: sealing_def)
    have l: "length (secret_bytes P key) = 32"
      by (simp add: secret_bytes_def prims_okD(3) [OF assms(4)])
    from S TrueI c p show ?thesis
      by (rule sealed_store.sealed_at_rest)
        (use aead_okD(2) [OF assms(2)] l in fastforce)
  qed simp
  moreover have "t' = t \<and> q' = q \<and> (res = Inr key \<or> (\<exists>e. res = Inl e))"
    if t: "sk_cipher t = sk_cipher st'"
      "nvs_contents entry (sk_inner t) KV_KEY = nvs_contents entry (sk_inner st') KV_KEY"
      and run: "load_or_generate P ?K (draw2 :: 'q rng) t q device_id = (res, t', q')"
    for t q draw2 res t' q'
  proof -
    have "?c t KV_KEY = Some (secret_bytes P key)"
      using k(4) t by (simp add: sealed_contents_def)
    note l = kv_store.load_stored [OF K assms(4) TrueI k(2,3) this]
    show ?thesis
      using run l by (cases "load P ?K t device_id") (auto simp: load_or_generate_def)
  qed
  ultimately show ?thesis by blast
qed

lemma sample_chip_boot:
  "\<exists>st'. load_or_generate sample_prims (seal_kv sample_aead (nvs_kv sample_nvs sample_check_key) sample_rng)
     sample_rng (seal_new sample_aead [] 5 (Some [3])) 7 (ascii ''cam-1'') = (Inr sample_key, st', 8)
     \<and> st' \<noteq> seal_new sample_aead [] 5 (Some [3])"
proof -
  have ck: "sample_check_key KV_KEY = Inr ()" by (simp add: sample_check_key_def KV_KEY_def ascii_def)
  have "load sample_prims (seal_kv sample_aead (nvs_kv sample_nvs sample_check_key) sample_rng)
      (seal_new sample_aead [] 5 (Some [3])) (ascii ''cam-1'') = Inr None"
    by (simp add: load_def seal_kv_def seal_get_def seal_new_def nvs_kv_def nvs_kv_get_def ck
        get_str_value_def sample_nvs_def esp_res_def)
  then show ?thesis
    using sample_secret
    by (simp add: load_or_generate_def sample_generated store_def seal_kv_def seal_put_def seal_new_def
        sample_rng_def sample_aead_def nvs_kv_def nvs_kv_put_def ck sample_nvs_def esp_res_def)
qed

theorem identity_sealed_on_chip_witness:
  "\<exists>st' raw. load_or_generate sample_prims (seal_kv sample_aead (nvs_kv sample_nvs sample_check_key) sample_rng)
       sample_rng (seal_new sample_aead [] 5 (Some [3])) 7 (ascii ''cam-1'') = (Inr sample_key, st', 8)
     \<and> nvs_contents map_of (sk_inner st') KV_KEY = Some raw \<and> starts_with raw MAGIC \<and> length raw = 64"
proof -
  obtain st' where b: "load_or_generate sample_prims
      (seal_kv sample_aead (nvs_kv sample_nvs sample_check_key) sample_rng)
      sample_rng (seal_new sample_aead [] 5 (Some [3])) 7 (ascii ''cam-1'') = (Inr sample_key, st', 8)"
    and ne: "st' \<noteq> seal_new sample_aead [] 5 (Some [3])"
    using sample_chip_boot by blast
  have "sealing (seal_new sample_aead [] 5 (Some [3]) :: (_, u8, bytes) sealed_kv)"
    by (simp add: sealing_def seal_new_def)
  from identity_sealed_on_chip [OF sample_idf.idf_namespace_axioms sample_aead_ok sample_rng_ok
      sample_prims_ok this b, where ?'q = u8] b ne
  show ?thesis by blast
qed

end
